(* ===== verification/Prelude.thy ===== *)
theory Prelude
  imports "HOL-Library.Word" "HOL-Library.AList" "HOL-Library.List_Lexorder"
    "HOL-Library.Char_ord" "HOL-Library.Product_Lexorder"
begin

text \<open>
  Shared vocabulary of the development: Rust strings and byte vectors, the parts of the
  Rust standard library the sources use (\<open>str::split\<close>, \<open>str::trim\<close>, UTF-8 validation,
  integer parsing and printing, saturating and wrapping \<open>i64\<close> arithmetic), the error monad,
  and hash maps as association lists with distinct keys.

  A Rust \<open>String\<close> is a \<^typ>\<open>string\<close>: its UTF-8 bytes as a list of \<^typ>\<open>char\<close> (a
  \<^typ>\<open>char\<close> of HOL is one byte). A \<open>Vec<u8>\<close> is a list of \<^typ>\<open>8 word\<close>. The order on
  strings is the bytewise lexicographic one, which is both Rust's \<open>Ord for str\<close> and
  SQLite's BINARY collation.
\<close>

named_theorems str_simps \<open>computation rules for the string functions of the standard library\<close>
named_theorems map_simps \<open>look-up after an update or a deletion in an association list\<close>

type_synonym bytes = "8 word list"

subsection \<open>Results\<close>

definition bindE :: "'e + 'a \<Rightarrow> ('a \<Rightarrow> 'e + 'b) \<Rightarrow> 'e + 'b" where
  "bindE m k = (case m of Inl e \<Rightarrow> Inl e | Inr a \<Rightarrow> k a)"

lemma bindE_simps [simp]:
  "bindE (Inl e) k = Inl e"
  "bindE (Inr a) k = k a"
  by (simp_all add: bindE_def)

lemma bindE_eq_Inr:
  "bindE m k = Inr b \<longleftrightarrow> (\<exists>a. m = Inr a \<and> k a = Inr b)"
  by (cases m) auto

lemma bindE_cong [fundef_cong]:
  "m = m' \<Longrightarrow> (\<And>a. m' = Inr a \<Longrightarrow> k a = k' a) \<Longrightarrow> bindE m k = bindE m' k'"
  by (auto simp: bindE_def split: sum.splits)

lemma bindE_split:
  "P (bindE m k) \<longleftrightarrow> (\<forall>e. m = Inl e \<longrightarrow> P (Inl e)) \<and> (\<forall>a. m = Inr a \<longrightarrow> P (k a))"
  by (cases m) auto

text \<open>A call either panics or returns; gRPC handlers answer with a status on an error.\<close>

datatype 'a outcome = Panic | Returned 'a

datatype status =
  InvalidArgument string
| Unauthenticated string
| NotFound string
| FailedPrecondition string
| Unavailable string
| Internal string

subsection \<open>Bytes and characters\<close>

definition byte_of_char :: "char \<Rightarrow> 8 word" where
  "byte_of_char c = of_nat (of_char c)"

definition char_of_byte :: "8 word \<Rightarrow> char" where
  "char_of_byte w = char_of (unat w)"

lemma unat_byte_of_char: "unat (byte_of_char c) = of_char c"
proof -
  have "of_char c < (256 :: nat)" by (cases c) (simp add: of_char_def)
  then show ?thesis
    by (simp add: byte_of_char_def unat_of_nat)
qed

lemma char_of_byte_of_char [simp]: "char_of_byte (byte_of_char c) = c"
  by (simp add: char_of_byte_def unat_byte_of_char)

lemma byte_of_char_of_byte [simp]: "byte_of_char (char_of_byte w) = w"
proof -
  have "unat w < 256" using unsigned_less [of w] by simp
  then have "of_char (char_of (unat w) :: char) = unat w" by (simp add: of_char_mod_256 mod_less)
  then have "unat (byte_of_char (char_of_byte w)) = unat w"
    by (simp add: unat_byte_of_char char_of_byte_def)
  then show ?thesis by (rule word_unat_eq_iff [THEN iffD2])
qed

definition as_bytes :: "string \<Rightarrow> bytes" where
  "as_bytes s = map byte_of_char s"

definition of_bytes :: "bytes \<Rightarrow> string" where
  "of_bytes b = map char_of_byte b"

lemma of_bytes_as_bytes [simp]: "of_bytes (as_bytes s) = s"
  by (simp add: as_bytes_def of_bytes_def o_def)

lemma as_bytes_of_bytes [simp]: "as_bytes (of_bytes b) = b"
  by (simp add: as_bytes_def of_bytes_def o_def)

lemma length_as_bytes [simp]: "length (as_bytes s) = length s"
  by (simp add: as_bytes_def)

lemma length_of_bytes [simp]: "length (of_bytes s) = length s"
  by (simp add: of_bytes_def)

lemma as_bytes_inj [simp]: "as_bytes s = as_bytes t \<longleftrightarrow> s = t"
  by (metis of_bytes_as_bytes)

subsection \<open>UTF-8 validation, as \<open>String::from_utf8\<close> and \<open>std::str::from_utf8\<close> do it\<close>

definition utf8_cont :: "8 word \<Rightarrow> bool" where
  "utf8_cont b \<longleftrightarrow> 0x80 \<le> b \<and> b \<le> 0xBF"

fun valid_utf8 :: "bytes \<Rightarrow> bool" where
  "valid_utf8 [] = True"
| "valid_utf8 (b # bs) =
     (if b < 0x80 then valid_utf8 bs
      else if 0xC2 \<le> b \<and> b \<le> 0xDF then
        (case bs of b1 # r \<Rightarrow> utf8_cont b1 \<and> valid_utf8 r | _ \<Rightarrow> False)
      else if 0xE0 \<le> b \<and> b \<le> 0xEF then
        (case bs of b1 # b2 # r \<Rightarrow>
            (if b = 0xE0 then 0xA0 \<le> b1 \<and> b1 \<le> 0xBF
             else if b = 0xED then 0x80 \<le> b1 \<and> b1 \<le> 0x9F
             else utf8_cont b1) \<and> utf8_cont b2 \<and> valid_utf8 r
         | _ \<Rightarrow> False)
      else if 0xF0 \<le> b \<and> b \<le> 0xF4 then
        (case bs of b1 # b2 # b3 # r \<Rightarrow>
            (if b = 0xF0 then 0x90 \<le> b1 \<and> b1 \<le> 0xBF
             else if b = 0xF4 then 0x80 \<le> b1 \<and> b1 \<le> 0x8F
             else utf8_cont b1) \<and> utf8_cont b2 \<and> utf8_cont b3 \<and> valid_utf8 r
         | _ \<Rightarrow> False)
      else False)"

definition from_utf8 :: "bytes \<Rightarrow> string option" where
  "from_utf8 b = (if valid_utf8 b then Some (of_bytes b) else None)"

definition is_str :: "string \<Rightarrow> bool" where
  "is_str s \<longleftrightarrow> valid_utf8 (as_bytes s)"

lemma from_utf8_as_bytes [simp]: "is_str s \<Longrightarrow> from_utf8 (as_bytes s) = Some s"
  by (simp add: from_utf8_def is_str_def)

lemma from_utf8_Some: "from_utf8 b = Some s \<longleftrightarrow> is_str s \<and> b = as_bytes s"
  by (auto simp: from_utf8_def is_str_def)

lemma byte_of_char_ascii: "\<not> digit7 c \<Longrightarrow> byte_of_char c < 0x80"
proof -
  assume "\<not> digit7 c"
  then have "of_char c < (128 :: nat)"
    by (cases c) (auto simp: of_char_def)
  then show ?thesis by (simp add: word_less_nat_alt unat_byte_of_char)
qed

lemma is_str_ascii: "list_all (\<lambda>c. \<not> digit7 c) s \<Longrightarrow> is_str s"
  by (induction s) (simp_all add: is_str_def as_bytes_def byte_of_char_ascii)

subsection \<open>\<open>str::split\<close>, \<open>str::trim\<close>, \<open>to_ascii_lowercase\<close>\<close>

fun split_on :: "char \<Rightarrow> string \<Rightarrow> string list" where
  "split_on sep [] = [[]]"
| "split_on sep (c # cs) =
     (if c = sep then [] # split_on sep cs
      else (case split_on sep cs of [] \<Rightarrow> [[c]] | p # ps \<Rightarrow> (c # p) # ps))"

fun join_with :: "char \<Rightarrow> string list \<Rightarrow> string" where
  "join_with sep [] = []"
| "join_with sep [p] = p"
| "join_with sep (p # ps) = p @ sep # join_with sep ps"

lemma split_on_not_Nil [simp]: "split_on sep s \<noteq> []"
  by (cases s) (auto split: list.splits)

lemma join_with_Cons: "ps \<noteq> [] \<Longrightarrow> join_with sep (p # ps) = p @ sep # join_with sep ps"
  by (cases ps) auto

lemma join_split_on [simp]: "join_with sep (split_on sep s) = s"
proof (induction s)
  case (Cons c cs)
  obtain p ps where pps: "split_on sep cs = p # ps"
    by (cases "split_on sep cs") auto
  then have "join_with sep ((c # p) # ps) = c # join_with sep (p # ps)"
    by (cases ps) auto
  with Cons pps show ?case
    by (auto simp: join_with_Cons)
qed simp

lemma split_on_inj: "split_on sep s = split_on sep t \<longleftrightarrow> s = t"
  by (metis join_split_on)

lemma split_on_no_sep: "p \<in> set (split_on sep s) \<Longrightarrow> sep \<notin> set p"
proof (induction s arbitrary: p)
  case (Cons c cs)
  obtain q qs where "split_on sep cs = q # qs"
    by (cases "split_on sep cs") auto
  with Cons show ?case by (auto split: if_splits)
qed simp

lemma set_split_on: "set s \<subseteq> insert sep (\<Union>p \<in> set (split_on sep s). set p)"
proof (induction s)
  case (Cons c cs)
  obtain q qs where "split_on sep cs = q # qs"
    by (cases "split_on sep cs") auto
  with Cons show ?case by auto
qed simp

lemma split_on_part_subset: "p \<in> set (split_on sep s) \<Longrightarrow> set p \<subseteq> set s"
proof (induction s arbitrary: p)
  case (Cons c cs)
  obtain q qs where "split_on sep cs = q # qs"
    by (cases "split_on sep cs") auto
  with Cons show ?case by (auto split: if_splits) (metis subsetD)+
qed simp

lemma split_on_append_sep:
  "split_on sep (s @ sep # t) = split_on sep s @ split_on sep t"
proof (induction s)
  case (Cons c cs)
  obtain q qs where "split_on sep cs = q # qs"
    by (cases "split_on sep cs") auto
  with Cons show ?case by auto
qed simp

lemma split_on_single: "sep \<notin> set s \<Longrightarrow> split_on sep s = [s]"
  by (induction s) auto

definition starts_with :: "string \<Rightarrow> string \<Rightarrow> bool" where
  "starts_with p s \<longleftrightarrow> take (length p) s = p"

lemma starts_with_iff: "starts_with p s \<longleftrightarrow> (\<exists>r. s = p @ r)"
proof
  assume "starts_with p s"
  then show "\<exists>r. s = p @ r"
    unfolding starts_with_def by (metis append_take_drop_id)
qed (auto simp: starts_with_def)

definition strip_prefix :: "string \<Rightarrow> string \<Rightarrow> string option" where
  "strip_prefix p s = (if starts_with p s then Some (drop (length p) s) else None)"

definition strip_suffix :: "string \<Rightarrow> string \<Rightarrow> string option" where
  "strip_suffix p s = map_option rev (strip_prefix (rev p) (rev s))"

lemma strip_prefix_Some: "strip_prefix p s = Some r \<longleftrightarrow> s = p @ r"
  by (auto simp: strip_prefix_def starts_with_iff)

lemma strip_suffix_Some: "strip_suffix p s = Some r \<longleftrightarrow> s = r @ p"
  by (auto simp: strip_suffix_def strip_prefix_Some) (metis rev_append rev_rev_ident)

text \<open>The code points with the Unicode property \<open>White_Space\<close>, in UTF-8.\<close>

definition white_space :: "string list" where
  "white_space =
     [[CHR 0x09], [CHR 0x0A], [CHR 0x0B], [CHR 0x0C], [CHR 0x0D], [CHR 0x20],
      [CHR 0xC2, CHR 0x85], [CHR 0xC2, CHR 0xA0], [CHR 0xE1, CHR 0x9A, CHR 0x80],
      [CHR 0xE2, CHR 0x80, CHR 0x80], [CHR 0xE2, CHR 0x80, CHR 0x81],
      [CHR 0xE2, CHR 0x80, CHR 0x82], [CHR 0xE2, CHR 0x80, CHR 0x83],
      [CHR 0xE2, CHR 0x80, CHR 0x84], [CHR 0xE2, CHR 0x80, CHR 0x85],
      [CHR 0xE2, CHR 0x80, CHR 0x86], [CHR 0xE2, CHR 0x80, CHR 0x87],
      [CHR 0xE2, CHR 0x80, CHR 0x88], [CHR 0xE2, CHR 0x80, CHR 0x89],
      [CHR 0xE2, CHR 0x80, CHR 0x8A], [CHR 0xE2, CHR 0x80, CHR 0xA8],
      [CHR 0xE2, CHR 0x80, CHR 0xA9], [CHR 0xE2, CHR 0x80, CHR 0xAF],
      [CHR 0xE2, CHR 0x81, CHR 0x9F], [CHR 0xE3, CHR 0x80, CHR 0x80]]"

fun strip_any :: "string list \<Rightarrow> string \<Rightarrow> string option" where
  "strip_any [] s = None"
| "strip_any (w # ws) s =
     (if w \<noteq> [] \<and> starts_with w s then Some (drop (length w) s) else strip_any ws s)"

lemma strip_any_shorter: "strip_any ws s = Some r \<Longrightarrow> length r < length s"
  by (induction ws) (auto simp: starts_with_iff split: if_splits)

function trim_with :: "string list \<Rightarrow> string \<Rightarrow> string" where
  "trim_with ws s = (case strip_any ws s of None \<Rightarrow> s | Some r \<Rightarrow> trim_with ws r)"
  by pat_completeness auto
termination
  by (relation "measure (\<lambda>(ws, s). length s)") (auto dest: strip_any_shorter)

declare trim_with.simps [simp del]

definition trim_start :: "string \<Rightarrow> string" where
  "trim_start s = trim_with white_space s"

definition trim_end :: "string \<Rightarrow> string" where
  "trim_end s = rev (trim_with (map rev white_space) (rev s))"

definition trim :: "string \<Rightarrow> string" where
  "trim s = trim_end (trim_start s)"

lemma trim_with_suffix: "\<exists>w. s = w @ trim_with ws s"
proof (induction ws s rule: trim_with.induct)
  case (1 ws s)
  show ?case
  proof (cases "strip_any ws s")
    case None
    then show ?thesis by (simp add: trim_with.simps [of ws s])
  next
    case (Some r)
    have "\<exists>w. s = w @ r"
      using Some by (induction ws) (auto simp: starts_with_iff split: if_splits)
    with Some 1 show ?thesis
      by (simp add: trim_with.simps [of ws s]) (metis append.assoc)
  qed
qed

lemma trim_with_stripped: "strip_any ws (trim_with ws s) = None"
proof (induction ws s rule: trim_with.induct)
  case (1 ws s)
  then show ?case
    by (cases "strip_any ws s") (simp_all add: trim_with.simps [of ws s])
qed

lemma strip_any_prefix: "strip_any ws (u @ v) = None \<Longrightarrow> strip_any ws u = None"
  by (induction ws) (auto simp: starts_with_iff split: if_splits)

lemma trim_with_id: "strip_any ws s = None \<Longrightarrow> trim_with ws s = s"
  by (subst trim_with.simps) simp

lemma trim_trim [simp]: "trim (trim s) = trim s"
proof -
  let ?t = "trim_start s"
  obtain w where w: "rev ?t = w @ trim_with (map rev white_space) (rev ?t)"
    using trim_with_suffix by blast
  then have split: "?t = trim s @ rev w"
    unfolding trim_def trim_end_def by (metis rev_append rev_rev_ident)
  have "strip_any white_space ?t = None"
    by (simp add: trim_start_def trim_with_stripped)
  then have "strip_any white_space (trim s) = None"
    using split strip_any_prefix by metis
  then have "trim_start (trim s) = trim s"
    by (simp add: trim_start_def trim_with_id)
  moreover have "trim_end (trim s) = trim s"
    unfolding trim_def trim_end_def
    by (simp add: trim_with_id trim_with_stripped)
  ultimately show ?thesis
    by (simp add: trim_def [of "trim s"])
qed

text \<open>A text of printable ASCII characters without blanks is not changed by \<open>trim\<close>.\<close>

definition solid :: "char \<Rightarrow> bool" where
  "solid c \<longleftrightarrow>
     \<not> digit7 c \<and> c \<notin> {CHR 0x09, CHR 0x0A, CHR 0x0B, CHR 0x0C, CHR 0x0D, CHR '' ''}"

lemma strip_any_hd: "\<forall>w \<in> set ws. w = [] \<or> hd w \<noteq> c \<Longrightarrow> strip_any ws (c # s) = None"
proof (induction ws)
  case (Cons w ws)
  then have "w = [] \<or> \<not> starts_with w (c # s)" by (cases w) (auto simp: starts_with_iff)
  with Cons show ?case by auto
qed simp

lemma strip_any_Nil: "strip_any ws [] = None"
  by (induction ws) (auto simp: starts_with_iff)

lemma white_space_solid:
  "\<forall>w \<in> set white_space \<union> set (map rev white_space). w \<noteq> [] \<and> \<not> solid (hd w)"
  by (simp add: white_space_def solid_def)

lemma strip_solid:
  assumes "s = [] \<or> solid (hd s)" "ws = white_space \<or> ws = map rev white_space"
  shows "strip_any ws s = None"
proof (cases s)
  case (Cons c cs)
  then have "solid c" using assms(1) by simp
  then have "\<forall>w \<in> set ws. w = [] \<or> hd w \<noteq> c" using assms(2) white_space_solid by blast
  with Cons show ?thesis by (simp add: strip_any_hd)
qed (simp add: strip_any_Nil)

lemma trim_solid: "list_all solid s \<Longrightarrow> trim s = s"
proof -
  assume solid: "list_all solid s"
  have "s = [] \<or> solid (hd s)" using solid by (cases s) simp_all
  then have "strip_any white_space s = None" by (rule strip_solid) blast
  moreover have "rev s = [] \<or> solid (hd (rev s))"
    using solid by (cases s rule: rev_cases) simp_all
  then have "strip_any (map rev white_space) (rev s) = None" by (rule strip_solid) blast
  ultimately show ?thesis
    unfolding trim_def trim_start_def trim_end_def by (simp only: trim_with_id rev_rev_ident)
qed

lemma is_str_solid: "list_all solid s \<Longrightarrow> is_str s"
  by (rule is_str_ascii) (auto simp: list_all_iff solid_def)

definition ascii_lower :: "char \<Rightarrow> char" where
  "ascii_lower c =
     (let n = of_char c :: nat in if 65 \<le> n \<and> n \<le> 90 then char_of (n + 32) else c)"

definition to_ascii_lowercase :: "string \<Rightarrow> string" where
  "to_ascii_lowercase s = map ascii_lower s"

subsection \<open>Integers: ranges, wrapping and saturation of \<open>i64\<close>, printing and parsing\<close>

definition i64_min :: int where "i64_min = - (2 ^ 63)"
definition i64_max :: int where "i64_max = 2 ^ 63 - 1"

definition in_i64 :: "int \<Rightarrow> bool" where
  "in_i64 x \<longleftrightarrow> i64_min \<le> x \<and> x \<le> i64_max"

definition wrap_i64 :: "int \<Rightarrow> int" where
  "wrap_i64 x = (x + 2 ^ 63) mod 2 ^ 64 - 2 ^ 63"

definition sat_i64 :: "int \<Rightarrow> int" where
  "sat_i64 x = max i64_min (min i64_max x)"

lemma wrap_i64_id: "in_i64 x \<Longrightarrow> wrap_i64 x = x"
  by (simp add: wrap_i64_def in_i64_def i64_min_def i64_max_def)

lemma in_i64_wrap [simp]: "in_i64 (wrap_i64 x)"
proof -
  have "0 \<le> (x + 2 ^ 63) mod 2 ^ 64" "(x + 2 ^ 63) mod 2 ^ 64 < (2 ^ 64 :: int)"
    by simp_all
  then show ?thesis
    unfolding wrap_i64_def in_i64_def i64_min_def i64_max_def by simp
qed

lemma in_i64_sat [simp]: "in_i64 (sat_i64 x)"
  by (simp add: sat_i64_def in_i64_def i64_min_def i64_max_def)

lemma sat_i64_id: "in_i64 x \<Longrightarrow> sat_i64 x = x"
  by (simp add: sat_i64_def in_i64_def)

lemma wrap_i64_add: "wrap_i64 (wrap_i64 a + b) = wrap_i64 (a + b)"
proof -
  have "(wrap_i64 a + b + 2 ^ 63) mod 2 ^ 64 = (((a + 2 ^ 63) mod 2 ^ 64) + b) mod 2 ^ 64"
    by (simp add: wrap_i64_def algebra_simps)
  also have "\<dots> = (a + b + 2 ^ 63) mod 2 ^ 64"
    by (simp add: mod_simps algebra_simps)
  finally show ?thesis by (simp add: wrap_i64_def [of "wrap_i64 a + b"] wrap_i64_def [of "a + b"])
qed

definition digit_char :: "nat \<Rightarrow> char" where
  "digit_char d = char_of (48 + d)"

definition is_digit :: "char \<Rightarrow> bool" where
  "is_digit c \<longleftrightarrow> 48 \<le> (of_char c :: nat) \<and> (of_char c :: nat) \<le> 57"

definition digit_val :: "char \<Rightarrow> nat" where
  "digit_val c = of_char c - 48"

fun show_nat :: "nat \<Rightarrow> string" where
  "show_nat n =
     (if n < 10 then [digit_char n] else show_nat (n div 10) @ [digit_char (n mod 10)])"

declare show_nat.simps [simp del]

definition show_int :: "int \<Rightarrow> string" where
  "show_int x = (if x < 0 then CHR ''-'' # show_nat (nat (- x)) else show_nat (nat x))"

fun digits_val :: "nat \<Rightarrow> string \<Rightarrow> nat option" where
  "digits_val acc [] = Some acc"
| "digits_val acc (c # cs) =
     (if is_digit c then digits_val (10 * acc + digit_val c) cs else None)"

definition parse_digits :: "string \<Rightarrow> nat option" where
  "parse_digits s = (if s = [] then None else digits_val 0 s)"

text \<open>\<open>str::parse::<i64>\<close>: an optional sign, at least one digit, no overflow.\<close>

definition parse_int :: "string \<Rightarrow> int option" where
  "parse_int s =
     Option.bind
       (case s of [] \<Rightarrow> None
        | c # cs \<Rightarrow>
            if c = CHR ''-'' then map_option (\<lambda>n. - int n) (parse_digits cs)
            else if c = CHR ''+'' then map_option int (parse_digits cs)
            else map_option int (parse_digits s))
       (\<lambda>x. if in_i64 x then Some x else None)"

text \<open>\<open>str::parse::<usize>\<close> on a 64-bit target: an optional \<open>+\<close>, at least one digit, no overflow.\<close>

definition parse_usize :: "string \<Rightarrow> nat option" where
  "parse_usize s =
     Option.bind
       (case s of [] \<Rightarrow> None
        | c # cs \<Rightarrow> if c = CHR ''+'' then parse_digits cs else parse_digits s)
       (\<lambda>n. if n < 2 ^ 64 then Some n else None)"

lemma of_char_digit_char: "d < 10 \<Longrightarrow> of_char (digit_char d) = 48 + d"
  by (simp add: digit_char_def)

lemma is_digit_digit_char: "d < 10 \<Longrightarrow> is_digit (digit_char d)"
  by (simp add: is_digit_def of_char_digit_char)

lemma digit_val_digit_char: "d < 10 \<Longrightarrow> digit_val (digit_char d) = d"
  by (simp add: digit_val_def of_char_digit_char)

lemma digits_val_append:
  "digits_val acc (s @ t) = Option.bind (digits_val acc s) (\<lambda>a. digits_val a t)"
  by (induction s arbitrary: acc) auto

lemma digits_val_show_nat: "digits_val 0 (show_nat n) = Some n"
proof (induction n rule: show_nat.induct)
  case (1 n)
  show ?case
  proof (cases "n < 10")
    case True
    then show ?thesis
      by (simp add: show_nat.simps [of n] is_digit_digit_char digit_val_digit_char)
  next
    case False
    with 1 show ?thesis
      by (simp add: show_nat.simps [of n] digits_val_append is_digit_digit_char
          digit_val_digit_char)
  qed
qed

lemma show_nat_not_Nil [simp]: "show_nat n \<noteq> []"
  by (subst show_nat.simps) simp

lemma show_nat_is_digit: "c \<in> set (show_nat n) \<Longrightarrow> is_digit c"
proof (induction n rule: show_nat.induct)
  case (1 n)
  then show ?case
    by (cases "n < 10") (auto simp: show_nat.simps [of n] is_digit_digit_char)
qed

lemma parse_digits_show_nat [simp]: "parse_digits (show_nat n) = Some n"
  by (simp add: parse_digits_def digits_val_show_nat)

lemma not_digit_sign: "\<not> is_digit (CHR ''-'')" "\<not> is_digit (CHR ''+'')"
  by (simp_all add: is_digit_def)

lemma show_nat_Cons: "\<exists>c cs. show_nat n = c # cs \<and> c \<noteq> CHR ''-'' \<and> c \<noteq> CHR ''+''"
proof -
  obtain c cs where cs: "show_nat n = c # cs"
    by (cases "show_nat n") auto
  then have "is_digit c" using show_nat_is_digit [of c n] by simp
  with cs show ?thesis by (auto simp: not_digit_sign)
qed

lemma parse_int_show_int: "in_i64 x \<Longrightarrow> parse_int (show_int x) = Some x"
proof (cases "x < 0")
  case True
  then show "in_i64 x \<Longrightarrow> ?thesis" by (simp add: show_int_def parse_int_def)
next
  case False
  obtain c cs where "show_nat (nat x) = c # cs" "c \<noteq> CHR ''-''" "c \<noteq> CHR ''+''"
    using show_nat_Cons by blast
  then show "in_i64 x \<Longrightarrow> ?thesis"
    using False parse_digits_show_nat [of "nat x"] by (simp add: show_int_def parse_int_def)
qed

lemma parse_int_in_i64: "parse_int s = Some x \<Longrightarrow> in_i64 x"
  by (auto simp: parse_int_def Option.bind_eq_Some_conv split: if_splits)

text \<open>The format \<open>{n:02}\<close>.\<close>

lemma solid_digit: "is_digit c \<Longrightarrow> solid c"
proof -
  assume "is_digit c"
  then have c: "48 \<le> (of_char c :: nat)" "of_char c \<le> (57 :: nat)" by (simp_all add: is_digit_def)
  have "\<not> digit7 c"
  proof
    assume "digit7 c"
    then have "128 \<le> (of_char c :: nat)" by (cases c) (auto simp: of_char_def)
    with c show False by simp
  qed
  moreover have "c \<notin> {CHR 0x09, CHR 0x0A, CHR 0x0B, CHR 0x0C, CHR 0x0D, CHR '' ''}"
    using c by auto
  ultimately show ?thesis by (simp add: solid_def)
qed

lemma solid_show_int: "list_all solid (show_int x)"
  by (auto simp: show_int_def list_all_iff solid_def [of "CHR ''-''"]
      dest: show_nat_is_digit intro: solid_digit)

definition show_pad2 :: "nat \<Rightarrow> string" where
  "show_pad2 n = (if n < 10 then CHR ''0'' # show_nat n else show_nat n)"

subsection \<open>Hash maps as association lists with distinct keys\<close>

text \<open>
  The order of the list stands for the unspecified iteration order of a Rust
  \<open>HashMap\<close>; results that hold for every list hold for every iteration order.
\<close>

type_synonym ('k, 'v) hmap = "('k \<times> 'v) list"

definition hmap_ok :: "('k, 'v) hmap \<Rightarrow> bool" where
  "hmap_ok m \<longleftrightarrow> distinct (map fst m)"

abbreviation hget :: "('k, 'v) hmap \<Rightarrow> 'k \<Rightarrow> 'v option" where
  "hget m k \<equiv> map_of m k"

abbreviation hput :: "'k \<Rightarrow> 'v \<Rightarrow> ('k, 'v) hmap \<Rightarrow> ('k, 'v) hmap" where
  "hput k v m \<equiv> AList.update k v m"

abbreviation hdel :: "'k \<Rightarrow> ('k, 'v) hmap \<Rightarrow> ('k, 'v) hmap" where
  "hdel k m \<equiv> AList.delete k m"

lemma hmap_ok_Nil [simp]: "hmap_ok []"
  by (simp add: hmap_ok_def)

lemma hmap_ok_put [simp]: "hmap_ok m \<Longrightarrow> hmap_ok (hput k v m)"
  by (simp add: hmap_ok_def distinct_update)

lemma hmap_ok_del [simp]: "hmap_ok m \<Longrightarrow> hmap_ok (hdel k m)"
  by (simp add: hmap_ok_def distinct_delete)

lemma hmap_ok_filter [simp]: "hmap_ok m \<Longrightarrow> hmap_ok (filter P m)"
  by (simp add: hmap_ok_def distinct_map_filter)

lemma hget_put [map_simps, simp]: "hget (hput k v m) j = (if j = k then Some v else hget m j)"
  by (simp add: update_conv')

lemma hget_del [map_simps, simp]: "hget (hdel k m) j = (if j = k then None else hget m j)"
  by (simp add: delete_conv')

lemma hget_filter:
  "hmap_ok m \<Longrightarrow>
   hget (filter P m) k = (case hget m k of None \<Rightarrow> None | Some v \<Rightarrow> if P (k, v) then Some v else None)"
  by (induction m) (auto simp: hmap_ok_def map_of_eq_None_iff image_iff split: option.splits)

lemma hget_iff_mem: "hmap_ok m \<Longrightarrow> hget m k = Some v \<longleftrightarrow> (k, v) \<in> set m"
  by (simp add: hmap_ok_def)

lemma length_hput: "length (hput k v m) = (if hget m k = None then Suc (length m) else length m)"
  by (induction m) (auto split: if_splits)

lemma length_hdel:
  "hmap_ok m \<Longrightarrow> length (hdel k m) = (if hget m k = None then length m else length m - 1)"
proof (induction m)
  case (Cons p m)
  obtain a b where p: "p = (a, b)" by (cases p)
  show ?case
  proof (cases "a = k")
    case True
    with Cons.prems p have "hget m k = None"
      by (auto simp: hmap_ok_def map_of_eq_None_iff)
    with True p show ?thesis
      by (simp add: delete_idem map_of_eq_None_iff)
  next
    case False
    with Cons p have "length (hdel k m) = (if hget m k = None then length m else length m - 1)"
      by (simp add: hmap_ok_def)
    moreover have "hget m k \<noteq> None \<Longrightarrow> 0 < length m" by (cases m) auto
    ultimately show ?thesis using False p by auto
  qed
qed simp

end
