(* ===== verification/Topic.thy ===== *)
theory Topic
  imports Prelude
begin

text \<open>
  Topic names and topic filters (\<open>src/topic.rs\<close>). A topic is split at \<open>/\<close> into levels;
  a filter may hold \<open>+\<close> (one level) and a final \<open>#\<close> (the remaining levels). The matcher
  of the source is an index loop; it is proved equal to an inductive definition of
  matching on the lists of levels, and its fast paths (an exact name, a trailing \<open>#\<close>)
  are characterised.
\<close>

subsection \<open>The operations of the source\<close>

definition wildcard_at_root :: "string \<Rightarrow> bool" where
  "wildcard_at_root flt \<longleftrightarrow>
     flt = ''#'' \<or> flt = ''+'' \<or> starts_with ''+/'' flt \<or> starts_with ''#'' flt"

text \<open>The \<open>while\<close> loop of \<open>filter_matches\<close>, with its two indices.\<close>

function filter_loop :: "string list \<Rightarrow> string list \<Rightarrow> nat \<Rightarrow> nat \<Rightarrow> bool" where
  "filter_loop filters topics fi ti =
     (if fi < length filters then
        (if filters ! fi = ''#'' then fi + 1 = length filters
         else if length topics \<le> ti then False
         else if filters ! fi \<noteq> ''+'' \<and> filters ! fi \<noteq> topics ! ti then False
         else filter_loop filters topics (fi + 1) (ti + 1))
      else ti = length topics)"
  by pat_completeness auto
termination
  by (relation "measure (\<lambda>(filters, topics, fi, ti). length filters - fi)") auto

declare filter_loop.simps [simp del]

definition filter_matches :: "string \<Rightarrow> string \<Rightarrow> bool" where
  "filter_matches flt topic =
     (if flt = [] \<or> topic = [] then False
      else if starts_with ''$'' topic \<and> wildcard_at_root flt then False
      else filter_loop (split_on (CHR ''/'') flt) (split_on (CHR ''/'') topic) 0 0)"

definition is_valid_publish_topic :: "string \<Rightarrow> bool" where
  "is_valid_publish_topic topic \<longleftrightarrow>
     topic \<noteq> [] \<and> CHR 0x00 \<notin> set topic \<and> CHR ''+'' \<notin> set topic \<and> CHR ''#'' \<notin> set topic"

text \<open>The \<open>for\<close> loop of \<open>is_valid_subscribe_filter\<close> over the enumerated parts.\<close>

fun valid_parts :: "nat \<Rightarrow> nat \<Rightarrow> string list \<Rightarrow> bool" where
  "valid_parts len index [] = True"
| "valid_parts len index (part # parts) =
     (if part = ''#'' then index + 1 = len
      else if part = ''+'' then valid_parts len (index + 1) parts
      else if CHR ''#'' \<in> set part \<or> CHR ''+'' \<in> set part then False
      else valid_parts len (index + 1) parts)"

definition is_valid_subscribe_filter :: "string \<Rightarrow> bool" where
  "is_valid_subscribe_filter flt =
     (if flt = [] \<or> CHR 0x00 \<in> set flt then False
      else let parts = split_on (CHR ''/'') flt in valid_parts (length parts) 0 parts)"

definition is_wildcard_filter :: "string \<Rightarrow> bool" where
  "is_wildcard_filter flt \<longleftrightarrow> CHR ''+'' \<in> set flt \<or> CHR ''#'' \<in> set flt"

definition multi_level_prefix :: "string \<Rightarrow> string option" where
  "multi_level_prefix flt =
     (if flt = ''#'' then Some []
      else case strip_suffix ''/#'' flt of
             None \<Rightarrow> None
           | Some prefix \<Rightarrow>
               if prefix \<noteq> [] \<and> \<not> is_wildcard_filter prefix \<and> is_valid_subscribe_filter flt
               then Some prefix else None)"

subsection \<open>Matching on levels, as the MQTT specification words it\<close>

abbreviation levels :: "string \<Rightarrow> string list" where
  "levels s \<equiv> split_on (CHR ''/'') s"

inductive mqtt_levels :: "string list \<Rightarrow> string list \<Rightarrow> bool" where
  both_end: "mqtt_levels [] []"
| hash_level: "mqtt_levels [''#''] ts"
| plus_level: "mqtt_levels fs ts \<Longrightarrow> mqtt_levels (''+'' # fs) (t # ts)"
| same_level: "f \<noteq> ''#'' \<Longrightarrow> mqtt_levels fs ts \<Longrightarrow> mqtt_levels (f # fs) (f # ts)"

inductive_simps mqtt_levels_simps:
  "mqtt_levels [] ts" "mqtt_levels (f # fs) []" "mqtt_levels (f # fs) (t # ts)"

text \<open>
  A filter matches a topic when both are non-empty, a topic that starts with \<open>$\<close> is not
  reached through a wildcard in the first level, and the levels match.
\<close>

definition mqtt_match :: "string \<Rightarrow> string \<Rightarrow> bool" where
  "mqtt_match f t \<longleftrightarrow>
     f \<noteq> [] \<and> t \<noteq> [] \<and>
     (hd t = CHR ''$'' \<longrightarrow> hd (levels f) \<noteq> ''+'' \<and> hd (levels f) \<noteq> ''#'') \<and>
     mqtt_levels (levels f) (levels t)"

lemma filter_loop_levels:
  "filter_loop filters topics fi ti \<longleftrightarrow> mqtt_levels (drop fi filters) (drop ti topics)"
  if "ti \<le> length topics"
  using that
proof (induction filters topics fi ti rule: filter_loop.induct)
  case (1 filters topics fi ti)
  note step = filter_loop.simps [of filters topics fi ti]
  show ?case
  proof (cases "fi < length filters")
    case False
    with "1.prems" show ?thesis
      by (auto simp: step mqtt_levels_simps)
  next
    case True
    then have f: "drop fi filters = filters ! fi # drop (Suc fi) filters"
      by (simp add: Cons_nth_drop_Suc)
    show ?thesis
    proof (cases "ti < length topics")
      case False
      then have t: "drop ti topics = []" by simp
      show ?thesis
        using True False unfolding step f t by (auto simp: mqtt_levels_simps)
    next
      case ti: True
      then have t: "drop ti topics = topics ! ti # drop (Suc ti) topics"
        by (simp add: Cons_nth_drop_Suc)
      show ?thesis
        using True ti f t "1.IH" by (auto simp: step mqtt_levels_simps)
    qed
  qed
qed

lemma hd_levels_Cons:
  "f = c # cs \<Longrightarrow> c \<noteq> CHR ''/'' \<Longrightarrow> \<exists>p ps. levels f = (c # p) # ps"
  by (cases "levels cs") auto

lemma hd_levels_plus: "hd (levels f) = ''+'' \<longleftrightarrow> f = ''+'' \<or> starts_with ''+/'' f"
proof (cases f)
  case (Cons c cs)
  show ?thesis
  proof (cases cs)
    case Nil
    with Cons show ?thesis by (auto simp: starts_with_iff)
  next
    case (Cons d ds)
    then show ?thesis
      using \<open>f = c # cs\<close> by (cases "levels ds") (auto simp: starts_with_iff)
  qed
qed (simp add: starts_with_iff)

lemma dollar_root:
  assumes "hd t = CHR ''$''" "t \<noteq> []" "f \<noteq> []" "mqtt_levels (levels f) (levels t)"
  shows "wildcard_at_root f \<longleftrightarrow> hd (levels f) = ''+'' \<or> hd (levels f) = ''#''"
proof -
  obtain ts where t: "t = CHR ''$'' # ts" using assms(1,2) by (cases t) auto
  obtain q qs where q: "levels t = (CHR ''$'' # q) # qs"
    using hd_levels_Cons [OF t] by auto
  have "starts_with ''#'' f \<Longrightarrow> hd (levels f) = ''#''"
  proof -
    assume "starts_with ''#'' f"
    then obtain r where "f = CHR ''#'' # r" by (auto simp: starts_with_iff)
    then obtain p ps where p: "levels f = (CHR ''#'' # p) # ps"
      using hd_levels_Cons by blast
    with assms(4) q show "hd (levels f) = ''#''"
      by (auto simp: mqtt_levels_simps)
  qed
  moreover have "hd (levels f) = ''#'' \<Longrightarrow> starts_with ''#'' f"
    by (cases f) (auto simp: starts_with_iff split: list.splits if_splits)
  ultimately show ?thesis
    by (auto simp: wildcard_at_root_def hd_levels_plus starts_with_iff)
qed

lemma filter_matches_mqtt: "filter_matches f t \<longleftrightarrow> mqtt_match f t"
proof (cases "f = [] \<or> t = []")
  case False
  then have "starts_with ''$'' t \<longleftrightarrow> hd t = CHR ''$''"
    by (cases t) (auto simp: starts_with_iff)
  with False show ?thesis
    using dollar_root [of t f]
    by (auto simp: filter_matches_def mqtt_match_def filter_loop_levels)
qed (auto simp: filter_matches_def mqtt_match_def)

lemma mqtt_levels_refl: "''#'' \<notin> set fs \<Longrightarrow> mqtt_levels fs fs"
  by (induction fs) (auto intro: mqtt_levels.intros)

lemma mqtt_levels_plain:
  "''#'' \<notin> set fs \<Longrightarrow> ''+'' \<notin> set fs \<Longrightarrow> mqtt_levels fs ts \<longleftrightarrow> fs = ts"
proof (induction fs arbitrary: ts)
  case (Cons f fs)
  then show ?case by (cases ts) (auto simp: mqtt_levels_simps)
qed (auto simp: mqtt_levels_simps)

lemma levels_no_wildcard:
  "\<not> is_wildcard_filter f \<Longrightarrow> ''#'' \<notin> set (levels f) \<and> ''+'' \<notin> set (levels f)"
  using split_on_part_subset [of _ "CHR ''/''" f] by (fastforce simp: is_wildcard_filter_def)

lemma filter_matches_plain:
  "\<not> is_wildcard_filter f \<Longrightarrow> filter_matches f t \<longleftrightarrow> t \<noteq> [] \<and> f = t"
proof -
  assume f: "\<not> is_wildcard_filter f"
  then have l: "''#'' \<notin> set (levels f)" "''+'' \<notin> set (levels f)"
    using levels_no_wildcard by auto
  then have "hd (levels f) \<noteq> ''+'' \<and> hd (levels f) \<noteq> ''#''"
    by (metis hd_in_set split_on_not_Nil)
  with l show ?thesis
    by (auto simp: filter_matches_mqtt mqtt_match_def mqtt_levels_plain split_on_inj)
qed

lemma valid_parts_iff:
  "valid_parts len i ps \<longleftrightarrow>
     (\<forall>j < length ps. (ps ! j = ''#'' \<and> i + j + 1 = len) \<or> ps ! j = ''+'' \<or>
        (CHR ''#'' \<notin> set (ps ! j) \<and> CHR ''+'' \<notin> set (ps ! j)))"
  if "len = i + length ps"
  using that
proof (induction ps arbitrary: i)
  case (Cons p ps)
  then have IH: "valid_parts len (i + 1) ps \<longleftrightarrow>
      (\<forall>j < length ps. (ps ! j = ''#'' \<and> (i + 1) + j + 1 = len) \<or> ps ! j = ''+'' \<or>
        (CHR ''#'' \<notin> set (ps ! j) \<and> CHR ''+'' \<notin> set (ps ! j)))"
    by simp
  show ?case
  proof (cases "p = ''#''")
    case True
    with Cons.prems show ?thesis by (auto simp: All_less_Suc2)
  next
    case False
    with IH show ?thesis by (auto simp: All_less_Suc2)
  qed
qed simp

lemma mqtt_levels_hash:
  "''#'' \<notin> set ps \<Longrightarrow> ''+'' \<notin> set ps \<Longrightarrow>
   mqtt_levels (ps @ [''#'']) ts \<longleftrightarrow> (\<exists>rest. ts = ps @ rest)"
proof (induction ps arbitrary: ts)
  case Nil
  then show ?case by (cases ts) (auto simp: mqtt_levels_simps)
next
  case (Cons p ps)
  then show ?case by (cases ts) (auto simp: mqtt_levels_simps)
qed

lemma split_on_join_with:
  "ps \<noteq> [] \<Longrightarrow> (\<And>p. p \<in> set ps \<Longrightarrow> sep \<notin> set p) \<Longrightarrow> split_on sep (join_with sep ps) = ps"
proof (induction ps)
  case (Cons p ps)
  show ?case
  proof (cases "ps = []")
    case True
    with Cons.prems show ?thesis by (simp add: split_on_single)
  next
    case False
    with Cons show ?thesis
      by (simp add: join_with_Cons split_on_append_sep split_on_single)
  qed
qed simp

lemma set_join_with: "set (join_with sep ps) \<subseteq> insert sep (\<Union>p \<in> set ps. set p)"
  by (induction sep ps rule: join_with.induct) auto

lemma multi_level_prefixD:
  assumes "multi_level_prefix f = Some p" "p \<noteq> []"
  shows "f = p @ ''/#''" "\<not> is_wildcard_filter p"
  using assms by (auto simp: multi_level_prefix_def strip_suffix_Some split: if_splits option.splits)

lemma levels_prefix_iff:
  "(\<exists>rest. levels t = levels p @ rest) \<longleftrightarrow> t = p \<or> starts_with (p @ ''/'') t"
proof
  assume "\<exists>rest. levels t = levels p @ rest"
  then obtain rest where rest: "levels t = levels p @ rest" by blast
  show "t = p \<or> starts_with (p @ ''/'') t"
  proof (cases "rest = []")
    case True
    with rest show ?thesis by (simp add: split_on_inj)
  next
    case False
    have sep: "\<And>q. q \<in> set rest \<Longrightarrow> CHR ''/'' \<notin> set q"
      using rest split_on_no_sep [of _ "CHR ''/''" t] by auto
    have "levels (p @ CHR ''/'' # join_with (CHR ''/'') rest) = levels p @ rest"
      using split_on_join_with [of rest "CHR ''/''"] False sep by (simp add: split_on_append_sep)
    with rest have "t = p @ CHR ''/'' # join_with (CHR ''/'') rest"
      by (metis split_on_inj)
    then show ?thesis by (simp add: starts_with_iff)
  qed
next
  assume "t = p \<or> starts_with (p @ ''/'') t"
  then show "\<exists>rest. levels t = levels p @ rest"
    by (auto simp: starts_with_iff split_on_append_sep)
qed

definition sample_level :: "string \<Rightarrow> string" where
  "sample_level p = (if p = ''+'' \<or> p = ''#'' then ''x'' else p)"

definition sample_topic :: "string \<Rightarrow> string" where
  "sample_topic f = join_with (CHR ''/'') (map sample_level (levels f))"

lemma levels_sample_topic: "levels (sample_topic f) = map sample_level (levels f)"
  unfolding sample_topic_def
  by (rule split_on_join_with) (auto simp: sample_level_def dest: split_on_no_sep)

lemma mqtt_levels_sample:
  "(\<And>j. j < length ps \<Longrightarrow> ps ! j = ''#'' \<Longrightarrow> j + 1 = length ps) \<Longrightarrow>
   mqtt_levels ps (map sample_level ps)"
proof (induction ps)
  case (Cons p ps)
  show ?case
  proof (cases "p = ''#''")
    case True
    with Cons.prems [of 0] have "ps = []" by simp
    with True show ?thesis by (simp add: mqtt_levels_simps)
  next
    case False
    have "mqtt_levels ps (map sample_level ps)"
      using Cons.prems [of "Suc _"] by (intro Cons.IH) auto
    moreover have "sample_level p = p \<or> p = ''+''" using False by (simp add: sample_level_def)
    ultimately show ?thesis using False
      unfolding list.map mqtt_levels_simps by metis
  qed
qed (auto intro: mqtt_levels.intros)

lemma valid_filter_parts:
  assumes "is_valid_subscribe_filter f" "j < length (levels f)"
  shows "(levels f ! j = ''#'' \<and> j + 1 = length (levels f)) \<or> levels f ! j = ''+'' \<or>
    (CHR ''#'' \<notin> set (levels f ! j) \<and> CHR ''+'' \<notin> set (levels f ! j))"
  using assms by (auto simp: is_valid_subscribe_filter_def Let_def valid_parts_iff split: if_splits)

lemma sample_topic_matches:
  assumes f: "is_valid_subscribe_filter f"
  shows "is_valid_publish_topic (sample_topic f)" "filter_matches f (sample_topic f)"
proof -
  let ?t = "sample_topic f"
  have f_ne: "f \<noteq> []" and f_nul: "CHR 0x00 \<notin> set f"
    using f by (auto simp: is_valid_subscribe_filter_def split: if_splits)
  have level: "CHR ''#'' \<notin> set q \<and> CHR ''+'' \<notin> set q \<and> CHR 0x00 \<notin> set q"
    if "q \<in> set (map sample_level (levels f))" for q
  proof -
    obtain j where j: "j < length (levels f)" "q = sample_level (levels f ! j)"
      using \<open>q \<in> _\<close> by (metis in_set_conv_nth length_map nth_map)
    have "CHR 0x00 \<notin> set (levels f ! j)"
      using split_on_part_subset [OF nth_mem [OF j(1)]] f_nul by blast
    with j show ?thesis
      using valid_filter_parts [OF f j(1)] by (auto simp: sample_level_def)
  qed
  have t_ne: "?t \<noteq> []"
  proof
    assume "?t = []"
    then have "map sample_level (levels f) = [[]]" using levels_sample_topic [of f] by simp
    then have "levels f = [[]]" by (auto simp: sample_level_def split: if_splits)
    then have "f = []" using join_split_on [of "CHR ''/''" f] by simp
    with f_ne show False by simp
  qed
  have "set ?t \<subseteq> insert (CHR ''/'') (\<Union>q \<in> set (map sample_level (levels f)). set q)"
    unfolding sample_topic_def by (rule set_join_with)
  then have "CHR ''#'' \<notin> set ?t \<and> CHR ''+'' \<notin> set ?t \<and> CHR 0x00 \<notin> set ?t"
    using level by blast
  with t_ne show "is_valid_publish_topic ?t"
    unfolding is_valid_publish_topic_def by simp
  have "j + 1 = length (levels f)" if "j < length (levels f)" "levels f ! j = ''#''" for j
    using valid_filter_parts [OF f that(1)] that(2) by simp
  then have "mqtt_levels (levels f) (levels ?t)"
    unfolding levels_sample_topic by (rule mqtt_levels_sample)
  moreover have "hd ?t = CHR ''$'' \<longrightarrow> hd (levels f) \<noteq> ''+'' \<and> hd (levels f) \<noteq> ''#''"
  proof (intro impI notI conjI)
    assume d: "hd ?t = CHR ''$''"
    have "hd (levels ?t) = sample_level (hd (levels f))"
      by (simp add: levels_sample_topic hd_map)
    moreover have "\<exists>r rs. levels ?t = (CHR ''$'' # r) # rs"
      using d t_ne hd_levels_Cons [of ?t "CHR ''$''"] by (cases ?t) auto
    ultimately have "hd (sample_level (hd (levels f))) = CHR ''$''" by (metis list.sel(1))
    then show "hd (levels f) = ''+'' \<Longrightarrow> False" and "hd (levels f) = ''#'' \<Longrightarrow> False"
      by (auto simp: sample_level_def)
  qed
  ultimately show "filter_matches f ?t"
    using f_ne t_ne by (simp add: filter_matches_mqtt mqtt_match_def)
qed

subsection \<open>Properties\<close>

text \<open>C26. The index loop of \<open>filter_matches\<close> computes exactly MQTT 3.1.1 matching: level by
  level, \<open>+\<close> for one level, a final \<open>#\<close> for all remaining levels (the parent level
  included), and no match of a \<open>$\<close> topic through a wildcard in the first level.\<close>

theorem filter_matches_is_mqtt: "filter_matches f t \<longleftrightarrow> mqtt_match f t"
  by (rule filter_matches_mqtt)

text \<open>A filter \<open>p/#\<close> recognised by \<open>multi_level_prefix\<close> matches exactly \<open>p\<close> and the
  topics below \<open>p/\<close>.\<close>

theorem multi_level_prefix_matches:
  assumes "multi_level_prefix f = Some p" "p \<noteq> []"
  shows "filter_matches f t \<longleftrightarrow> t = p \<or> starts_with (p @ ''/'') t"
proof -
  note f = multi_level_prefixD [OF assms]
  have l: "levels f = levels p @ [''#'']"
    using f(1) by (simp add: split_on_append_sep)
  have np: "''#'' \<notin> set (levels p)" "''+'' \<notin> set (levels p)"
    using levels_no_wildcard [OF f(2)] by auto
  then have "hd (levels f) \<noteq> ''+'' \<and> hd (levels f) \<noteq> ''#''"
    by (metis l hd_append2 hd_in_set split_on_not_Nil)
  moreover have "t = p \<or> starts_with (p @ ''/'') t \<Longrightarrow> t \<noteq> []"
    using assms(2) by (auto simp: starts_with_iff)
  moreover have "mqtt_levels (levels f) (levels t) \<longleftrightarrow> t = p \<or> starts_with (p @ ''/'') t"
    by (simp only: l mqtt_levels_hash [OF np] levels_prefix_iff)
  moreover have "f \<noteq> []" using f(1) by simp
  ultimately show ?thesis
    unfolding filter_matches_mqtt mqtt_match_def by blast
qed

theorem multi_level_prefix_matches_witness:
  "multi_level_prefix ''a/b/#'' = Some ''a/b'' \<and>
   (filter_matches ''a/b/#'' ''a/b/c'' \<longleftrightarrow> ''a/b/c'' = ''a/b'' \<or> starts_with ''a/b/'' ''a/b/c'')"
proof -
  have h: "multi_level_prefix ''a/b/#'' = Some ''a/b''" by code_simp
  show ?thesis using h multi_level_prefix_matches [OF h, of "''a/b/c''"] by simp
qed

text \<open>Every filter that \<open>is_valid_subscribe_filter\<close> accepts is satisfiable: some valid
  publish topic matches it, so an accepted subscription is never dead on arrival.\<close>

theorem valid_filter_satisfiable:
  "is_valid_subscribe_filter f \<Longrightarrow> \<exists>t. is_valid_publish_topic t \<and> filter_matches f t"
  using sample_topic_matches by blast

theorem valid_filter_satisfiable_witness:
  "is_valid_subscribe_filter ''+/b/#'' \<and>
   (\<exists>t. is_valid_publish_topic t \<and> filter_matches ''+/b/#'' t)"
proof -
  have h: "is_valid_subscribe_filter ''+/b/#''" by code_simp
  show ?thesis using h valid_filter_satisfiable [OF h] by simp
qed

end
