(* ===== verification/Codec.thy ===== *)
theory Codec
  imports Prelude
begin

text \<open>
  The MQTT 3.1.1 packet codec of \<open>src/src/mqtt/codec.rs\<close>: the packet types, the cursor
  readers with their explicit offset, \<open>decode_one\<close> and \<open>encode\<close> with every helper, and the
  decoding part of the two read loops of \<open>src/src/mqtt/session.rs\<close>.

  A reader takes the slice and the offset and returns the value with the advanced offset,
  or the error. \<open>decode_one\<close> mutates its buffer, so the model returns the buffer it leaves
  behind together with the result. The \<open>usize\<close> arithmetic of the remaining length stays
  below \<open>2 ^ 29\<close>, so natural numbers are exact.
\<close>

unbundle bit_operations_syntax

named_theorems read_rules \<open>what a cursor reader returns on the encoding of a value\<close>

subsection \<open>Packets\<close>

definition MAX_PACKET_SIZE :: nat where "MAX_PACKET_SIZE = 1024 * 1024"
definition CONNACK_ACCEPT :: "8 word" where "CONNACK_ACCEPT = 0"
definition CONNACK_PROTOCOL :: "8 word" where "CONNACK_PROTOCOL = 1"
definition CONNACK_IDENTIFIER :: "8 word" where "CONNACK_IDENTIFIER = 2"
definition CONNACK_BAD_AUTH :: "8 word" where "CONNACK_BAD_AUTH = 4"
definition CONNACK_NOT_AUTHORIZED :: "8 word" where "CONNACK_NOT_AUTHORIZED = 5"
definition SUBACK_FAILURE :: "8 word" where "SUBACK_FAILURE = 0x80"

record connect =
  protocol_level :: "8 word"
  clean_session :: bool
  keep_alive :: "16 word"
  client_id :: string
  username :: "string option"
  password :: "bytes option"

record publish =
  pub_dup :: bool
  pub_qos :: "8 word"
  pub_retain :: bool
  pub_topic :: string
  pub_packet_id :: "16 word option"
  pub_payload :: bytes

record subscribe_filter =
  flt_topic :: string
  flt_qos :: "8 word"

record subscribe =
  sub_packet_id :: "16 word"
  sub_filters :: "subscribe_filter list"

record unsubscribe =
  unsub_packet_id :: "16 word"
  unsub_filters :: "string list"

datatype packet =
  Connect connect
| ConnAck (session_present: bool) (code: "8 word")
| Publish publish
| PubAck "16 word"
| PubRec "16 word"
| PubRel "16 word"
| PubComp "16 word"
| Subscribe subscribe
| SubAck "16 word" bytes
| Unsubscribe unsubscribe
| UnsubAck "16 word"
| PingReq
| PingResp
| Disconnect

datatype codec_error = Malformed string | TooLarge

definition protocol_version :: "connect \<Rightarrow> string" where
  "protocol_version c =
     (if protocol_level c = 3 then ''3.1'' else if protocol_level c = 4 then ''3.1.1'' else '''')"

subsection \<open>Cursor readers\<close>

definition u16_from_be :: "8 word \<Rightarrow> 8 word \<Rightarrow> 16 word" where
  "u16_from_be hi lo = push_bit 8 (ucast hi) OR ucast lo"

definition read_u8 :: "bytes \<Rightarrow> nat \<Rightarrow> codec_error + 8 word \<times> nat" where
  "read_u8 data offset =
     (if offset < length data then Inr (data ! offset, offset + 1)
      else Inl (Malformed ''truncated''))"

definition read_u16 :: "bytes \<Rightarrow> nat \<Rightarrow> codec_error + 16 word \<times> nat" where
  "read_u16 data offset =
     (if length data < offset + 2 then Inl (Malformed ''truncated u16'')
      else Inr (u16_from_be (data ! offset) (data ! (offset + 1)), offset + 2))"

definition read_mqtt_bytes :: "bytes \<Rightarrow> nat \<Rightarrow> codec_error + bytes \<times> nat" where
  "read_mqtt_bytes data offset =
     bindE (read_u16 data offset) (\<lambda>(len, offset).
       if length data < offset + unat len then Inl (Malformed ''truncated bytes'')
       else Inr (take (unat len) (drop offset data), offset + unat len))"

definition read_mqtt_string :: "bytes \<Rightarrow> nat \<Rightarrow> codec_error + string \<times> nat" where
  "read_mqtt_string data offset =
     bindE (read_mqtt_bytes data offset) (\<lambda>(bytes, offset).
       case from_utf8 bytes of
         None \<Rightarrow> Inl (Malformed ''utf-8'')
       | Some s \<Rightarrow> Inr (s, offset))"

definition require_packet_id :: "bytes \<Rightarrow> codec_error + 16 word" where
  "require_packet_id payload =
     (if length payload \<noteq> 2 then Inl (Malformed ''packet id'')
      else Inr (u16_from_be (payload ! 0) (payload ! 1)))"

lemma read_mqtt_string_advances:
  "read_mqtt_string data offset = Inr (s, offset') \<Longrightarrow> offset + 2 \<le> offset' \<and> offset' \<le> length data"
  by (auto simp: read_mqtt_string_def read_mqtt_bytes_def read_u16_def bindE_eq_Inr
      split: if_splits option.splits)

lemma read_u8_advances:
  "read_u8 data offset = Inr (b, offset') \<Longrightarrow> offset' = offset + 1 \<and> offset < length data"
  by (auto simp: read_u8_def split: if_splits)

subsection \<open>Decoding a payload\<close>

definition decode_connect :: "bytes \<Rightarrow> codec_error + connect" where
  "decode_connect payload =
     bindE (read_mqtt_string payload 0) (\<lambda>(protocol, offset).
     bindE (read_u8 payload offset) (\<lambda>(level, offset).
     if \<not> ((protocol = ''MQTT'' \<and> level = 4) \<or> (protocol = ''MQIsdp'' \<and> level = 3))
     then Inl (Malformed ''unsupported protocol'')
     else bindE (read_u8 payload offset) (\<lambda>(flags, offset).
     if flags AND 0x01 \<noteq> 0 then Inl (Malformed ''CONNECT reserved flag'')
     else bindE (read_u16 payload offset) (\<lambda>(ka, offset).
     bindE (read_mqtt_string payload offset) (\<lambda>(cid, offset).
     bindE (if flags AND 0x04 \<noteq> 0
            then bindE (read_mqtt_string payload offset) (\<lambda>(_, offset).
                 bindE (read_mqtt_bytes payload offset) (\<lambda>(_, offset). Inr offset))
            else Inr offset) (\<lambda>offset.
     bindE (if flags AND 0x80 \<noteq> 0
            then bindE (read_mqtt_string payload offset) (\<lambda>(u, offset). Inr (Some u, offset))
            else Inr (None, offset)) (\<lambda>(user, offset).
     bindE (if flags AND 0x40 \<noteq> 0
            then bindE (read_mqtt_bytes payload offset) (\<lambda>(p, offset). Inr (Some p, offset))
            else Inr (None, offset)) (\<lambda>(pass, offset).
     Inr \<lparr>protocol_level = level, clean_session = (flags AND 0x02 \<noteq> 0), keep_alive = ka,
          client_id = cid, username = user, password = pass\<rparr>))))))))"

definition decode_publish :: "8 word \<Rightarrow> bytes \<Rightarrow> codec_error + publish" where
  "decode_publish flags payload =
     (let qos = drop_bit 1 flags AND 0x03 in
      if 2 < qos then Inl (Malformed ''PUBLISH QoS'')
      else bindE (read_mqtt_string payload 0) (\<lambda>(topic, offset).
           bindE (if 0 < qos
                  then bindE (read_u16 payload offset) (\<lambda>(i, offset). Inr (Some i, offset))
                  else Inr (None, offset)) (\<lambda>(packet_id, offset).
           Inr \<lparr>pub_dup = (flags AND 0x08 \<noteq> 0), pub_qos = qos,
                pub_retain = (flags AND 0x01 \<noteq> 0), pub_topic = topic,
                pub_packet_id = packet_id, pub_payload = drop offset payload\<rparr>)))"

text \<open>The \<open>while offset < payload.len()\<close> loops; each round consumes at least two bytes.\<close>

function subscribe_loop ::
  "bytes \<Rightarrow> nat \<Rightarrow> subscribe_filter list \<Rightarrow> codec_error + subscribe_filter list" where
  "subscribe_loop payload offset filters =
     (if offset < length payload then
        bindE (read_mqtt_string payload offset) (\<lambda>(topic, offset).
        bindE (read_u8 payload offset) (\<lambda>(qos, offset).
        if 2 < qos then Inl (Malformed ''SUBSCRIBE QoS'')
        else subscribe_loop payload offset (filters @ [\<lparr>flt_topic = topic, flt_qos = qos\<rparr>])))
      else Inr filters)"
  by pat_completeness auto
termination
  by (relation "measure (\<lambda>(payload, offset, filters). length payload - offset)")
    (auto dest!: read_mqtt_string_advances read_u8_advances)

function unsubscribe_loop :: "bytes \<Rightarrow> nat \<Rightarrow> string list \<Rightarrow> codec_error + string list" where
  "unsubscribe_loop payload offset filters =
     (if offset < length payload then
        bindE (read_mqtt_string payload offset) (\<lambda>(topic, offset).
        unsubscribe_loop payload offset (filters @ [topic]))
      else Inr filters)"
  by pat_completeness auto
termination
  by (relation "measure (\<lambda>(payload, offset, filters). length payload - offset)")
    (auto dest!: read_mqtt_string_advances)

declare subscribe_loop.simps [simp del] unsubscribe_loop.simps [simp del]

definition decode_subscribe :: "bytes \<Rightarrow> codec_error + subscribe" where
  "decode_subscribe payload =
     (if length payload < 2 then Inl (Malformed ''SUBSCRIBE'')
      else bindE (read_u16 payload 0) (\<lambda>(packet_id, offset).
           bindE (subscribe_loop payload offset []) (\<lambda>filters.
           if filters = [] then Inl (Malformed ''SUBSCRIBE has no filters'')
           else Inr \<lparr>sub_packet_id = packet_id, sub_filters = filters\<rparr>)))"

definition decode_unsubscribe :: "bytes \<Rightarrow> codec_error + unsubscribe" where
  "decode_unsubscribe payload =
     (if length payload < 2 then Inl (Malformed ''UNSUBSCRIBE'')
      else bindE (read_u16 payload 0) (\<lambda>(packet_id, offset).
           bindE (unsubscribe_loop payload offset []) (\<lambda>filters.
           if filters = [] then Inl (Malformed ''UNSUBSCRIBE has no filters'')
           else Inr \<lparr>unsub_packet_id = packet_id, unsub_filters = filters\<rparr>)))"

definition decode_payload :: "8 word \<Rightarrow> 8 word \<Rightarrow> bytes \<Rightarrow> codec_error + packet" where
  "decode_payload packet_type flags payload =
     (if packet_type = 1 then
        (if flags \<noteq> 0 then Inl (Malformed ''CONNECT flags'')
         else bindE (decode_connect payload) (\<lambda>c. Inr (Connect c)))
      else if packet_type = 2 then
        (if length payload \<noteq> 2 then Inl (Malformed ''CONNACK length'')
         else Inr (ConnAck (payload ! 0 AND 0x01 \<noteq> 0) (payload ! 1)))
      else if packet_type = 3 then bindE (decode_publish flags payload) (\<lambda>p. Inr (Publish p))
      else if packet_type = 4 then bindE (require_packet_id payload) (\<lambda>i. Inr (PubAck i))
      else if packet_type = 5 then bindE (require_packet_id payload) (\<lambda>i. Inr (PubRec i))
      else if packet_type = 6 then
        (if flags \<noteq> 0x02 then Inl (Malformed ''PUBREL flags'')
         else bindE (require_packet_id payload) (\<lambda>i. Inr (PubRel i)))
      else if packet_type = 7 then bindE (require_packet_id payload) (\<lambda>i. Inr (PubComp i))
      else if packet_type = 8 then
        (if flags \<noteq> 0x02 then Inl (Malformed ''SUBSCRIBE flags'')
         else bindE (decode_subscribe payload) (\<lambda>s. Inr (Subscribe s)))
      else if packet_type = 9 then
        (if length payload < 2 then Inl (Malformed ''SUBACK'')
         else Inr (SubAck (u16_from_be (payload ! 0) (payload ! 1)) (drop 2 payload)))
      else if packet_type = 10 then
        (if flags \<noteq> 0x02 then Inl (Malformed ''UNSUBSCRIBE flags'')
         else bindE (decode_unsubscribe payload) (\<lambda>u. Inr (Unsubscribe u)))
      else if packet_type = 11 then bindE (require_packet_id payload) (\<lambda>i. Inr (UnsubAck i))
      else if packet_type = 12 then
        (if payload \<noteq> [] then Inl (Malformed ''PINGREQ'') else Inr PingReq)
      else if packet_type = 13 then
        (if payload \<noteq> [] then Inl (Malformed ''PINGRESP'') else Inr PingResp)
      else if packet_type = 14 then
        (if payload \<noteq> [] then Inl (Malformed ''DISCONNECT'') else Inr Disconnect)
      else Inl (Malformed ''unknown packet type''))"

subsection \<open>The fixed header\<close>

text \<open>
  The \<open>for\<close> loop of \<open>decode_remaining_length\<close>: \<open>index\<close>, \<open>value\<close> and \<open>multiplier\<close> are its
  variables. The checked multiplication cannot overflow, since the loop stops at index 4.
\<close>

fun remaining_length_loop ::
  "bytes \<Rightarrow> nat \<Rightarrow> nat \<Rightarrow> nat \<Rightarrow> codec_error + (nat \<times> nat) option" where
  "remaining_length_loop [] index value multiplier = Inr None"
| "remaining_length_loop (byte # buf) index value multiplier =
     (if 4 \<le> index then Inl (Malformed ''remaining length'')
      else let value = value + unat (byte AND 0x7F) * multiplier in
           if byte AND 0x80 = 0 then Inr (Some (value, index + 1 + 1))
           else remaining_length_loop buf (index + 1) value (multiplier * 128))"

definition decode_remaining_length :: "bytes \<Rightarrow> codec_error + (nat \<times> nat) option" where
  "decode_remaining_length buf = remaining_length_loop buf 0 0 1"

definition decode_one :: "bytes \<Rightarrow> bytes \<times> (codec_error + packet option)" where
  "decode_one buf =
     (if buf = [] then (buf, Inr None)
      else let first = buf ! 0 in
        case decode_remaining_length (drop 1 buf) of
          Inl e \<Rightarrow> (buf, Inl e)
        | Inr None \<Rightarrow> (buf, Inr None)
        | Inr (Some (remaining, header_len)) \<Rightarrow>
            if MAX_PACKET_SIZE < remaining then (buf, Inl TooLarge)
            else let total = header_len + remaining in
              if length buf < total then (buf, Inr None)
              else let packet_type = drop_bit 4 first;
                       flags = first AND 0x0F;
                       payload = take (total - header_len) (drop header_len buf)
                   in (drop total buf, bindE (decode_payload packet_type flags payload) (\<lambda>p. Inr (Some p))))"

subsection \<open>Encoding\<close>

definition u16_bytes :: "16 word \<Rightarrow> bytes" where
  "u16_bytes v = [ucast (drop_bit 8 v), ucast v]"

definition push_mqtt_bytes :: "bytes \<Rightarrow> bytes \<Rightarrow> bytes" where
  "push_mqtt_bytes buf v =
     (let len = (if length v \<le> 65535 then of_nat (length v) else 65535) :: 16 word
      in buf @ u16_bytes len @ take (unat len) v)"

definition push_mqtt_string :: "bytes \<Rightarrow> string \<Rightarrow> bytes" where
  "push_mqtt_string buf s = push_mqtt_bytes buf (as_bytes s)"

function remaining_length_bytes :: "nat \<Rightarrow> bytes \<Rightarrow> bytes" where
  "remaining_length_bytes len out =
     (if 0 < len then
        (let byte = of_nat (len mod 128);
             len = len div 128;
             byte = (if 0 < len then byte OR 0x80 else byte)
         in remaining_length_bytes len (out @ [byte]))
      else out)"
  by pat_completeness auto
termination
  by (relation "measure fst") auto

declare remaining_length_bytes.simps [simp del]

definition encode_remaining_length :: "nat \<Rightarrow> bytes \<Rightarrow> bytes" where
  "encode_remaining_length len out =
     (if len = 0 then out @ [0] else remaining_length_bytes len out)"

definition wrap :: "8 word \<Rightarrow> 8 word \<Rightarrow> bytes \<Rightarrow> bytes" where
  "wrap packet_type flags payload =
     encode_remaining_length (length payload) [push_bit 4 packet_type OR (flags AND 0x0F)]
     @ payload"

definition encode_connect :: "connect \<Rightarrow> bytes" where
  "encode_connect c =
     (let body = (if protocol_level c = 3 then push_mqtt_string [] ''MQIsdp'' @ [3]
                  else push_mqtt_string [] ''MQTT'' @ [4]);
          flags = 0 :: 8 word;
          flags = (if clean_session c then flags OR 0x02 else flags);
          flags = (if username c \<noteq> None then flags OR 0x80 else flags);
          flags = (if password c \<noteq> None then flags OR 0x40 else flags);
          body = body @ [flags];
          body = body @ u16_bytes (keep_alive c);
          body = push_mqtt_string body (client_id c);
          body = (case username c of None \<Rightarrow> body | Some u \<Rightarrow> push_mqtt_string body u);
          body = (case password c of None \<Rightarrow> body | Some p \<Rightarrow> push_mqtt_bytes body p)
      in wrap 1 0 body)"

definition encode_publish :: "publish \<Rightarrow> bytes" where
  "encode_publish p =
     (let qos = min (pub_qos p) 2;
          flags = 0 :: 8 word;
          flags = (if pub_dup p then flags OR 0x08 else flags);
          flags = flags OR push_bit 1 qos;
          flags = (if pub_retain p then flags OR 0x01 else flags);
          body = push_mqtt_string [] (pub_topic p);
          body = (if 0 < qos
                  then body @ u16_bytes (case pub_packet_id p of None \<Rightarrow> 1 | Some i \<Rightarrow> i)
                  else body);
          body = body @ pub_payload p
      in wrap 3 flags body)"

definition push_filter :: "subscribe_filter \<Rightarrow> bytes \<Rightarrow> bytes" where
  "push_filter f body = push_mqtt_string body (flt_topic f) @ [min (flt_qos f) 2]"

definition encode_subscribe :: "subscribe \<Rightarrow> bytes" where
  "encode_subscribe s = wrap 8 0x02 (fold push_filter (sub_filters s) (u16_bytes (sub_packet_id s)))"

definition encode_unsubscribe :: "unsubscribe \<Rightarrow> bytes" where
  "encode_unsubscribe u =
     wrap 10 0x02 (fold (\<lambda>f body. push_mqtt_string body f) (unsub_filters u)
                        (u16_bytes (unsub_packet_id u)))"

fun encode :: "packet \<Rightarrow> bytes" where
  "encode (Connect c) = encode_connect c"
| "encode (ConnAck sp c) = wrap 2 0 [if sp then 1 else 0, c]"
| "encode (Publish p) = encode_publish p"
| "encode (PubAck i) = wrap 4 0 (u16_bytes i)"
| "encode (PubRec i) = wrap 5 0 (u16_bytes i)"
| "encode (PubRel i) = wrap 6 0x02 (u16_bytes i)"
| "encode (PubComp i) = wrap 7 0 (u16_bytes i)"
| "encode (Subscribe s) = encode_subscribe s"
| "encode (SubAck i codes) = wrap 9 0 (u16_bytes i @ codes)"
| "encode (Unsubscribe u) = encode_unsubscribe u"
| "encode (UnsubAck i) = wrap 11 0 (u16_bytes i)"
| "encode PingReq = wrap 12 0 []"
| "encode PingResp = wrap 13 0 []"
| "encode Disconnect = wrap 14 0 []"

subsection \<open>Bytes and words\<close>

lemma low_bits_byte:
  fixes w :: "8 word"
  assumes "unat w < 128"
  shows "w AND 0x7F = w" "w AND 0x80 = 0" "(w OR 0x80) AND 0x7F = w" "(w OR 0x80) AND 0x80 \<noteq> 0"
proof -
  have "w AND mask 7 = w"
    using assms by (simp add: take_bit_eq_mask [symmetric] take_bit_word_eq_self unat_word_ariths
        word_unat_eq_iff unsigned_take_bit_eq take_bit_eq_mod)
  moreover have "mask 7 = (0x7F :: 8 word)" by (simp add: mask_eq_exp_minus_1)
  ultimately show low: "w AND 0x7F = w" by simp
  have "w AND 0x80 = (w AND 0x7F) AND 0x80" by (simp only: low)
  then show high: "w AND 0x80 = 0" by (simp add: and.assoc)
  show "(w OR 0x80) AND 0x7F = w" "(w OR 0x80) AND 0x80 \<noteq> 0"
    by (simp_all add: bit.conj_disj_distrib2 low high)
qed

lemma unat_of_nat_byte: "n < 256 \<Longrightarrow> unat (of_nat n :: 8 word) = n"
  by (simp add: unat_of_nat)

lemma u16_from_be_u16_bytes:
  "u16_from_be (ucast (drop_bit 8 v)) (ucast v) = v"
  unfolding u16_from_be_def
  by (rule bit_word_eqI) (auto simp: bit_simps)

lemma length_u16_bytes [simp]: "length (u16_bytes v) = 2"
  by (simp add: u16_bytes_def)

lemma bits_below:
  fixes w :: "8 word"
  assumes "unat w < 2 ^ k" "bit w n"
  shows "n < k"
proof -
  have "take_bit k w = w"
    using assms(1) by (simp add: word_unat_eq_iff unsigned_take_bit_eq take_bit_nat_eq_self)
  with assms(2) show ?thesis by (metis bit_take_bit_iff)
qed

lemma header_byte:
  fixes t f :: "8 word"
  assumes "unat t < 16" "unat f < 16"
  shows "drop_bit 4 (push_bit 4 t OR (f AND 0x0F)) = t" "(push_bit 4 t OR (f AND 0x0F)) AND 0x0F = f"
proof -
  note t = bits_below [of t 4] and f = bits_below [of f 4]
  have m: "0x0F = (mask 4 :: 8 word)" by (simp add: mask_eq_exp_minus_1)
  show "drop_bit 4 (push_bit 4 t OR (f AND 0x0F)) = t"
    unfolding m by (rule bit_word_eqI) (use t assms in \<open>auto simp: bit_simps\<close>)
  show "(push_bit 4 t OR (f AND 0x0F)) AND 0x0F = f"
    unfolding m by (rule bit_word_eqI) (use f assms in \<open>auto simp: bit_simps\<close>)
qed

subsection \<open>The remaining length\<close>

abbreviation rl_bytes :: "nat \<Rightarrow> bytes" where
  "rl_bytes n \<equiv> encode_remaining_length n []"

lemma remaining_length_bytes_append:
  "remaining_length_bytes n out = out @ remaining_length_bytes n []"
proof (induction n arbitrary: out rule: less_induct)
  case (less n)
  show ?case
  proof (cases "0 < n")
    case True
    then have "n div 128 < n" by simp
    note ih = less.IH [OF this]
    show ?thesis
      using True ih [of "out @ [_]"] ih [of "[_]"]
      by (simp add: remaining_length_bytes.simps [of n] Let_def)
  qed (simp add: remaining_length_bytes.simps)
qed

lemma encode_remaining_length_append: "encode_remaining_length n out = out @ rl_bytes n"
  using remaining_length_bytes_append [of n out] by (simp add: encode_remaining_length_def)

lemma rl_bytes_less: "n < 128 \<Longrightarrow> rl_bytes n = [of_nat n]"
  by (auto simp: encode_remaining_length_def remaining_length_bytes.simps Let_def)

lemma rl_bytes_ge:
  assumes "128 \<le> n"
  shows "rl_bytes n = (of_nat (n mod 128) OR 0x80) # rl_bytes (n div 128)"
proof -
  have "0 < n div 128" using assms by (simp add: div_greater_zero_iff)
  with assms remaining_length_bytes_append [of "n div 128" "[_]"] show ?thesis
    by (simp add: encode_remaining_length_def remaining_length_bytes.simps [of n] Let_def)
qed

lemma length_rl_bytes: "0 < k \<Longrightarrow> n < 128 ^ k \<Longrightarrow> length (rl_bytes n) \<le> k"
proof (induction k arbitrary: n)
  case (Suc k)
  show ?case
  proof (cases "n < 128")
    case False
    with Suc.prems have "0 < k" "n div 128 < 128 ^ k"
      by (cases k, auto simp: less_mult_imp_div_less mult.commute)
    with Suc.IH False show ?thesis by (simp add: rl_bytes_ge)
  qed (simp add: rl_bytes_less)
qed simp

lemma length_rl_bytes_ge: "128 ^ k \<le> n \<Longrightarrow> k < length (rl_bytes n)"
proof (induction k arbitrary: n)
  case 0
  then show ?case by (cases "n < 128") (simp_all add: rl_bytes_less rl_bytes_ge)
next
  case (Suc k)
  have "128 \<le> 128 * (128 :: nat) ^ k" by simp
  also have "\<dots> \<le> n" using Suc.prems by simp
  finally have "128 \<le> n" .
  moreover have "128 ^ k \<le> n div 128"
    using Suc.prems by (simp add: less_eq_div_iff_mult_less_eq mult.commute)
  ultimately show ?case using Suc.IH by (simp add: rl_bytes_ge)
qed

lemma remaining_length_loop_rl_bytes:
  "i + length (rl_bytes n) \<le> 4 \<Longrightarrow>
   remaining_length_loop (rl_bytes n @ rest) i v m
     = Inr (Some (v + n * m, i + length (rl_bytes n) + 1))"
proof (induction n arbitrary: i v m rule: less_induct)
  case (less n)
  show ?case
  proof (cases "n < 128")
    case True
    then have "unat (of_nat n :: 8 word) = n" by (simp add: unat_of_nat_byte)
    with True less.prems show ?thesis
      by (simp add: rl_bytes_less low_bits_byte)
  next
    case False
    let ?d = "of_nat (n mod 128) :: 8 word"
    have d: "unat ?d = n mod 128" "unat ?d < 128"
      using mod_less_divisor [of 128 n] by (simp_all add: unat_of_nat_byte)
    have "n * m = n mod 128 * m + n div 128 * (m * 128)"
      using div_mult_mod_eq [of n 128]
      by (metis add.commute distrib_right mult.assoc mult.commute)
    moreover have "n div 128 < n" using False by simp
    ultimately show ?thesis
      using False less.prems less.IH [of "n div 128" "i + 1" "v + n mod 128 * m" "m * 128"] d
      by (simp add: rl_bytes_ge low_bits_byte)
  qed
qed

lemma decode_remaining_length_rl_bytes:
  "n < 128 ^ 4 \<Longrightarrow>
   decode_remaining_length (rl_bytes n @ rest) = Inr (Some (n, length (rl_bytes n) + 1))"
  using length_rl_bytes [of 4 n] remaining_length_loop_rl_bytes [of 0 n rest 0 1]
  by (simp add: decode_remaining_length_def)

subsection \<open>Reading back what was written\<close>

lemma drop_append_length: "drop off data = xs @ rest \<Longrightarrow> drop (off + length xs) data = rest"
  by (metis add.commute append_eq_conv_conj drop_drop)

lemma drop_le_length: "drop off data = xs @ rest \<Longrightarrow> xs \<noteq> [] \<Longrightarrow> off + length xs \<le> length data"
  by (metis append_is_Nil_conv diff_is_0_eq drop_all length_append length_drop le_add1
      le_add_diff_inverse nat_le_linear add_le_cancel_left)

lemma nth_drop_append: "drop off data = xs @ rest \<Longrightarrow> i < length xs \<Longrightarrow> data ! (off + i) = xs ! i"
  by (metis drop_le_length add_leD1 length_0_conv less_nat_zero_code nth_append nth_drop)

lemma read_u8_at:
  assumes "drop off data = b # rest"
  shows "read_u8 data off = Inr (b, off + 1)" "drop (off + 1) data = rest"
  using assms drop_le_length [of off data "[b]" rest] nth_drop_append [of off data "[b]" rest 0]
    drop_append_length [of off data "[b]" rest]
  by (simp_all add: read_u8_def)

lemma read_u16_at:
  assumes "drop off data = u16_bytes v @ rest"
  shows "read_u16 data off = Inr (v, off + 2)" "drop (off + 2) data = rest"
proof -
  have "u16_bytes v \<noteq> []" by (simp add: u16_bytes_def)
  from drop_le_length [OF assms this] nth_drop_append [OF assms, of 0] nth_drop_append [OF assms, of 1]
  show "read_u16 data off = Inr (v, off + 2)"
    by (simp add: read_u16_def u16_bytes_def u16_from_be_u16_bytes)
  show "drop (off + 2) data = rest"
    using drop_append_length [OF assms] by simp
qed

abbreviation mqtt_bytes :: "bytes \<Rightarrow> bytes" where
  "mqtt_bytes v \<equiv> push_mqtt_bytes [] v"

lemma push_mqtt_bytes_append: "push_mqtt_bytes buf v = buf @ mqtt_bytes v"
  by (simp add: push_mqtt_bytes_def Let_def)

lemma mqtt_bytes_short:
  "length v \<le> 65535 \<Longrightarrow> mqtt_bytes v = u16_bytes (of_nat (length v)) @ v"
  by (simp add: push_mqtt_bytes_def unat_of_nat)

lemma read_mqtt_bytes_at:
  assumes v: "length v \<le> 65535" and d: "drop off data = mqtt_bytes v @ rest"
  shows "read_mqtt_bytes data off = Inr (v, off + 2 + length v)"
    "drop (off + 2 + length v) data = rest"
proof -
  have len: "unat (of_nat (length v) :: 16 word) = length v" using v by (simp add: unat_of_nat)
  have "drop off data = u16_bytes (of_nat (length v)) @ v @ rest"
    using d v by (simp add: mqtt_bytes_short)
  note u = read_u16_at [OF this]
  show "drop (off + 2 + length v) data = rest"
    using drop_append_length [OF u(2)] by simp
  have "off + 2 + length v \<le> length data"
    using drop_le_length [OF d] v by (simp add: mqtt_bytes_short u16_bytes_def)
  then show "read_mqtt_bytes data off = Inr (v, off + 2 + length v)"
    using u by (simp add: read_mqtt_bytes_def len)
qed

definition short_str :: "string \<Rightarrow> bool" where
  "short_str s \<longleftrightarrow> is_str s \<and> length s \<le> 65535"

lemma read_mqtt_string_at:
  assumes "short_str s" and d: "drop off data = mqtt_bytes (as_bytes s) @ rest"
  shows "read_mqtt_string data off = Inr (s, off + 2 + length s)"
    "drop (off + 2 + length s) data = rest"
proof -
  have l: "length (as_bytes s) \<le> 65535" using assms(1) by (simp add: short_str_def)
  from read_mqtt_bytes_at [OF l d] assms(1)
  show "read_mqtt_string data off = Inr (s, off + 2 + length s)"
    "drop (off + 2 + length s) data = rest"
    by (simp_all add: read_mqtt_string_def short_str_def)
qed

lemma decode_one_wrap:
  assumes "length body \<le> MAX_PACKET_SIZE" "unat t < 16" "unat f < 16"
  shows "decode_one (wrap t f body @ rest)
    = (rest, bindE (decode_payload t f body) (\<lambda>p. Inr (Some p)))"
proof -
  let ?h = "push_bit 4 t OR (f AND 0x0F)" and ?rl = "rl_bytes (length body)"
  have w: "wrap t f body @ rest = ?h # ?rl @ body @ rest"
    by (simp add: wrap_def encode_remaining_length_append [of _ "[_]"])
  have "length body < 128 ^ 4" using assms(1) by (simp add: MAX_PACKET_SIZE_def)
  note decode_remaining_length_rl_bytes [OF this]
  then show ?thesis
    using assms(1) header_byte [OF assms(2,3)] unfolding w
    by (simp add: decode_one_def Let_def)
qed

lemma require_packet_id_u16_bytes [simp]: "require_packet_id (u16_bytes i) = Inr i"
  by (simp add: require_packet_id_def u16_bytes_def u16_from_be_u16_bytes)

text \<open>What the encoder keeps of a packet: the precondition of the round trip.\<close>

definition wf_connect :: "connect \<Rightarrow> bool" where
  "wf_connect c \<longleftrightarrow>
     (protocol_level c = 3 \<or> protocol_level c = 4) \<and> short_str (client_id c) \<and>
     (case username c of None \<Rightarrow> True | Some u \<Rightarrow> short_str u) \<and>
     (case password c of None \<Rightarrow> True | Some p \<Rightarrow> length p \<le> 65535)"

definition wf_publish :: "publish \<Rightarrow> bool" where
  "wf_publish p \<longleftrightarrow>
     pub_qos p \<le> 2 \<and> short_str (pub_topic p) \<and> (pub_packet_id p = None \<longleftrightarrow> pub_qos p = 0)"

definition wf_filter :: "subscribe_filter \<Rightarrow> bool" where
  "wf_filter f \<longleftrightarrow> short_str (flt_topic f) \<and> flt_qos f \<le> 2"

fun wf_packet :: "packet \<Rightarrow> bool" where
  "wf_packet (Connect c) = wf_connect c"
| "wf_packet (Publish p) = wf_publish p"
| "wf_packet (Subscribe s) = (sub_filters s \<noteq> [] \<and> list_all wf_filter (sub_filters s))"
| "wf_packet (Unsubscribe u) = (unsub_filters u \<noteq> [] \<and> list_all short_str (unsub_filters u))"
| "wf_packet _ = True"

definition connect_flags :: "connect \<Rightarrow> 8 word" where
  "connect_flags c =
     (if clean_session c then 0x02 else 0) OR (if username c = None then 0 else 0x80)
     OR (if password c = None then 0 else 0x40)"

definition connect_body :: "connect \<Rightarrow> bytes" where
  "connect_body c =
     (if protocol_level c = 3 then mqtt_bytes (as_bytes ''MQIsdp'') @ [3]
      else mqtt_bytes (as_bytes ''MQTT'') @ [4])
     @ [connect_flags c] @ u16_bytes (keep_alive c) @ mqtt_bytes (as_bytes (client_id c))
     @ (case username c of None \<Rightarrow> [] | Some u \<Rightarrow> mqtt_bytes (as_bytes u))
     @ (case password c of None \<Rightarrow> [] | Some p \<Rightarrow> mqtt_bytes p)"

lemma encode_connect_body: "encode_connect c = wrap 1 0 (connect_body c)"
  by (simp add: encode_connect_def connect_body_def connect_flags_def push_mqtt_string_def
      push_mqtt_bytes_append [of "_ @ _"] push_mqtt_bytes_append [of "_ # _"] Let_def
      split: option.split)

lemma connect_flags_bits:
  "connect_flags c AND 0x01 = 0" "connect_flags c AND 0x04 = 0"
  "connect_flags c AND 0x02 \<noteq> 0 \<longleftrightarrow> clean_session c"
  "connect_flags c AND 0x80 \<noteq> 0 \<longleftrightarrow> username c \<noteq> None"
  "connect_flags c AND 0x40 \<noteq> 0 \<longleftrightarrow> password c \<noteq> None"
  by (simp_all add: connect_flags_def)

lemma short_str_protocol: "short_str ''MQTT''" "short_str ''MQIsdp''"
  by (simp_all add: short_str_def is_str_ascii)

lemma decode_connect_body:
  assumes wf: "wf_connect c"
  shows "decode_connect (connect_body c) = Inr c"
proof -
  let ?d = "connect_body c"
  define proto where "proto = (if protocol_level c = 3 then ''MQIsdp'' else ''MQTT'')"
  have level: "protocol_level c = (if protocol_level c = 3 then 3 else 4)"
    using wf by (auto simp: wf_connect_def)
  have sp: "short_str proto" using short_str_protocol by (simp add: proto_def)
  have sc: "short_str (client_id c)" using wf by (simp add: wf_connect_def)
  have "drop 0 ?d = mqtt_bytes (as_bytes proto) @ protocol_level c # connect_flags c
    # u16_bytes (keep_alive c) @ mqtt_bytes (as_bytes (client_id c))
    @ (case username c of None \<Rightarrow> [] | Some u \<Rightarrow> mqtt_bytes (as_bytes u))
    @ (case password c of None \<Rightarrow> [] | Some p \<Rightarrow> mqtt_bytes p)"
    using level by (simp add: connect_body_def proto_def split: if_splits)
  note r1 = read_mqtt_string_at [OF sp this]
  note r2 = read_u8_at [OF r1(2)]
  note r3 = read_u8_at [OF r2(2)]
  note r4 = read_u16_at [OF r3(2)]
  note r5 = read_mqtt_string_at [OF sc r4(2)]
  have user: "\<exists>off'. (if username c \<noteq> None
      then bindE (read_mqtt_string ?d off) (\<lambda>(u, offset). Inr (Some u, offset))
      else Inr (None, off)) = Inr (username c, off') \<and> drop off' ?d = rest"
    if "drop off ?d = (case username c of None \<Rightarrow> [] | Some u \<Rightarrow> mqtt_bytes (as_bytes u)) @ rest"
    for off rest
    using that wf read_mqtt_string_at [of _ off ?d rest]
    by (auto simp: wf_connect_def split: option.splits)
  from user [OF r5(2)] obtain off6 where
    r6: "(if username c \<noteq> None
      then bindE (read_mqtt_string ?d (0 + 2 + length proto + 1 + 1 + 2 + 2 + length (client_id c)))
             (\<lambda>(u, offset). Inr (Some u, offset))
      else Inr (None, 0 + 2 + length proto + 1 + 1 + 2 + 2 + length (client_id c)))
      = Inr (username c, off6)"
    and d6: "drop off6 ?d = (case password c of None \<Rightarrow> [] | Some p \<Rightarrow> mqtt_bytes p)" by blast
  have r7: "(if password c \<noteq> None
      then bindE (read_mqtt_bytes ?d off6) (\<lambda>(p, offset). Inr (Some p, offset))
      else Inr (None, off6)) = Inr (password c, off6 + (case password c of None \<Rightarrow> 0 | Some p \<Rightarrow> 2 + length p))"
    using d6 wf read_mqtt_bytes_at [of _ off6 ?d "[]"]
    by (auto simp: wf_connect_def split: option.splits)
  have pl: "proto = ''MQTT'' \<and> protocol_level c = 4 \<or> proto = ''MQIsdp'' \<and> protocol_level c = 3"
    using level by (simp add: proto_def split: if_splits)
  show ?thesis
    by (simp only: decode_connect_def r1 r2 r3 r4 r5 r6 r7 bindE_simps prod.case
        connect_flags_bits pl not_True_eq_False if_False simp_thms)
      simp
qed

definition publish_flags :: "publish \<Rightarrow> 8 word" where
  "publish_flags p =
     (if pub_dup p then 0x08 else 0) OR push_bit 1 (pub_qos p) OR (if pub_retain p then 0x01 else 0)"

definition publish_body :: "publish \<Rightarrow> bytes" where
  "publish_body p =
     mqtt_bytes (as_bytes (pub_topic p))
     @ (case pub_packet_id p of None \<Rightarrow> [] | Some i \<Rightarrow> u16_bytes i) @ pub_payload p"

lemma qos_cases: "(q :: 8 word) \<le> 2 \<Longrightarrow> q = 0 \<or> q = 1 \<or> q = 2"
proof -
  assume "q \<le> 2"
  then have "unat q \<le> 2" by (simp add: word_le_nat_alt)
  then have "unat q = 0 \<or> unat q = 1 \<or> unat q = 2" by arith
  then show ?thesis by (simp add: word_unat_eq_iff)
qed

lemma encode_publish_body:
  "wf_publish p \<Longrightarrow> encode_publish p = wrap 3 (publish_flags p) (publish_body p)"
  using qos_cases [of "pub_qos p"]
  by (auto simp: encode_publish_def publish_flags_def publish_body_def wf_publish_def
      push_mqtt_string_def Let_def split: option.split)

lemma publish_flags_bits:
  assumes "pub_qos p \<le> 2"
  shows "unat (publish_flags p) < 16" "publish_flags p AND 0x08 \<noteq> 0 \<longleftrightarrow> pub_dup p"
    "publish_flags p AND 0x01 \<noteq> 0 \<longleftrightarrow> pub_retain p"
    "drop_bit 1 (publish_flags p) AND 0x03 = pub_qos p"
  using qos_cases [OF assms] by (auto simp: publish_flags_def)

lemma decode_publish_body:
  assumes wf: "wf_publish p"
  shows "decode_publish (publish_flags p) (publish_body p) = Inr p"
proof -
  have q: "pub_qos p \<le> 2" and st: "short_str (pub_topic p)"
    and i: "pub_packet_id p = None \<longleftrightarrow> pub_qos p = 0"
    using wf by (auto simp: wf_publish_def)
  note fl = publish_flags_bits [OF q]
  have "drop 0 (publish_body p) = mqtt_bytes (as_bytes (pub_topic p))
    @ (case pub_packet_id p of None \<Rightarrow> [] | Some i \<Rightarrow> u16_bytes i) @ pub_payload p"
    by (simp add: publish_body_def)
  note r1 = read_mqtt_string_at [OF st this]
  show ?thesis
  proof (cases "pub_packet_id p")
    case None
    with r1 q i fl show ?thesis by (auto simp: decode_publish_def)
  next
    case (Some pid)
    with r1(2) have "drop (0 + 2 + length (pub_topic p)) (publish_body p) = u16_bytes pid @ pub_payload p"
      by simp
    note r2 = read_u16_at [OF this]
    have "0 < pub_qos p" using Some i by (simp add: word_neq_0_conv)
    moreover have "\<not> 2 < pub_qos p" using q by simp
    ultimately show ?thesis using Some r1 r2 fl by (simp add: decode_publish_def Let_def)
  qed
qed

definition filter_bytes :: "subscribe_filter \<Rightarrow> bytes" where
  "filter_bytes f = mqtt_bytes (as_bytes (flt_topic f)) @ [flt_qos f]"

lemma fold_push_filter:
  "list_all wf_filter fs \<Longrightarrow> fold push_filter fs body = body @ concat (map filter_bytes fs)"
proof (induction fs arbitrary: body)
  case (Cons f fs)
  then have "push_filter f body = body @ filter_bytes f"
    by (simp add: push_filter_def filter_bytes_def wf_filter_def push_mqtt_string_def
        push_mqtt_bytes_append [of body] min_absorb1)
  with Cons show ?case by simp
qed simp

lemma fold_push_string:
  "fold (\<lambda>f body. push_mqtt_string body f) fs body = body @ concat (map (\<lambda>f. mqtt_bytes (as_bytes f)) fs)"
proof (induction fs arbitrary: body)
  case (Cons f fs)
  have "push_mqtt_string body f = body @ mqtt_bytes (as_bytes f)"
    by (simp add: push_mqtt_string_def push_mqtt_bytes_append [of body])
  with Cons show ?case by simp
qed simp

lemma drop_eq_Nil_not_less: "drop off data = [] \<Longrightarrow> \<not> off < length data"
  by simp

lemma mqtt_bytes_not_Nil [simp]: "mqtt_bytes v \<noteq> []"
  by (simp add: push_mqtt_bytes_def u16_bytes_def Let_def)

lemma drop_not_Nil_less: "drop off data = mqtt_bytes v @ rest \<Longrightarrow> off < length data"
  using drop_le_length [of off data "mqtt_bytes v" rest]
  by (simp add: push_mqtt_bytes_def u16_bytes_def Let_def)

lemma subscribe_loop_filters:
  "list_all wf_filter fs \<Longrightarrow> drop off data = concat (map filter_bytes fs) \<Longrightarrow>
   subscribe_loop data off acc = Inr (acc @ fs)"
proof (induction fs arbitrary: off acc)
  case Nil
  then show ?case by (simp add: subscribe_loop.simps)
next
  case (Cons f fs)
  then have d: "drop off data = mqtt_bytes (as_bytes (flt_topic f)) @ flt_qos f # concat (map filter_bytes fs)"
    and wf: "short_str (flt_topic f)" "flt_qos f \<le> 2"
    by (simp_all add: filter_bytes_def [of f] wf_filter_def [of f])
  note r1 = read_mqtt_string_at [OF wf(1) d]
  note r2 = read_u8_at [OF r1(2)]
  from Cons r1 r2 wf drop_not_Nil_less [OF d] show ?case
    by (simp add: subscribe_loop.simps [of data off] not_less)
qed

lemma unsubscribe_loop_filters:
  "list_all short_str fs \<Longrightarrow> drop off data = concat (map (\<lambda>f. mqtt_bytes (as_bytes f)) fs) \<Longrightarrow>
   unsubscribe_loop data off acc = Inr (acc @ fs)"
proof (induction fs arbitrary: off acc)
  case Nil
  then show ?case by (simp add: unsubscribe_loop.simps)
next
  case (Cons f fs)
  then have d: "drop off data = mqtt_bytes (as_bytes f) @ concat (map (\<lambda>f. mqtt_bytes (as_bytes f)) fs)"
    and wf: "short_str f"
    by simp_all
  note r1 = read_mqtt_string_at [OF wf d]
  from Cons r1 drop_not_Nil_less [OF d] show ?case
    by (simp add: unsubscribe_loop.simps [of data off])
qed

lemma decode_subscribe_body:
  assumes "sub_filters s \<noteq> []" "list_all wf_filter (sub_filters s)"
  shows "decode_subscribe (u16_bytes (sub_packet_id s) @ concat (map filter_bytes (sub_filters s))) = Inr s"
proof -
  let ?d = "u16_bytes (sub_packet_id s) @ concat (map filter_bytes (sub_filters s))"
  have "drop 0 ?d = ?d" by simp
  note r1 = read_u16_at [OF this]
  from subscribe_loop_filters [OF assms(2) r1(2)] r1 assms(1) show ?thesis
    by (simp add: decode_subscribe_def)
qed

lemma decode_unsubscribe_body:
  assumes "unsub_filters u \<noteq> []" "list_all short_str (unsub_filters u)"
  shows "decode_unsubscribe (u16_bytes (unsub_packet_id u)
    @ concat (map (\<lambda>f. mqtt_bytes (as_bytes f)) (unsub_filters u))) = Inr u"
proof -
  let ?d = "u16_bytes (unsub_packet_id u) @ concat (map (\<lambda>f. mqtt_bytes (as_bytes f)) (unsub_filters u))"
  have "drop 0 ?d = ?d" by simp
  note r1 = read_u16_at [OF this]
  from unsubscribe_loop_filters [OF assms(2) r1(2)] r1 assms(1) show ?thesis
    by (simp add: decode_unsubscribe_def)
qed

lemma length_wrap: "length (wrap t f body) = 1 + length (rl_bytes (length body)) + length body"
  by (simp add: wrap_def encode_remaining_length_append [of _ "[_]"])

lemma length_wrap_le: "length (wrap t f body) \<le> MAX_PACKET_SIZE + 4 \<longleftrightarrow> length body \<le> MAX_PACKET_SIZE"
proof (cases "length body \<le> MAX_PACKET_SIZE")
  case True
  then have "length (rl_bytes (length body)) \<le> 3"
    by (intro length_rl_bytes) (simp_all add: MAX_PACKET_SIZE_def)
  with True show ?thesis by (simp add: length_wrap)
next
  case False
  then have "2 < length (rl_bytes (length body))"
    by (intro length_rl_bytes_ge) (simp add: MAX_PACKET_SIZE_def)
  with False show ?thesis by (simp add: length_wrap)
qed

lemma decode_one_encode:
  assumes wf: "wf_packet p" and len: "length (encode p) \<le> MAX_PACKET_SIZE + 4"
  shows "decode_one (encode p @ rest) = (rest, Inr (Some p))"
proof -
  have wrapped: "decode_one (encode p @ rest) = (rest, Inr (Some p))"
    if "encode p = wrap t f body" "unat t < 16" "unat f < 16" "decode_payload t f body = Inr p" for t f body
    using that len decode_one_wrap [of body t f rest] by (simp add: length_wrap_le)
  show ?thesis
  proof (cases p)
    case (Connect c)
    with wf show ?thesis
      by (intro wrapped [of 1 0 "connect_body c"])
        (simp_all add: encode_connect_body decode_payload_def decode_connect_body)
  next
    case (Publish q)
    with wf have "wf_publish q" by simp
    with Publish show ?thesis
      by (intro wrapped [of 3 "publish_flags q" "publish_body q"])
        (simp_all add: encode_publish_body publish_flags_bits decode_payload_def decode_publish_body
          wf_publish_def)
  next
    case (Subscribe s)
    with wf show ?thesis
      by (intro wrapped [of 8 2 "u16_bytes (sub_packet_id s) @ concat (map filter_bytes (sub_filters s))"])
        (simp_all add: encode_subscribe_def fold_push_filter decode_payload_def decode_subscribe_body)
  next
    case (Unsubscribe u)
    with wf show ?thesis
      by (intro wrapped [of 10 2 "u16_bytes (unsub_packet_id u)
            @ concat (map (\<lambda>f. mqtt_bytes (as_bytes f)) (unsub_filters u))"])
        (simp_all add: encode_unsubscribe_def fold_push_string decode_payload_def decode_unsubscribe_body)
  next
    case (ConnAck sp c)
    then show ?thesis
      by (intro wrapped [of 2 0 "[if sp then 1 else 0, c]"]) (simp_all add: decode_payload_def)
  next
    case (SubAck i codes)
    then show ?thesis
      by (intro wrapped [of 9 0 "u16_bytes i @ codes"])
        (simp_all add: decode_payload_def u16_bytes_def u16_from_be_u16_bytes)
  next
    case (PubAck i) then show ?thesis by (intro wrapped [of 4 0 "u16_bytes i"]) (simp_all add: decode_payload_def)
  next
    case (PubRec i) then show ?thesis by (intro wrapped [of 5 0 "u16_bytes i"]) (simp_all add: decode_payload_def)
  next
    case (PubRel i) then show ?thesis by (intro wrapped [of 6 2 "u16_bytes i"]) (simp_all add: decode_payload_def)
  next
    case (PubComp i) then show ?thesis by (intro wrapped [of 7 0 "u16_bytes i"]) (simp_all add: decode_payload_def)
  next
    case (UnsubAck i) then show ?thesis by (intro wrapped [of 11 0 "u16_bytes i"]) (simp_all add: decode_payload_def)
  next
    case PingReq then show ?thesis by (intro wrapped [of 12 0 "[]"]) (simp_all add: decode_payload_def)
  next
    case PingResp then show ?thesis by (intro wrapped [of 13 0 "[]"]) (simp_all add: decode_payload_def)
  next
    case Disconnect then show ?thesis by (intro wrapped [of 14 0 "[]"]) (simp_all add: decode_payload_def)
  qed
qed

subsection \<open>What the decoder accepts\<close>

lemma unat_16_le: "unat (w :: 16 word) \<le> 65535"
  using unsigned_less [of w, where 'a = nat] by simp

lemma read_mqtt_bytes_short: "read_mqtt_bytes data off = Inr (v, off') \<Longrightarrow> length v \<le> 65535"
  by (auto simp: read_mqtt_bytes_def bindE_eq_Inr min_def
      intro: unat_16_le order_trans [OF _ unat_16_le] split: if_splits)

lemma read_mqtt_string_short: "read_mqtt_string data off = Inr (s, off') \<Longrightarrow> short_str s"
  by (auto simp: read_mqtt_string_def bindE_eq_Inr short_str_def from_utf8_Some
      dest!: read_mqtt_bytes_short split: option.splits)

lemma decode_connect_wf: "decode_connect payload = Inr c \<Longrightarrow> wf_connect c"
  unfolding decode_connect_def
  by (auto simp: bindE_eq_Inr wf_connect_def dest!: read_mqtt_string_short read_mqtt_bytes_short
      split: if_splits)

lemma decode_publish_wf: "decode_publish flags payload = Inr p \<Longrightarrow> wf_publish p"
  unfolding decode_publish_def Let_def
  by (auto simp: bindE_eq_Inr wf_publish_def not_less word_neq_0_conv
      dest!: read_mqtt_string_short split: if_splits)

lemma subscribe_loop_wf:
  "subscribe_loop payload off acc = Inr fs \<Longrightarrow> list_all wf_filter acc \<Longrightarrow> list_all wf_filter fs"
proof (induction payload off acc rule: subscribe_loop.induct)
  case (1 payload off acc)
  from "1.prems" show ?case
    by (subst (asm) subscribe_loop.simps)
      (auto simp: bindE_eq_Inr wf_filter_def [of "\<lparr>flt_topic = _, flt_qos = _\<rparr>"] not_less split: if_splits
        dest: read_mqtt_string_short intro!: "1.IH" [OF _ _ refl _ refl])
qed

lemma unsubscribe_loop_wf:
  "unsubscribe_loop payload off acc = Inr fs \<Longrightarrow> list_all short_str acc \<Longrightarrow> list_all short_str fs"
proof (induction payload off acc rule: unsubscribe_loop.induct)
  case (1 payload off acc)
  from "1.prems" show ?case
    by (subst (asm) unsubscribe_loop.simps)
      (auto simp: bindE_eq_Inr split: if_splits dest: read_mqtt_string_short
        intro!: "1.IH" [OF _ _ refl])
qed

lemma decode_payload_wf: "decode_payload t f payload = Inr p \<Longrightarrow> wf_packet p"
  unfolding decode_payload_def
  by (auto simp: bindE_eq_Inr decode_subscribe_def decode_unsubscribe_def
      intro: decode_connect_wf decode_publish_wf
      dest: subscribe_loop_wf unsubscribe_loop_wf split: if_splits)

lemma decode_one_wf: "decode_one buf = (buf', Inr (Some p)) \<Longrightarrow> wf_packet p"
  by (auto simp: decode_one_def Let_def bindE_eq_Inr dest: decode_payload_wf
      split: if_splits sum.splits option.splits)

subsection \<open>Incomplete input\<close>

lemma remaining_length_loop_append:
  "remaining_length_loop b i v m \<noteq> Inr None \<Longrightarrow>
   remaining_length_loop (b @ c) i v m = remaining_length_loop b i v m"
  by (induction b i v m rule: remaining_length_loop.induct) (auto simp: Let_def)

lemma remaining_length_loop_header:
  "remaining_length_loop b i v m = Inr (Some (n, h)) \<Longrightarrow> i + 2 \<le> h \<and> h \<le> i + length b + 1 \<and> h \<le> 5"
  by (induction b i v m rule: remaining_length_loop.induct) (auto simp: Let_def split: if_splits)

lemma remaining_length_loop_None:
  "remaining_length_loop b i v m = Inr None \<Longrightarrow> i \<le> 4 \<Longrightarrow> i + length b \<le> 4"
  by (induction b i v m rule: remaining_length_loop.induct) (auto simp: Let_def split: if_splits)

lemma decode_one_append:
  assumes "decode_one b = (b', r)" "r \<noteq> Inr None"
  shows "decode_one (b @ c) = (b' @ c, r)"
proof -
  have ne: "b \<noteq> []" using assms by (auto simp: decode_one_def)
  then have hd: "(b @ c) ! 0 = b ! 0" "drop 1 (b @ c) = drop 1 b @ c"
    by (cases b; simp)+
  show ?thesis
  proof (cases "decode_remaining_length (drop 1 b)")
    case (Inl e)
    then show ?thesis
      using assms ne remaining_length_loop_append [of "drop 1 b" 0 0 1 c]
      unfolding decode_one_def hd by (simp add: decode_remaining_length_def)
  next
    case (Inr opt)
    then obtain n h where nh: "decode_remaining_length (drop 1 b) = Inr (Some (n, h))"
      using assms ne by (cases opt) (auto simp: decode_one_def)
    then have "decode_remaining_length (drop 1 b @ c) = Inr (Some (n, h))"
      using remaining_length_loop_append [of "drop 1 b" 0 0 1 c] by (simp add: decode_remaining_length_def)
    moreover have "h \<le> length b"
      using nh remaining_length_loop_header ne by (fastforce simp: decode_remaining_length_def Suc_le_eq)
    ultimately show ?thesis
      using assms ne nh unfolding decode_one_def hd
      by (auto simp: Let_def split: if_splits)
  qed
qed

lemma decode_one_None:
  "decode_one b = (b', Inr None) \<Longrightarrow> b' = b \<and> length b \<le> MAX_PACKET_SIZE + 4"
  using remaining_length_loop_None [of "drop 1 b" 0 0 1] remaining_length_loop_header [of "drop 1 b" 0 0 1]
  by (auto simp: decode_one_def decode_remaining_length_def Let_def bindE_eq_Inr MAX_PACKET_SIZE_def
      split: if_splits sum.splits option.splits)

lemma decode_one_progress:
  assumes "decode_one b = (b', Inr (Some p))"
  shows "length b' < length b \<and> (\<exists>used. b = used @ b')"
  using assms remaining_length_loop_header [of "drop 1 b" 0 0 1]
  by (auto simp: decode_one_def decode_remaining_length_def Let_def bindE_eq_Inr
      split: if_splits sum.splits option.splits intro!: exI append_take_drop_id [symmetric])

subsection \<open>The read loops of a connection\<close>

text \<open>
  \<open>tcp_read_loop\<close> and \<open>ws_read_loop\<close> of \<open>src/src/mqtt/session.rs\<close>. The results of
  \<open>reader.read\<close> are a list of chunks: an empty chunk is the end of the stream and the end
  of the list a read error. \<open>accept sent\<close> says whether the packet channel still takes a
  packet after \<open>sent\<close> (the receiver may be gone). The result is what was sent.
\<close>

function tcp_read_loop :: "(packet list \<Rightarrow> bool) \<Rightarrow> bytes list \<Rightarrow> bytes \<Rightarrow> packet list \<Rightarrow> packet list" where
  "tcp_read_loop accept reads buf sent =
     (case decode_one buf of
        (buf', Inr (Some p)) \<Rightarrow>
          if accept sent then tcp_read_loop accept reads buf' (sent @ [p]) else sent
      | (buf', Inl e) \<Rightarrow> sent
      | (buf', Inr None) \<Rightarrow>
          if MAX_PACKET_SIZE + 5 < length buf' then sent
          else (case reads of
                  [] \<Rightarrow> sent
                | chunk # reads' \<Rightarrow>
                    if chunk = [] then sent
                    else tcp_read_loop accept reads' (buf' @ chunk) sent))"
  by pat_completeness auto
termination
  by (relation "measures [\<lambda>(a, reads, buf, s). length reads, \<lambda>(a, reads, buf, s). length buf]")
    (auto dest: sym dest!: decode_one_progress)

datatype ws_message = WsBinary bytes | WsText string | WsPing bytes | WsPong bytes | WsClose

function ws_read_loop :: "(packet list \<Rightarrow> bool) \<Rightarrow> ws_message list \<Rightarrow> bytes \<Rightarrow> packet list \<Rightarrow> packet list" where
  "ws_read_loop accept stream buf sent =
     (case decode_one buf of
        (buf', Inr (Some p)) \<Rightarrow>
          if accept sent then ws_read_loop accept stream buf' (sent @ [p]) else sent
      | (buf', Inl e) \<Rightarrow> sent
      | (buf', Inr None) \<Rightarrow>
          if MAX_PACKET_SIZE + 5 < length buf' then sent
          else (case stream of
                  [] \<Rightarrow> sent
                | WsBinary data # stream' \<Rightarrow> ws_read_loop accept stream' (buf' @ data) sent
                | WsText text # stream' \<Rightarrow> ws_read_loop accept stream' (buf' @ as_bytes text) sent
                | WsPing _ # stream' \<Rightarrow> ws_read_loop accept stream' buf' sent
                | WsPong _ # stream' \<Rightarrow> ws_read_loop accept stream' buf' sent
                | WsClose # stream' \<Rightarrow> sent))"
  by pat_completeness auto
termination
  by (relation "measures [\<lambda>(a, reads, buf, s). length reads, \<lambda>(a, reads, buf, s). length buf]")
    (auto dest: sym dest!: decode_one_progress)

text \<open>The reference: decode a complete byte stream from its front.\<close>

function decode_stream :: "(packet list \<Rightarrow> bool) \<Rightarrow> bytes \<Rightarrow> packet list \<Rightarrow> packet list" where
  "decode_stream accept buf sent =
     (case decode_one buf of
        (buf', Inr (Some p)) \<Rightarrow> if accept sent then decode_stream accept buf' (sent @ [p]) else sent
      | _ \<Rightarrow> sent)"
  by pat_completeness auto
termination
  by (relation "measure (\<lambda>(a, buf, s). length buf)")
    (auto dest: sym dest!: decode_one_progress)

declare tcp_read_loop.simps [simp del] ws_read_loop.simps [simp del] decode_stream.simps [simp del]

lemma decode_stream_step:
  "decode_one buf = (buf', Inr (Some p)) \<Longrightarrow>
   decode_stream accept buf sent = (if accept sent then decode_stream accept buf' (sent @ [p]) else sent)"
  by (simp add: decode_stream.simps [of accept buf])

lemma decode_stream_stop:
  "decode_one buf = (buf', r) \<Longrightarrow> (\<And>p. r \<noteq> Inr (Some p)) \<Longrightarrow> decode_stream accept buf sent = sent"
  by (auto simp: decode_stream.simps [of accept buf] split: sum.splits option.splits)

lemma tcp_read_loop_stream:
  "\<forall>c \<in> set reads. c \<noteq> [] \<Longrightarrow>
   tcp_read_loop accept reads buf sent = decode_stream accept (buf @ concat reads) sent"
proof (induction accept reads buf sent rule: tcp_read_loop.induct)
  case (1 accept reads buf sent)
  obtain buf' r where d: "decode_one buf = (buf', r)" by fastforce
  consider (err) e where "r = Inl e" | (none) "r = Inr None" | (some) p where "r = Inr (Some p)"
    by (metis obj_sumE option.exhaust)
  then show ?case
  proof cases
    case err
    with d have "decode_one (buf @ concat reads) = (buf' @ concat reads, Inl e)"
      by (simp add: decode_one_append)
    with d err show ?thesis by (simp add: tcp_read_loop.simps [of accept reads buf] decode_stream_stop)
  next
    case some
    with d have "decode_one (buf @ concat reads) = (buf' @ concat reads, Inr (Some p))"
      by (simp add: decode_one_append)
    with d some "1.IH"(2) [OF d [symmetric] some refl] "1.prems" show ?thesis
      by (simp add: tcp_read_loop.simps [of accept reads buf] decode_stream_step)
  next
    case none
    with d have n: "decode_one buf = (buf, Inr None)" "length buf \<le> MAX_PACKET_SIZE + 4"
      using decode_one_None by auto
    show ?thesis
    proof (cases reads)
      case Nil
      with n show ?thesis by (simp add: tcp_read_loop.simps [of accept "[]" buf] decode_stream_stop)
    next
      case (Cons c cs)
      with n "1.prems" "1.IH"(1) [OF n(1) [symmetric] refl refl _ Cons] show ?thesis
        by (simp add: tcp_read_loop.simps [of accept "c # cs" buf])
    qed
  qed
qed

fun ws_data :: "ws_message list \<Rightarrow> bytes" where
  "ws_data [] = []"
| "ws_data (WsBinary d # ms) = d @ ws_data ms"
| "ws_data (WsText t # ms) = as_bytes t @ ws_data ms"
| "ws_data (WsClose # ms) = []"
| "ws_data (_ # ms) = ws_data ms"

lemma ws_read_loop_stream:
  "ws_read_loop accept stream buf sent = decode_stream accept (buf @ ws_data stream) sent"
proof (induction accept stream buf sent rule: ws_read_loop.induct)
  case (1 accept stream buf sent)
  obtain buf' r where d: "decode_one buf = (buf', r)" by fastforce
  consider (err) e where "r = Inl e" | (none) "r = Inr None" | (some) p where "r = Inr (Some p)"
    by (metis obj_sumE option.exhaust)
  then show ?case
  proof cases
    case err
    with d have "decode_one (buf @ ws_data stream) = (buf' @ ws_data stream, Inl e)"
      by (simp add: decode_one_append)
    with d err show ?thesis by (simp add: ws_read_loop.simps [of accept stream buf] decode_stream_stop)
  next
    case some
    with d have "decode_one (buf @ ws_data stream) = (buf' @ ws_data stream, Inr (Some p))"
      by (simp add: decode_one_append)
    with d some "1.IH"(5) [OF d [symmetric] some refl] show ?thesis
      by (simp add: ws_read_loop.simps [of accept stream buf] decode_stream_step)
  next
    case none
    with d have n: "decode_one buf = (buf, Inr None)" "length buf \<le> MAX_PACKET_SIZE + 4"
      using decode_one_None by auto
    note ih = "1.IH"(1-4) [OF n(1) [symmetric] refl refl]
    show ?thesis
    proof (cases stream)
      case Nil
      with n show ?thesis by (simp add: ws_read_loop.simps [of accept "[]" buf] decode_stream_stop)
    next
      case (Cons m ms)
      with n ih show ?thesis
        by (cases m) (simp_all add: ws_read_loop.simps [of accept "_ # _" buf] decode_stream_stop)
    qed
  qed
qed

lemma decode_stream_encode:
  "list_all (\<lambda>p. wf_packet p \<and> length (encode p) \<le> MAX_PACKET_SIZE + 4) ps \<Longrightarrow>
   decode_stream (\<lambda>_. True) (concat (map encode ps)) sent = sent @ ps"
proof (induction ps arbitrary: sent)
  case Nil
  have "decode_one [] = ([], Inr None)" by (simp add: decode_one_def)
  then show ?case by (simp add: decode_stream_stop)
next
  case (Cons p ps)
  then have "decode_one (encode p @ concat (map encode ps)) = (concat (map encode ps), Inr (Some p))"
    by (intro decode_one_encode) simp_all
  from decode_stream_step [OF this] Cons show ?case by simp
qed

subsection \<open>Properties\<close>

text \<open>C23. Decoding is the inverse of encoding: the encoding of a well-formed packet of at most
  the maximal size, followed by any further bytes, decodes to that packet and leaves exactly the
  further bytes in the buffer.\<close>

theorem codec_round_trip:
  assumes "wf_packet p" "length (encode p) \<le> MAX_PACKET_SIZE + 4"
  shows "decode_one (encode p @ rest) = (rest, Inr (Some p))"
  using assms by (rule decode_one_encode)

theorem codec_round_trip_witness:
  "decode_one (encode (Publish \<lparr>pub_dup = False, pub_qos = 1, pub_retain = True, pub_topic = ''a/b'',
       pub_packet_id = Some 7, pub_payload = [1, 2]\<rparr>) @ [9])
   = ([9], Inr (Some (Publish \<lparr>pub_dup = False, pub_qos = 1, pub_retain = True,
       pub_topic = ''a/b'', pub_packet_id = Some 7, pub_payload = [1, 2]\<rparr>)))"
proof (rule codec_round_trip)
  let ?p = "\<lparr>pub_dup = False, pub_qos = 1, pub_retain = True, pub_topic = ''a/b'',
       pub_packet_id = Some 7, pub_payload = [1, 2]\<rparr> :: publish"
  have wf: "wf_publish ?p" by (simp add: wf_publish_def short_str_def is_str_ascii)
  then show "wf_packet (Publish ?p)" by simp
  show "length (encode (Publish ?p)) \<le> MAX_PACKET_SIZE + 4"
    unfolding encode.simps encode_publish_body [OF wf] length_wrap_le
    by (simp add: publish_body_def mqtt_bytes_short MAX_PACKET_SIZE_def)
qed

text \<open>C24. How TCP segments a byte stream does not matter: \<open>tcp_read_loop\<close>, fed with any
  division of the encodings of well-formed packets into non-empty chunks, sends exactly those
  packets in order. The guard on the buffer length never drops a connection here.\<close>

theorem tcp_segmentation:
  assumes "list_all (\<lambda>p. wf_packet p \<and> length (encode p) \<le> MAX_PACKET_SIZE + 4) ps"
    and "\<forall>c \<in> set reads. c \<noteq> []" "concat reads = concat (map encode ps)"
  shows "tcp_read_loop (\<lambda>_. True) reads [] [] = ps"
  using assms by (simp add: tcp_read_loop_stream decode_stream_encode)

theorem tcp_segmentation_witness:
  "tcp_read_loop (\<lambda>_. True) [[0xC0], [0, 0xE0], [0]] [] [] = [PingReq, Disconnect]"
  by (rule tcp_segmentation)
    (simp_all add: wrap_def encode_remaining_length_def MAX_PACKET_SIZE_def)

text \<open>The WebSocket read loop is the TCP one on the same bytes: it sends what decoding the
  concatenated data of the text and binary frames up to the first close frame gives; ping and
  pong frames have no effect.\<close>

theorem ws_read_loop_is_stream:
  "ws_read_loop accept stream [] [] = decode_stream accept (ws_data stream) []"
  by (simp add: ws_read_loop_stream)

text \<open>C25. Whatever bytes arrive, \<open>decode_one\<close> keeps to its contract: asking for more bytes leaves
  the buffer as it is, with at most \<open>MAX_PACKET_SIZE + 4\<close> bytes in it (so the guard of the read
  loops never fires); a packet consumes a non-empty prefix and is well formed; and a packet or an
  error once found is found again when more bytes follow.\<close>

theorem decode_one_contract:
  "case decode_one buf of
     (buf', Inr None) \<Rightarrow> buf' = buf \<and> length buf \<le> MAX_PACKET_SIZE + 4
   | (buf', Inr (Some p)) \<Rightarrow> wf_packet p \<and> length buf' < length buf \<and> (\<exists>used. buf = used @ buf')
       \<and> decode_one (buf @ extra) = (buf' @ extra, Inr (Some p))
   | (buf', Inl e) \<Rightarrow> decode_one (buf @ extra) = (buf' @ extra, Inl e)"
  using decode_one_None [of buf] decode_one_progress [of buf] decode_one_wf [of buf]
    decode_one_append [of buf _ _ extra]
  by (auto split: prod.split sum.split option.split)

end
