(* ===== verification/Model.thy ===== *)
theory Model
  imports Prelude
begin

text \<open>
  The data model of \<open>src/src/model.rs\<close>: delivery and persistence modes with their textual
  forms, topic configurations, claimed messages and their downstream form, and the base64
  encoder that \<open>model.rs\<close> and \<open>status.rs\<close> each carry, together with the payload previews of
  \<open>src/src/status.rs\<close> and \<open>src/src/delivery.rs\<close>. The \<open>serde_json\<close> values are the type
  parameter \<open>'j\<close>.
\<close>

unbundle bit_operations_syntax

subsection \<open>Modes and topic configurations\<close>

datatype delivery_mode = Single | Broadcast

definition delivery_as_str :: "delivery_mode \<Rightarrow> string" where
  "delivery_as_str m = (case m of Single \<Rightarrow> ''single'' | Broadcast \<Rightarrow> ''broadcast'')"

definition delivery_parse :: "string \<Rightarrow> delivery_mode option" where
  "delivery_parse v =
     (let s = to_ascii_lowercase (trim v) in
      if s \<in> {''single'', ''queue'', ''competing''} then Some Single
      else if s \<in> {''broadcast'', ''fanout'', ''pubsub''} then Some Broadcast
      else None)"

definition delivery_from_stored :: "string \<Rightarrow> delivery_mode" where
  "delivery_from_stored v = (case delivery_parse v of None \<Rightarrow> Broadcast | Some m \<Rightarrow> m)"

datatype persistence_mode = Persistent | Ephemeral

definition persistence_as_str :: "persistence_mode \<Rightarrow> string" where
  "persistence_as_str m = (case m of Persistent \<Rightarrow> ''persistent'' | Ephemeral \<Rightarrow> ''ephemeral'')"

definition persistence_parse :: "string \<Rightarrow> persistence_mode option" where
  "persistence_parse v =
     (let s = to_ascii_lowercase (trim v) in
      if s \<in> {'''', ''persistent'', ''durable'', ''store''} then Some Persistent
      else if s \<in> {''ephemeral'', ''transient'', ''none'', ''drop''} then Some Ephemeral
      else None)"

definition persistence_from_stored :: "string \<Rightarrow> persistence_mode" where
  "persistence_from_stored v =
     (let trimmed = trim v in
      if trimmed = [] then Ephemeral
      else case persistence_parse trimmed of None \<Rightarrow> Ephemeral | Some m \<Rightarrow> m)"

record topic_config =
  tc_topic :: string
  tc_delivery :: delivery_mode
  tc_persistence :: persistence_mode

definition implicit :: "string \<Rightarrow> topic_config" where
  "implicit topic = \<lparr>tc_topic = topic, tc_delivery = Broadcast, tc_persistence = Ephemeral\<rparr>"

record consumer_snapshot =
  cs_id :: string
  cs_name :: string
  cs_last_seen_at :: string
  cs_live :: bool
  cs_attributes :: "(string \<times> string) list"

record topic_snapshot =
  ts_name :: string
  ts_accepted :: int
  ts_duplicates :: int
  ts_pending :: int
  ts_processing :: int
  ts_delivered :: int
  ts_failed :: int
  ts_streams :: nat
  ts_delivery :: string
  ts_persistence :: string
  ts_dropped :: int
  ts_consumers :: "consumer_snapshot list"

subsection \<open>Base64\<close>

definition TABLE :: string where
  "TABLE = ''ABCDEFGHIJKLMNOPQRSTUVWXYZabcdefghijklmnopqrstuvwxyz0123456789+/''"

function chunks :: "nat \<Rightarrow> 'a list \<Rightarrow> 'a list list" where
  "chunks n xs = (if xs = [] \<or> n = 0 then [] else take n xs # chunks n (drop n xs))"
  by pat_completeness auto
termination
  by (relation "measure (\<lambda>(n, xs). length xs)") auto

declare chunks.simps [simp del]

definition chunk_word :: "bytes \<Rightarrow> 32 word" where
  "chunk_word chunk =
     push_bit 16 (ucast (chunk ! 0))
     OR push_bit 8 (ucast (if 1 < length chunk then chunk ! 1 else 0))
     OR ucast (if 2 < length chunk then chunk ! 2 else 0)"

definition base64_chunk :: "bytes \<Rightarrow> string" where
  "base64_chunk chunk =
     (let n = chunk_word chunk in
      [TABLE ! unat (drop_bit 18 n AND 63),
       TABLE ! unat (drop_bit 12 n AND 63),
       if 1 < length chunk then TABLE ! unat (drop_bit 6 n AND 63) else CHR ''='',
       if 2 < length chunk then TABLE ! unat (n AND 63) else CHR ''=''])"

definition base64_encode :: "bytes \<Rightarrow> string" where
  "base64_encode bytes = concat (map base64_chunk (chunks 3 bytes))"

definition encode_base64 :: "bytes \<Rightarrow> string" where
  "encode_base64 bytes = concat (map base64_chunk (chunks 3 bytes))"

subsection \<open>Messages\<close>

record 'j claimed_message =
  cm_id :: string
  cm_topic :: string
  cm_payload :: bytes
  cm_attributes :: 'j
  cm_created_at :: string
  cm_lease :: string
  cm_attempts :: int

record 'j downstream_message =
  dm_id :: string
  dm_topic :: string
  dm_payload :: string
  dm_payload_encoding :: string
  dm_attributes :: 'j
  dm_created_at :: string

definition to_downstream :: "'j claimed_message \<Rightarrow> 'j downstream_message" where
  "to_downstream m =
     (let (payload, enc) = (case from_utf8 (cm_payload m) of
            Some text \<Rightarrow> (text, ''utf-8'')
          | None \<Rightarrow> (base64_encode (cm_payload m), ''base64''))
      in \<lparr>dm_id = cm_id m, dm_topic = cm_topic m, dm_payload = payload, dm_payload_encoding = enc,
          dm_attributes = cm_attributes m, dm_created_at = cm_created_at m\<rparr>)"

record 'j consume_message_body =
  cb_id :: string
  cb_topic :: string
  cb_payload :: string
  cb_payload_encoding :: string
  cb_attributes :: 'j
  cb_created_at :: string
  cb_lease :: string
  cb_visibility_timeout_ms :: nat
  cb_delivery_attempt :: int
  cb_max_delivery_attempts :: int

definition to_consume_message :: "'j claimed_message \<Rightarrow> nat \<Rightarrow> int \<Rightarrow> 'j consume_message_body" where
  "to_consume_message m ack_timeout_secs max_attempts =
     (let (payload, enc) = (case from_utf8 (cm_payload m) of
            Some text \<Rightarrow> (text, ''utf-8'')
          | None \<Rightarrow> (encode_base64 (cm_payload m), ''base64''))
      in \<lparr>cb_id = cm_id m, cb_topic = cm_topic m, cb_payload = payload, cb_payload_encoding = enc,
          cb_attributes = cm_attributes m, cb_created_at = cm_created_at m, cb_lease = cm_lease m,
          cb_visibility_timeout_ms = min (ack_timeout_secs * 1000) (2 ^ 64 - 1),
          cb_delivery_attempt = cm_attempts m, cb_max_delivery_attempts = max_attempts\<rparr>)"

subsection \<open>Previews\<close>

text \<open>
  \<open>str::is_char_boundary\<close>, and the loop that both previews use to cut a text at a character
  boundary at or below \<open>end\<close>.
\<close>

definition is_char_boundary :: "string \<Rightarrow> nat \<Rightarrow> bool" where
  "is_char_boundary s i \<longleftrightarrow>
     i = 0 \<or> i = length s \<or> (i < length s \<and> \<not> utf8_cont (byte_of_char (s ! i)))"

fun boundary_below :: "string \<Rightarrow> nat \<Rightarrow> nat" where
  "boundary_below s end =
     (if 0 < end \<and> \<not> is_char_boundary s end then boundary_below s (end - 1) else end)"

declare boundary_below.simps [simp del]

definition MESSAGE_PREVIEW_BYTES :: nat where "MESSAGE_PREVIEW_BYTES = 64 * 1024"

text \<open>The payload, its encoding and whether it was cut, as \<open>to_message_body\<close> computes them.\<close>

definition message_body_payload :: "bytes \<Rightarrow> string \<times> string \<times> bool" where
  "message_body_payload payload =
     (case from_utf8 payload of
        Some text \<Rightarrow>
          if MESSAGE_PREVIEW_BYTES < length text
          then (take (boundary_below text MESSAGE_PREVIEW_BYTES) text, ''utf-8'', True)
          else (text, ''utf-8'', False)
      | None \<Rightarrow>
          let truncated = MESSAGE_PREVIEW_BYTES < length payload;
              slice = (if truncated then take MESSAGE_PREVIEW_BYTES payload else payload)
          in (encode_base64 slice, ''base64'', truncated))"

subsection \<open>Base64 decodes back\<close>

text \<open>The reference decoder: the value of a character, and four characters to up to three bytes.\<close>

fun index_of :: "'a \<Rightarrow> 'a list \<Rightarrow> nat" where
  "index_of c [] = 0"
| "index_of c (x # xs) = (if x = c then 0 else Suc (index_of c xs))"

definition b64_val :: "char \<Rightarrow> 32 word" where
  "b64_val c = (if c = CHR ''='' then 0 else of_nat (index_of c TABLE))"

fun b64_quad :: "char \<Rightarrow> char \<Rightarrow> char \<Rightarrow> char \<Rightarrow> bytes" where
  "b64_quad c0 c1 c2 c3 =
     (let n = push_bit 18 (b64_val c0) OR push_bit 12 (b64_val c1)
              OR push_bit 6 (b64_val c2) OR b64_val c3;
          all = [ucast (drop_bit 16 n), ucast (drop_bit 8 n), ucast n]
      in take (if c2 = CHR ''='' then 1 else if c3 = CHR ''='' then 2 else 3) all)"

fun base64_decode :: "string \<Rightarrow> bytes" where
  "base64_decode (c0 # c1 # c2 # c3 # cs) = b64_quad c0 c1 c2 c3 @ base64_decode cs"
| "base64_decode _ = []"

lemma index_of_nth: "distinct xs \<Longrightarrow> i < length xs \<Longrightarrow> index_of (xs ! i) xs = i"
  by (induction xs arbitrary: i) (auto simp: nth_Cons split: nat.splits)

lemma TABLE_props: "distinct TABLE" "length TABLE = 64" "CHR ''='' \<notin> set TABLE"
  by (simp_all add: TABLE_def)

lemma unat_and_63: "unat ((w :: 32 word) AND 63) < 64"
proof -
  have "w AND 63 \<le> 63" by (rule word_and_le1)
  then show ?thesis by (simp add: word_le_nat_alt)
qed

lemma b64_val_TABLE [simp]: "b64_val (TABLE ! unat (w AND 63)) = w AND 63"
proof -
  have "TABLE ! unat (w AND 63) \<in> set TABLE" using unat_and_63 TABLE_props by simp
  then have "TABLE ! unat (w AND 63) \<noteq> CHR ''=''" using TABLE_props(3) by metis
  moreover have "index_of (TABLE ! unat (w AND 63)) TABLE = unat (w AND 63)"
    using unat_and_63 TABLE_props by (intro index_of_nth) simp_all
  ultimately show ?thesis by (simp add: b64_val_def)
qed

lemma TABLE_not_pad [simp]: "TABLE ! unat (w AND (63 :: 32 word)) \<noteq> CHR ''=''"
  using unat_and_63 TABLE_props by (metis nth_mem)

lemma b64_val_pad [simp]: "b64_val (CHR ''='') = 0"
  by (simp add: b64_val_def)

lemma mask6: "(63 :: 32 word) = mask 6"
  by (simp add: mask_eq_exp_minus_1)

lemma sextets:
  fixes n :: "32 word"
  shows "push_bit 18 (drop_bit 18 n AND 63) OR push_bit 12 (drop_bit 12 n AND 63)
    OR push_bit 6 (drop_bit 6 n AND 63) OR (n AND 63) = take_bit 24 n"
  unfolding mask6
proof (rule bit_word_eqI)
  fix i assume "i < LENGTH(32)"
  consider "i < 6" | "6 \<le> i" "i < 12" | "12 \<le> i" "i < 18" | "18 \<le> i" "i < 24" | "24 \<le> i"
    by linarith
  then show "bit (push_bit 18 (drop_bit 18 n AND mask 6) OR push_bit 12 (drop_bit 12 n AND mask 6)
    OR push_bit 6 (drop_bit 6 n AND mask 6) OR (n AND mask 6)) i = bit (take_bit 24 n) i"
    by cases (auto simp: bit_simps)
qed

lemma bytes_of_take_bit:
  fixes n :: "32 word"
  shows "ucast (drop_bit 16 (take_bit 24 n)) = (ucast (drop_bit 16 n) :: 8 word)"
    "ucast (drop_bit 8 (take_bit 24 n)) = (ucast (drop_bit 8 n) :: 8 word)"
    "ucast (take_bit 24 n) = (ucast n :: 8 word)"
  by (rule bit_word_eqI; auto simp: bit_simps)+

lemma chunk_word_bytes:
  "ucast (drop_bit 16 (chunk_word c)) = c ! 0"
  "1 < length c \<Longrightarrow> ucast (drop_bit 8 (chunk_word c)) = c ! 1"
  "2 < length c \<Longrightarrow> ucast (chunk_word c) = c ! 2"
  unfolding chunk_word_def
  by (rule bit_word_eqI, auto simp: bit_simps dest: bit_imp_le_length)+

lemma chunk_word_pad:
  "length c \<le> 2 \<Longrightarrow> chunk_word c AND 63 = 0"
  "length c \<le> 1 \<Longrightarrow> drop_bit 6 (chunk_word c) AND 63 = 0"
  unfolding chunk_word_def mask6
  by (rule bit_word_eqI, auto simp: bit_simps dest: bit_imp_le_length)+

lemma decode_chunk:
  assumes "c \<noteq> []" "length c \<le> 3"
  shows "base64_decode (base64_chunk c @ cs) = c @ base64_decode cs"
proof -
  let ?n = "chunk_word c"
  have v2: "b64_val (if 1 < length c then TABLE ! unat (drop_bit 6 ?n AND 63) else CHR ''='')
      = drop_bit 6 ?n AND 63"
    using chunk_word_pad(2) [of c] by (simp add: not_less)
  have v3: "b64_val (if 2 < length c then TABLE ! unat (?n AND 63) else CHR ''='') = ?n AND 63"
    using chunk_word_pad(1) [of c] by (simp add: not_less)
  consider x where "c = [x]" | x y where "c = [x, y]" | x y z where "c = [x, y, z]"
    using assms by (cases c; cases "tl c"; cases "tl (tl c)") auto
  then have "take (length c) [ucast (drop_bit 16 ?n), ucast (drop_bit 8 ?n), ucast ?n] = c"
    by cases (simp_all add: chunk_word_bytes)
  moreover have "(if (if 1 < length c then TABLE ! unat (drop_bit 6 ?n AND 63) else CHR ''='') = CHR ''='' then 1
      else if (if 2 < length c then TABLE ! unat (?n AND 63) else CHR ''='') = CHR ''='' then 2 else 3) = length c"
    using assms by (cases c; cases "tl c"; cases "tl (tl c)") auto
  ultimately show ?thesis
    unfolding base64_chunk_def Let_def append_Cons append_Nil base64_decode.simps b64_quad.simps
      v2 v3 b64_val_TABLE sextets bytes_of_take_bit
    by simp
qed

lemma base64_decode_encode: "base64_decode (base64_encode bs) = bs"
proof (induction bs rule: length_induct)
  case (1 bs)
  show ?case
  proof (cases "bs = []")
    case False
    then have "base64_encode bs = base64_chunk (take 3 bs) @ base64_encode (drop 3 bs)"
      by (simp add: base64_encode_def chunks.simps [of 3 bs])
    with False 1 show ?thesis
      by (simp add: decode_chunk)
  qed (simp add: base64_encode_def chunks.simps)
qed

lemma length_base64_encode: "length (base64_encode bs) = 4 * ((length bs + 2) div 3)"
proof (induction bs rule: length_induct)
  case (1 bs)
  show ?case
  proof (cases "bs = []")
    case False
    then have "base64_encode bs = base64_chunk (take 3 bs) @ base64_encode (drop 3 bs)"
      by (simp add: base64_encode_def chunks.simps [of 3 bs])
    moreover have "length (base64_chunk (take 3 bs)) = 4" by (simp add: base64_chunk_def Let_def)
    ultimately show ?thesis using False 1
      by (cases "length bs < 3") (auto simp: div_if)
  qed (simp add: base64_encode_def chunks.simps)
qed

subsection \<open>Cutting at a character boundary\<close>

lemma boundary_below_props:
  "boundary_below s n \<le> n \<and> (n \<le> length s \<longrightarrow> is_char_boundary s (boundary_below s n))"
proof (induction n)
  case 0
  then show ?case by (simp add: boundary_below.simps is_char_boundary_def)
next
  case (Suc n)
  then show ?case by (auto simp: boundary_below.simps [of s "Suc n"])
qed

lemma utf8_cont_range:
  "0xA0 \<le> b \<Longrightarrow> b \<le> 0xBF \<Longrightarrow> utf8_cont b" "0x80 \<le> b \<Longrightarrow> b \<le> 0x9F \<Longrightarrow> utf8_cont b"
  "0x90 \<le> b \<Longrightarrow> b \<le> 0xBF \<Longrightarrow> utf8_cont b" "0x80 \<le> b \<Longrightarrow> b \<le> 0x8F \<Longrightarrow> utf8_cont b"
  unfolding utf8_cont_def by (auto simp: word_le_nat_alt)

text \<open>A valid text starts with one character: a head byte and its continuation bytes.\<close>

definition utf8_head :: "8 word \<Rightarrow> bytes \<Rightarrow> bytes \<Rightarrow> bool" where
  "utf8_head b k r \<longleftrightarrow>
     list_all utf8_cont k \<and> valid_utf8 r \<and> (\<forall>r'. valid_utf8 r' \<longrightarrow> valid_utf8 (b # k @ r'))"

lemma valid_utf8_head:
  assumes "valid_utf8 (b # bs)"
  shows "\<exists>k r. bs = k @ r \<and> utf8_head b k r"
proof -
  have "b < 0x80 \<or> (0xC2 \<le> b \<and> b \<le> 0xDF) \<or> (0xE0 \<le> b \<and> b \<le> 0xEF) \<or> (0xF0 \<le> b \<and> b \<le> 0xF4)"
  proof (rule ccontr)
    assume "\<not> ?thesis"
    then have "\<not> valid_utf8 (b # bs)"
      unfolding de_Morgan_disj by (elim conjE) (simp only: valid_utf8.simps if_False simp_thms)
    with assms show False by blast
  qed
  then consider (one) "b < 0x80" | (two) "\<not> b < 0x80" "0xC2 \<le> b \<and> b \<le> 0xDF"
    | (three) "\<not> b < 0x80" "\<not> (0xC2 \<le> b \<and> b \<le> 0xDF)" "0xE0 \<le> b \<and> b \<le> 0xEF"
    | (four) "\<not> b < 0x80" "\<not> (0xC2 \<le> b \<and> b \<le> 0xDF)" "\<not> (0xE0 \<le> b \<and> b \<le> 0xEF)"
      "0xF0 \<le> b \<and> b \<le> 0xF4"
    by blast
  then show ?thesis
  proof cases
    case one
    with assms have "utf8_head b [] bs" by (simp add: utf8_head_def)
    then show ?thesis by (metis append_Nil)
  next
    case two
    then have v: "valid_utf8 (b # cs) = (case cs of b1 # r \<Rightarrow> utf8_cont b1 \<and> valid_utf8 r | _ \<Rightarrow> False)"
      for cs by (simp only: valid_utf8.simps if_True if_False simp_thms)
    from assms obtain b1 r where "bs = b1 # r" "utf8_cont b1" "valid_utf8 r"
      unfolding v by (auto split: list.splits)
    moreover from this have "utf8_head b [b1] r"
      unfolding utf8_head_def v by (simp only: append.simps list.case simp_thms list.pred_inject)
    ultimately show ?thesis by (metis append.simps)
  next
    case three
    then have v: "valid_utf8 (b # cs) = (case cs of b1 # b2 # r \<Rightarrow>
            (if b = 0xE0 then 0xA0 \<le> b1 \<and> b1 \<le> 0xBF
             else if b = 0xED then 0x80 \<le> b1 \<and> b1 \<le> 0x9F
             else utf8_cont b1) \<and> utf8_cont b2 \<and> valid_utf8 r
         | _ \<Rightarrow> False)"
      for cs by (simp only: valid_utf8.simps if_True if_False simp_thms)
    from assms obtain b1 b2 r where bs: "bs = b1 # b2 # r" "utf8_cont b2" "valid_utf8 r"
      and b1: "if b = 0xE0 then 0xA0 \<le> b1 \<and> b1 \<le> 0xBF
             else if b = 0xED then 0x80 \<le> b1 \<and> b1 \<le> 0x9F else utf8_cont b1"
      unfolding v by (auto split: list.splits)
    have "utf8_cont b1" using b1 utf8_cont_range [of b1] by presburger
    then have "utf8_head b [b1, b2] r"
      unfolding utf8_head_def v using bs b1
      by (simp only: append.simps list.case simp_thms list.pred_inject) blast
    then show ?thesis using bs(1) by (metis append.simps)
  next
    case four
    then have v: "valid_utf8 (b # cs) = (case cs of b1 # b2 # b3 # r \<Rightarrow>
            (if b = 0xF0 then 0x90 \<le> b1 \<and> b1 \<le> 0xBF
             else if b = 0xF4 then 0x80 \<le> b1 \<and> b1 \<le> 0x8F
             else utf8_cont b1) \<and> utf8_cont b2 \<and> utf8_cont b3 \<and> valid_utf8 r
         | _ \<Rightarrow> False)"
      for cs by (simp only: valid_utf8.simps if_True if_False simp_thms)
    from assms obtain b1 b2 b3 r where bs: "bs = b1 # b2 # b3 # r" "utf8_cont b2" "utf8_cont b3"
        "valid_utf8 r"
      and b1: "if b = 0xF0 then 0x90 \<le> b1 \<and> b1 \<le> 0xBF
             else if b = 0xF4 then 0x80 \<le> b1 \<and> b1 \<le> 0x8F else utf8_cont b1"
      unfolding v by (auto split: list.splits)
    have "utf8_cont b1" using b1 utf8_cont_range [of b1] by presburger
    then have "utf8_head b [b1, b2, b3] r"
      unfolding utf8_head_def v using bs b1
      by (simp only: append.simps list.case simp_thms list.pred_inject) blast
    then show ?thesis using bs(1) by (metis append.simps)
  qed
qed

lemma valid_utf8_take:
  "valid_utf8 bs \<Longrightarrow> n < length bs \<Longrightarrow> \<not> utf8_cont (bs ! n) \<Longrightarrow> valid_utf8 (take n bs)"
proof (induction bs arbitrary: n rule: length_induct)
  case (1 bs)
  show ?case
  proof (cases n)
    case (Suc m)
    with "1.prems" obtain b cs where bs: "bs = b # cs" by (cases bs) auto
    with "1.prems" obtain k r where k: "cs = k @ r" "list_all utf8_cont k" "valid_utf8 r"
      "\<And>r'. valid_utf8 r' \<Longrightarrow> valid_utf8 (b # k @ r')"
      using valid_utf8_head [of b cs] unfolding utf8_head_def by blast
    have m: "length k \<le> m"
    proof (rule ccontr)
      assume "\<not> length k \<le> m"
      then have "bs ! n \<in> set k" using bs k Suc by (simp add: nth_append)
      with k(2) "1.prems" show False by (simp add: list_all_iff)
    qed
    then have "valid_utf8 (take (m - length k) r)"
      using "1.IH" "1.prems" bs k Suc by (auto simp: nth_append)
    from k(4) [OF this] m show ?thesis by (simp add: bs k(1) Suc)
  qed simp
qed

lemma is_str_take_boundary:
  assumes "is_str s" "n \<le> length s" "is_char_boundary s n"
  shows "is_str (take n s)"
  using assms valid_utf8_take [of "as_bytes s" n]
  by (auto simp: is_str_def is_char_boundary_def as_bytes_def take_map)

subsection \<open>Properties\<close>

text \<open>The textual forms of the delivery and persistence modes read back as the same mode, also
  when the stored text has been padded or upper-cased, while an empty stored persistence means
  ephemeral although an empty requested one means persistent.\<close>

theorem modes_round_trip:
  "delivery_from_stored (delivery_as_str d) = d \<and>
   persistence_from_stored (persistence_as_str m) = m \<and>
   delivery_parse (delivery_as_str d) = Some d \<and>
   persistence_parse (persistence_as_str m) = Some m \<and>
   delivery_parse (trim v) = delivery_parse v \<and> persistence_parse (trim v) = persistence_parse v \<and>
   persistence_from_stored [] = Ephemeral \<and> persistence_parse [] = Some Persistent"
proof -
  have "delivery_from_stored (delivery_as_str d) = d" by (cases d, simp_all only:, code_simp+)
  moreover have "persistence_from_stored (persistence_as_str m) = m" by (cases m, simp_all only:, code_simp+)
  moreover have "delivery_parse (delivery_as_str d) = Some d" by (cases d, simp_all only:, code_simp+)
  moreover have "persistence_parse (persistence_as_str m) = Some m" by (cases m, simp_all only:, code_simp+)
  moreover have "persistence_from_stored [] = Ephemeral" "persistence_parse [] = Some Persistent"
    by code_simp+
  ultimately show ?thesis by (simp add: delivery_parse_def persistence_parse_def)
qed

text \<open>A payload handed to a consumer over HTTP can be recovered: the body carries the bytes
  themselves as text when they are valid UTF-8, and otherwise a base64 text of length
  \<open>4 * ceil (n / 3)\<close> that decodes to exactly the payload; the same holds for the downstream
  form.\<close>

theorem payload_recoverable:
  "(case (cb_payload_encoding (to_consume_message m t a), cb_payload (to_consume_message m t a)) of
      (enc, text) \<Rightarrow>
        if is_str (of_bytes (cm_payload m)) then enc = ''utf-8'' \<and> as_bytes text = cm_payload m
        else enc = ''base64'' \<and> base64_decode text = cm_payload m
             \<and> length text = 4 * ((length (cm_payload m) + 2) div 3)) \<and>
   dm_payload (to_downstream m) = cb_payload (to_consume_message m t a) \<and>
   dm_payload_encoding (to_downstream m) = cb_payload_encoding (to_consume_message m t a)"
proof -
  have e: "encode_base64 = base64_encode"
    by (rule ext) (simp add: encode_base64_def base64_encode_def)
  show ?thesis
    by (auto simp: to_consume_message_def to_downstream_def Let_def e from_utf8_def is_str_def
        base64_decode_encode length_base64_encode)
qed

text \<open>The preview of a long text is cut at a character boundary: it is a prefix of the
  payload of at most \<open>MESSAGE_PREVIEW_BYTES\<close> bytes and valid UTF-8 itself (so slicing does not
  panic), and a payload is marked as truncated exactly when it is longer than the limit.\<close>

theorem message_preview_is_text:
  assumes "is_str body"
  shows "case message_body_payload (as_bytes body) of (shown, enc, truncated) \<Rightarrow>
    enc = ''utf-8'' \<and> is_str shown \<and> length shown \<le> MESSAGE_PREVIEW_BYTES \<and>
    starts_with shown body \<and> (truncated \<longleftrightarrow> MESSAGE_PREVIEW_BYTES < length body) \<and>
    (truncated \<or> shown = body)"
proof (cases "MESSAGE_PREVIEW_BYTES < length body")
  case True
  let ?n = "boundary_below body MESSAGE_PREVIEW_BYTES"
  have n: "?n \<le> MESSAGE_PREVIEW_BYTES" "is_char_boundary body ?n"
    using boundary_below_props [of body MESSAGE_PREVIEW_BYTES] True by simp_all
  then have "is_str (take ?n body)" using assms True by (intro is_str_take_boundary) simp_all
  moreover have "starts_with (take ?n body) body" by (metis append_take_drop_id starts_with_iff)
  ultimately show ?thesis using True n(1) assms by (simp add: message_body_payload_def)
next
  case False
  then show ?thesis using assms by (simp add: message_body_payload_def starts_with_iff)
qed

theorem message_preview_is_text_witness:
  "is_str ''abc'' \<and> (case message_body_payload (as_bytes ''abc'') of (shown, enc, truncated) \<Rightarrow>
    enc = ''utf-8'' \<and> is_str shown \<and> length shown \<le> MESSAGE_PREVIEW_BYTES \<and>
    starts_with shown ''abc'' \<and> (truncated \<longleftrightarrow> MESSAGE_PREVIEW_BYTES < length ''abc'') \<and>
    (truncated \<or> shown = ''abc''))"
proof -
  have h: "is_str ''abc''" by (simp add: is_str_ascii)
  show ?thesis using h message_preview_is_text [OF h] by blast
qed

end
