(* ===== verification/Sql.thy ===== *)
theory Sql
  imports Prelude
begin

text \<open>
  The two libraries that the stateful components rely on, as parameters, and the statements
  that the sources send to SQLite.

  Time is an integer number of nanoseconds. The operations of \<open>chrono\<close> that the sources use
  are the fields of a record \<open>chrono\<close>; \<open>chrono_ok\<close> collects what its documentation says
  about them. A result \<open>None\<close> of \<open>add_secs\<close> is the documented panic on overflow;
  \<open>add_std\<close> is the addition of a \<open>std::time::Duration\<close> in nanoseconds, where \<open>from_std\<close>
  can report an error (\<open>Returned None\<close>) and the addition can panic.

  A table is the list of its rows in rowid order. A statement is a function on the rows that
  also returns the number of rows affected or the rows returned. A statement can fail (disk
  full, busy, connection closed); each operation takes a fault plan \<open>flt\<close>, where \<open>flt i\<close> says
  that its \<open>i\<close>-th statement fails. A failed statement changes nothing.
\<close>

named_theorems sql_simps \<open>effect of the SQL statements on tables\<close>

subsection \<open>chrono\<close>

record chrono =
  add_secs :: "int \<Rightarrow> int \<Rightarrow> int option"
  add_std :: "int \<Rightarrow> nat \<Rightarrow> int option outcome"
  num_seconds :: "int \<Rightarrow> int"
  to_rfc3339 :: "int \<Rightarrow> string"
  parse_rfc3339 :: "string \<Rightarrow> int option"
  format_minute :: "int \<Rightarrow> string"

abbreviation sec :: int where "sec \<equiv> 1000000000"

text \<open>The instants whose RFC 3339 form has a four-digit year: 1970 up to the year 10000.\<close>

definition in_years :: "int \<Rightarrow> bool" where
  "in_years t \<longleftrightarrow> 0 \<le> t \<and> t < 253402300800 * sec"

definition chrono_ok :: "chrono \<Rightarrow> bool" where
  "chrono_ok ch \<longleftrightarrow>
     (\<forall>t s d. add_secs ch t s = Some d \<longrightarrow> d = t + s * sec) \<and>
     (\<forall>t n d. add_std ch t n = Returned (Some d) \<longrightarrow> d = t + int n) \<and>
     (\<forall>d. 0 \<le> d \<longrightarrow> num_seconds ch d = d div sec) \<and>
     (\<forall>d. d < 0 \<longrightarrow> num_seconds ch d \<le> 0) \<and>
     (\<forall>t u. in_years t \<longrightarrow> in_years u \<longrightarrow> (to_rfc3339 ch t \<le> to_rfc3339 ch u \<longleftrightarrow> t \<le> u)) \<and>
     (\<forall>t. in_years t \<longrightarrow> parse_rfc3339 ch (to_rfc3339 ch t) = Some t)"

lemma chrono_okD:
  assumes "chrono_ok ch"
  shows "add_secs ch t s = Some d \<Longrightarrow> d = t + s * sec"
    "0 \<le> e \<Longrightarrow> num_seconds ch e = e div sec"
    "e < 0 \<Longrightarrow> num_seconds ch e \<le> 0"
    "in_years t \<Longrightarrow> in_years u \<Longrightarrow> to_rfc3339 ch t \<le> to_rfc3339 ch u \<longleftrightarrow> t \<le> u"
    "in_years t \<Longrightarrow> parse_rfc3339 ch (to_rfc3339 ch t) = Some t"
    "add_std ch t n = Returned (Some d) \<Longrightarrow> d = t + int n"
  using assms unfolding chrono_ok_def by blast+

lemma to_rfc3339_less:
  "chrono_ok ch \<Longrightarrow> in_years t \<Longrightarrow> in_years u \<Longrightarrow> to_rfc3339 ch t < to_rfc3339 ch u \<longleftrightarrow> t < u"
  using chrono_okD(4) [of ch u t] by (simp add: not_le [symmetric])

text \<open>
  An instance of the laws: a timestamp of as many letters as nanoseconds.
\<close>

definition plain_chrono :: chrono where
  "plain_chrono = \<lparr>
     add_secs = (\<lambda>t s. if s \<le> 9223372036854775 then Some (t + s * sec) else None),
     add_std = (\<lambda>t n. Returned (Some (t + int n))),
     num_seconds = (\<lambda>d. if 0 \<le> d then d div sec else 0),
     to_rfc3339 = (\<lambda>t. replicate (nat t) (CHR ''a'')),
     parse_rfc3339 = (\<lambda>s. Some (int (length s))),
     format_minute = (\<lambda>t. replicate (nat (t div (60 * sec))) (CHR ''a''))\<rparr>"

lemma replicate_le_iff: "replicate m c \<le> replicate n c \<longleftrightarrow> m \<le> n" for c :: "'a :: linorder"
proof (induction m arbitrary: n)
  case (Suc m)
  then show ?case by (cases n) auto
qed simp

lemma plain_chrono_ok [simp]: "chrono_ok plain_chrono"
  by (auto simp: chrono_ok_def plain_chrono_def in_years_def replicate_le_iff)

lemma plain_chrono_sel [simp]:
  "add_secs plain_chrono t s = (if s \<le> 9223372036854775 then Some (t + s * sec) else None)"
  "num_seconds plain_chrono d = (if 0 \<le> d then d div sec else 0)"
  "add_std plain_chrono t n = Returned (Some (t + int n))"
  by (simp_all add: plain_chrono_def)

subsection \<open>Statements\<close>

datatype sql_error = SqlError

type_synonym faults = "nat \<Rightarrow> bool"

abbreviation no_faults :: faults where "no_faults \<equiv> \<lambda>_. False"

definition sql_delete :: "('r \<Rightarrow> bool) \<Rightarrow> 'r list \<Rightarrow> nat \<times> 'r list" where
  "sql_delete P rows = (length (filter P rows), filter (\<lambda>r. \<not> P r) rows)"

definition sql_update :: "('r \<Rightarrow> bool) \<Rightarrow> ('r \<Rightarrow> 'r) \<Rightarrow> 'r list \<Rightarrow> nat \<times> 'r list" where
  "sql_update P f rows = (length (filter P rows), map (\<lambda>r. if P r then f r else r) rows)"

text \<open>Does one of the \<open>n\<close> statements from index \<open>i\<close> on fail?\<close>

definition any_fault :: "faults \<Rightarrow> nat \<Rightarrow> nat \<Rightarrow> bool" where
  "any_fault flt i n \<longleftrightarrow> (\<exists>j \<in> set [i..<i + n]. flt j)"

lemma any_fault_none [simp]: "\<not> any_fault no_faults i n"
  by (simp add: any_fault_def)

text \<open>\<open>INSERT ... ON CONFLICT(key) DO NOTHING\<close> on a table with a unique key.\<close>

definition sql_insert_new :: "('r \<Rightarrow> 'k) \<Rightarrow> 'r \<Rightarrow> 'r list \<Rightarrow> nat \<times> 'r list" where
  "sql_insert_new key r rows =
     (if key r \<in> key ` set rows then (0, rows) else (1, rows @ [r]))"

text \<open>\<open>INSERT ... ON CONFLICT(key) DO UPDATE SET ... WHERE cond\<close>.\<close>

definition sql_upsert ::
  "('r \<Rightarrow> 'k) \<Rightarrow> 'r \<Rightarrow> ('r \<Rightarrow> bool) \<Rightarrow> ('r \<Rightarrow> 'r) \<Rightarrow> 'r list \<Rightarrow> 'r list" where
  "sql_upsert key r cond upd rows =
     (if key r \<in> key ` set rows
      then map (\<lambda>x. if key x = key r \<and> cond x then upd x else x) rows
      else rows @ [r])"

text \<open>The row with a key, in a table where the key is unique.\<close>

definition row_of :: "('r \<Rightarrow> 'k) \<Rightarrow> 'k \<Rightarrow> 'r list \<Rightarrow> 'r option" where
  "row_of key k rows = find (\<lambda>r. key r = k) rows"

definition unique_key :: "('r \<Rightarrow> 'k) \<Rightarrow> 'r list \<Rightarrow> bool" where
  "unique_key key rows \<longleftrightarrow> distinct (map key rows)"

lemma unique_key_Nil [simp]: "unique_key key []"
  by (simp add: unique_key_def)

lemma row_of_Some_iff:
  "unique_key key rows \<Longrightarrow> row_of key k rows = Some r \<longleftrightarrow> r \<in> set rows \<and> key r = k"
  unfolding unique_key_def row_of_def
  by (induction rows) (auto simp: rev_image_eqI)

lemma row_of_None_iff: "row_of key k rows = None \<longleftrightarrow> k \<notin> key ` set rows"
  by (auto simp: row_of_def find_None_iff)

lemma row_of_key: "row_of key k rows = Some r \<Longrightarrow> key r = k"
  by (auto simp: row_of_def find_Some_iff)

lemma unique_key_filter [simp]: "unique_key key rows \<Longrightarrow> unique_key key (filter P rows)"
  by (simp add: unique_key_def distinct_map_filter)

lemma unique_key_delete [simp]: "unique_key key rows \<Longrightarrow> unique_key key (snd (sql_delete P rows))"
  by (simp add: sql_delete_def)

lemma unique_key_insert_new [simp]:
  "unique_key key rows \<Longrightarrow> unique_key key (snd (sql_insert_new key r rows))"
  by (auto simp: sql_insert_new_def unique_key_def)

lemma row_of_append: "row_of key k (xs @ ys) = (case row_of key k xs of None \<Rightarrow> row_of key k ys | Some r \<Rightarrow> Some r)"
  by (induction xs) (auto simp: row_of_def)

lemma row_of_delete [sql_simps]:
  "unique_key key rows \<Longrightarrow> row_of key k (snd (sql_delete P rows))
     = (case row_of key k rows of None \<Rightarrow> None | Some r \<Rightarrow> if P r then None else Some r)"
proof (cases "row_of key k rows")
  case None
  then have "row_of key k (filter (\<lambda>r. \<not> P r) rows) = None" by (auto simp: row_of_None_iff)
  with None show ?thesis by (simp add: sql_delete_def)
next
  case (Some r)
  assume u: "unique_key key rows"
  with Some have r: "r \<in> set rows" "key r = k" by (simp_all add: row_of_Some_iff)
  show ?thesis
  proof (cases "P r")
    case True
    have "x = r" if "x \<in> set rows" "key x = k" for x
      using u Some that row_of_Some_iff [of key rows k x] by simp
    with True Some show ?thesis by (auto simp: sql_delete_def row_of_None_iff)
  next
    case False
    with u r have "row_of key k (filter (\<lambda>r. \<not> P r) rows) = Some r" by (simp add: row_of_Some_iff)
    with False Some show ?thesis by (simp add: sql_delete_def)
  qed
qed

lemma row_of_insert_new [sql_simps]:
  "row_of key k (snd (sql_insert_new key r rows))
     = (case row_of key k rows of None \<Rightarrow> if key r = k then Some r else None | Some x \<Rightarrow> Some x)"
proof (cases "row_of key k rows")
  case None
  then have "k \<notin> key ` set rows" by (simp add: row_of_None_iff)
  with None show ?thesis by (auto simp: sql_insert_new_def row_of_append) (auto simp: row_of_def)
qed (simp add: sql_insert_new_def row_of_append)

text \<open>An UPDATE that leaves the key column alone.\<close>

locale keyed_update =
  fixes key :: "'r \<Rightarrow> 'k" and upd :: "'r \<Rightarrow> 'r"
  assumes key_upd: "key (upd r) = key r"
begin

lemma map_key_update: "map key (snd (sql_update P upd rows)) = map key rows"
  by (induction rows) (auto simp: sql_update_def key_upd)

lemma unique_update: "unique_key key (snd (sql_update P upd rows)) = unique_key key rows"
  by (simp add: unique_key_def map_key_update)

lemma row_of_update:
  "row_of key k (snd (sql_update P upd rows))
     = map_option (\<lambda>r. if P r then upd r else r) (row_of key k rows)"
  by (induction rows) (auto simp: sql_update_def row_of_def key_upd)

lemma map_key_upsert:
  "map key (sql_upsert key r cond upd rows)
     = (if key r \<in> key ` set rows then map key rows else map key rows @ [key r])"
  by (auto simp: sql_upsert_def key_upd)

lemma unique_upsert: "unique_key key rows \<Longrightarrow> unique_key key (sql_upsert key r cond upd rows)"
  by (simp add: unique_key_def map_key_upsert)

lemma row_of_upsert:
  "row_of key k (sql_upsert key r cond upd rows)
     = (if key r = k
        then Some (case row_of key k rows of None \<Rightarrow> r | Some x \<Rightarrow> if cond x then upd x else x)
        else row_of key k rows)"
proof (cases "key r \<in> key ` set rows")
  case True
  have "row_of key k (map (\<lambda>x. if key x = key r \<and> cond x then upd x else x) rows)
    = map_option (\<lambda>x. if key x = key r \<and> cond x then upd x else x) (row_of key k rows)"
    by (induction rows) (auto simp: row_of_def key_upd)
  moreover have "row_of key (key r) rows \<noteq> None" using True by (simp add: row_of_None_iff)
  ultimately show ?thesis
    using True by (cases "row_of key k rows") (auto simp: sql_upsert_def dest: row_of_key)
next
  case False
  then have "row_of key (key r) rows = None" by (simp add: row_of_None_iff)
  with False show ?thesis
    by (auto simp: sql_upsert_def row_of_append split: option.split) (auto simp: row_of_def)
qed

end

end
