(* ===== verification/Cache.thy ===== *)
theory Cache
  imports Sql
begin

text \<open>
  The in-memory cache of \<open>src/src/cache.rs\<close> (\<open>CacheStore\<close>) and the cache half of its gRPC
  service. The store is the hash map behind the mutex, the capacity, and whether the mutex is
  poisoned: a panic while the map is locked poisons it, and every later \<open>lock()\<close> panics.

  Each call of \<open>Utc::now()\<close> is a separate argument, in the order in which the code reads the
  clock. Adding a time to live panics when \<open>chrono\<close> overflows; the functions return
  \<open>Panic\<close> then, together with the state that the panic leaves behind.
\<close>

subsection \<open>Entries and the store\<close>

definition TYPE_STRING :: string where "TYPE_STRING = ''string''"
definition TYPE_LONG :: string where "TYPE_LONG = ''long''"

record cache_entry =
  ce_value :: bytes
  ce_value_type :: string
  ce_expire_at :: "int option"
  ce_last_accessed :: int

definition entry_expired :: "cache_entry \<Rightarrow> int \<Rightarrow> bool" where
  "entry_expired e now = (case ce_expire_at e of None \<Rightarrow> False | Some deadline \<Rightarrow> deadline \<le> now)"

record cache_store =
  inner :: "(string, cache_entry) hmap"
  max_entries :: nat
  poisoned :: bool

definition cache_new :: "nat \<Rightarrow> cache_store" where
  "cache_new n = \<lparr>inner = [], max_entries = max n 1, poisoned = False\<rparr>"

definition expire_at_utc :: "chrono \<Rightarrow> int \<Rightarrow> int \<Rightarrow> int option outcome" where
  "expire_at_utc ch now ttl_secs =
     (if ttl_secs \<le> 0 then Returned None
      else case add_secs ch now ttl_secs of None \<Rightarrow> Panic | Some d \<Rightarrow> Returned (Some d))"

definition normalize_value_type :: "string \<Rightarrow> string" where
  "normalize_value_type value_type =
     (let value_type = trim value_type in if value_type = [] then TYPE_STRING else value_type)"

definition cache_parse_i64 :: "bytes \<Rightarrow> int option" where
  "cache_parse_i64 bytes = (case from_utf8 bytes of None \<Rightarrow> None | Some s \<Rightarrow> parse_int (trim s))"

subsection \<open>Operations\<close>

text \<open>\<open>min_by_key\<close> on \<open>last_accessed\<close>: the first minimal entry in iteration order.\<close>

fun lru :: "(string, cache_entry) hmap \<Rightarrow> string option" where
  "lru [] = None"
| "lru ((k, e) # m) =
     (case lru m of
        None \<Rightarrow> Some k
      | Some k' \<Rightarrow>
          (case hget m k' of
             None \<Rightarrow> Some k
           | Some e' \<Rightarrow> if ce_last_accessed e' < ce_last_accessed e then Some k' else Some k))"

lemma lru_mem: "lru m = Some k \<Longrightarrow> k \<in> fst ` set m"
  by (induction m arbitrary: k rule: lru.induct) (auto split: option.splits if_splits)

lemma lru_None_iff: "lru m = None \<longleftrightarrow> m = []"
  by (induction m rule: lru.induct) (auto split: option.splits)

lemma length_hdel_less: "k \<in> fst ` set m \<Longrightarrow> length (hdel k m) < length m"
  by (auto simp: AList.delete_eq intro!: length_filter_less)

function evict :: "nat \<Rightarrow> (string, cache_entry) hmap \<Rightarrow> (string, cache_entry) hmap" where
  "evict limit m =
     (if limit < length m then
        (case lru m of None \<Rightarrow> m | Some k \<Rightarrow> evict limit (hdel k m))
      else m)"
  by pat_completeness auto
termination
  by (relation "measure (\<lambda>(l, m). length m)") (auto dest!: lru_mem intro: length_hdel_less)

declare evict.simps [simp del]

definition cache_set ::
  "chrono \<Rightarrow> int \<Rightarrow> int \<Rightarrow> int \<Rightarrow> string \<Rightarrow> bytes \<Rightarrow> string \<Rightarrow> int \<Rightarrow> cache_store
   \<Rightarrow> cache_store \<times> unit outcome" where
  "cache_set ch t_expire t_access now key v value_type ttl_secs s =
     (case expire_at_utc ch t_expire ttl_secs of
        Panic \<Rightarrow> (s, Panic)
      | Returned expire \<Rightarrow>
          let entry = \<lparr>ce_value = v, ce_value_type = normalize_value_type value_type,
                       ce_expire_at = expire, ce_last_accessed = t_access\<rparr>
          in if poisoned s then (s, Panic)
             else let m = hput key entry (inner s) in
               if max_entries s < length m
               then (s\<lparr>inner := evict (max_entries s) (filter (\<lambda>(_, e). \<not> entry_expired e now) m)\<rparr>,
                     Returned ())
               else (s\<lparr>inner := m\<rparr>, Returned ()))"

definition cache_get ::
  "int \<Rightarrow> string \<Rightarrow> cache_store \<Rightarrow> cache_store \<times> (bytes \<times> string) option outcome" where
  "cache_get now key s =
     (if poisoned s then (s, Panic)
      else case hget (inner s) key of
        None \<Rightarrow> (s, Returned None)
      | Some e \<Rightarrow>
          if entry_expired e now then (s\<lparr>inner := hdel key (inner s)\<rparr>, Returned None)
          else (s\<lparr>inner := hput key (e\<lparr>ce_last_accessed := now\<rparr>) (inner s)\<rparr>,
                Returned (Some (ce_value e, ce_value_type e))))"

definition cache_delete :: "string \<Rightarrow> cache_store \<Rightarrow> cache_store \<times> bool outcome" where
  "cache_delete key s =
     (if poisoned s then (s, Panic)
      else (s\<lparr>inner := hdel key (inner s)\<rparr>, Returned (hget (inner s) key \<noteq> None)))"

text \<open>
  \<open>incr\<close>: the addition wraps in the release build. \<open>t_expire\<close> and \<open>t_access\<close> are the clock
  readings of a new entry; a panic of \<open>expire_at_utc\<close> happens with the map locked.
\<close>

definition cache_incr ::
  "chrono \<Rightarrow> int \<Rightarrow> int \<Rightarrow> int \<Rightarrow> string \<Rightarrow> int \<Rightarrow> int \<Rightarrow> cache_store
   \<Rightarrow> cache_store \<times> (string + int) outcome" where
  "cache_incr ch now t_expire t_access key delta ttl_secs s =
     (if poisoned s then (s, Panic)
      else
        let m = (case hget (inner s) key of
                   None \<Rightarrow> inner s
                 | Some e \<Rightarrow> if entry_expired e now then hdel key (inner s) else inner s)
        in case hget m key of
             Some e \<Rightarrow>
               (case cache_parse_i64 (ce_value e) of
                  None \<Rightarrow> (s\<lparr>inner := m\<rparr>, Returned (Inl (''cache value is not a number for key '' @ key)))
                | Some current \<Rightarrow>
                    let next = wrap_i64 (current + delta);
                        e' = e\<lparr>ce_value := as_bytes (show_int next), ce_value_type := TYPE_LONG,
                              ce_last_accessed := now\<rparr>
                    in (s\<lparr>inner := hput key e' m\<rparr>, Returned (Inr next)))
           | None \<Rightarrow>
               (case expire_at_utc ch t_expire ttl_secs of
                  Panic \<Rightarrow> (s\<lparr>inner := m, poisoned := True\<rparr>, Panic)
                | Returned expire \<Rightarrow>
                    (s\<lparr>inner := hput key \<lparr>ce_value = as_bytes (show_int delta), ce_value_type = TYPE_LONG,
                         ce_expire_at = expire, ce_last_accessed = t_access\<rparr> m\<rparr>, Returned (Inr delta))))"

definition cache_expire ::
  "chrono \<Rightarrow> int \<Rightarrow> int \<Rightarrow> string \<Rightarrow> int \<Rightarrow> cache_store \<Rightarrow> cache_store \<times> bool outcome" where
  "cache_expire ch now t_expire key ttl_secs s =
     (if poisoned s then (s, Panic)
      else case hget (inner s) key of
        None \<Rightarrow> (s, Returned False)
      | Some e \<Rightarrow>
          if entry_expired e now then (s\<lparr>inner := hdel key (inner s)\<rparr>, Returned False)
          else (case expire_at_utc ch t_expire ttl_secs of
                  Panic \<Rightarrow> (s\<lparr>poisoned := True\<rparr>, Panic)
                | Returned expire \<Rightarrow>
                    (s\<lparr>inner := hput key (e\<lparr>ce_expire_at := expire\<rparr>) (inner s)\<rparr>, Returned True)))"

definition cache_ttl ::
  "chrono \<Rightarrow> int \<Rightarrow> int \<Rightarrow> string \<Rightarrow> cache_store \<Rightarrow> cache_store \<times> int outcome" where
  "cache_ttl ch now now2 key s =
     (if poisoned s then (s, Panic)
      else case hget (inner s) key of
        None \<Rightarrow> (s, Returned (- 2))
      | Some e \<Rightarrow>
          (case ce_expire_at e of
             None \<Rightarrow> (s, Returned (- 1))
           | Some deadline \<Rightarrow>
               if deadline \<le> now then (s\<lparr>inner := hdel key (inner s)\<rparr>, Returned (- 2))
               else (s, Returned (max (num_seconds ch (deadline - now2)) 0))))"

definition cache_exists ::
  "chrono \<Rightarrow> int \<Rightarrow> int \<Rightarrow> string \<Rightarrow> cache_store \<Rightarrow> cache_store \<times> bool outcome" where
  "cache_exists ch now now2 key s =
     (case cache_ttl ch now now2 key s of
        (s, Panic) \<Rightarrow> (s, Panic)
      | (s, Returned t) \<Rightarrow> (s, Returned (t \<noteq> - 2)))"

definition cache_purge_expired :: "int \<Rightarrow> cache_store \<Rightarrow> cache_store \<times> nat outcome" where
  "cache_purge_expired now s =
     (if poisoned s then (s, Panic)
      else let before = length (inner s);
               m = filter (\<lambda>(_, e). \<not> entry_expired e now) (inner s)
           in (s\<lparr>inner := m\<rparr>, Returned (before - length m)))"

definition cache_entries ::
  "chrono \<Rightarrow> int \<Rightarrow> cache_store \<Rightarrow> cache_store \<times> (string \<times> bytes \<times> string \<times> int) list outcome" where
  "cache_entries ch now s =
     (if poisoned s then (s, Panic)
      else let m = filter (\<lambda>(_, e). \<not> entry_expired e now) (inner s);
               rows = map (\<lambda>(key, e). (key, ce_value e, ce_value_type e,
                        case ce_expire_at e of
                          None \<Rightarrow> - 1
                        | Some deadline \<Rightarrow> max (num_seconds ch (deadline - now)) 0)) m
           in (s\<lparr>inner := m\<rparr>, Returned (sort_key fst rows)))"

subsection \<open>The gRPC handlers\<close>

definition require_key :: "string \<Rightarrow> status + string" where
  "require_key v =
     (let v = trim v in if v = [] then Inl (InvalidArgument ''key is required'') else Inr v)"

definition cache_service_set ::
  "chrono \<Rightarrow> int \<Rightarrow> int \<Rightarrow> int \<Rightarrow> string \<Rightarrow> bytes \<Rightarrow> string \<Rightarrow> int \<Rightarrow> cache_store
   \<Rightarrow> cache_store \<times> (status + bool) outcome" where
  "cache_service_set ch t_expire t_access now key v value_type ttl_secs s =
     (case require_key key of
        Inl e \<Rightarrow> (s, Returned (Inl e))
      | Inr key \<Rightarrow>
          (case cache_set ch t_expire t_access now key v value_type ttl_secs s of
             (s, Panic) \<Rightarrow> (s, Panic)
           | (s, Returned ()) \<Rightarrow> (s, Returned (Inr True))))"

definition cache_service_get ::
  "int \<Rightarrow> string \<Rightarrow> cache_store \<Rightarrow> cache_store \<times> (status + bool \<times> bytes \<times> string) outcome" where
  "cache_service_get now key s =
     (case require_key key of
        Inl e \<Rightarrow> (s, Returned (Inl e))
      | Inr key \<Rightarrow>
          (case cache_get now key s of
             (s, Panic) \<Rightarrow> (s, Panic)
           | (s, Returned None) \<Rightarrow> (s, Returned (Inr (False, [], [])))
           | (s, Returned (Some (v, t))) \<Rightarrow> (s, Returned (Inr (True, v, t)))))"

definition cache_service_delete ::
  "string \<Rightarrow> cache_store \<Rightarrow> cache_store \<times> (status + bool) outcome" where
  "cache_service_delete key s =
     (case require_key key of
        Inl e \<Rightarrow> (s, Returned (Inl e))
      | Inr key \<Rightarrow>
          (case cache_delete key s of
             (s, Panic) \<Rightarrow> (s, Panic)
           | (s, Returned d) \<Rightarrow> (s, Returned (Inr d))))"

definition cache_service_incr ::
  "chrono \<Rightarrow> int \<Rightarrow> int \<Rightarrow> int \<Rightarrow> string \<Rightarrow> int \<Rightarrow> int \<Rightarrow> cache_store
   \<Rightarrow> cache_store \<times> (status + int) outcome" where
  "cache_service_incr ch now t_expire t_access key delta ttl_secs s =
     (case require_key key of
        Inl e \<Rightarrow> (s, Returned (Inl e))
      | Inr key \<Rightarrow>
          (case cache_incr ch now t_expire t_access key delta ttl_secs s of
             (s, Panic) \<Rightarrow> (s, Panic)
           | (s, Returned (Inl error)) \<Rightarrow>
               (s, Returned (Inl (InvalidArgument (''cache incr failed: '' @ error))))
           | (s, Returned (Inr v)) \<Rightarrow> (s, Returned (Inr v))))"

definition cache_service_expire ::
  "chrono \<Rightarrow> int \<Rightarrow> int \<Rightarrow> string \<Rightarrow> int \<Rightarrow> cache_store \<Rightarrow> cache_store \<times> (status + bool) outcome" where
  "cache_service_expire ch now t_expire key ttl_secs s =
     (case require_key key of
        Inl e \<Rightarrow> (s, Returned (Inl e))
      | Inr key \<Rightarrow>
          (case cache_expire ch now t_expire key ttl_secs s of
             (s, Panic) \<Rightarrow> (s, Panic)
           | (s, Returned ok) \<Rightarrow> (s, Returned (Inr ok))))"

definition cache_service_ttl ::
  "chrono \<Rightarrow> int \<Rightarrow> int \<Rightarrow> string \<Rightarrow> cache_store \<Rightarrow> cache_store \<times> (status + int) outcome" where
  "cache_service_ttl ch now now2 key s =
     (case require_key key of
        Inl e \<Rightarrow> (s, Returned (Inl e))
      | Inr key \<Rightarrow>
          (case cache_ttl ch now now2 key s of
             (s, Panic) \<Rightarrow> (s, Panic)
           | (s, Returned t) \<Rightarrow> (s, Returned (Inr t))))"

subsection \<open>Eviction\<close>

lemma lru_least:
  "hmap_ok m \<Longrightarrow> lru m = Some k \<Longrightarrow>
   \<exists>e. (k, e) \<in> set m \<and> (\<forall>p \<in> set m. ce_last_accessed e \<le> ce_last_accessed (snd p))"
proof (induction m arbitrary: k rule: lru.induct)
  case (2 a e m)
  then have ok: "hmap_ok m" by (simp add: hmap_ok_def)
  show ?case
  proof (cases "lru m")
    case None
    then have "m = []" by (simp add: lru_None_iff)
    with "2.prems" show ?thesis by simp
  next
    case (Some k')
    from "2.IH" [OF ok Some] obtain e' where e': "(k', e') \<in> set m"
      "\<forall>p \<in> set m. ce_last_accessed e' \<le> ce_last_accessed (snd p)" by blast
    then have "hget m k' = Some e'" using ok by (simp add: hget_iff_mem)
    with Some e' "2.prems"(2) show ?thesis
      by (fastforce split: if_splits)
  qed
qed simp

definition lru_kept :: "(string, cache_entry) hmap \<Rightarrow> (string, cache_entry) hmap \<Rightarrow> bool" where
  "lru_kept m m' \<longleftrightarrow>
     set m' \<subseteq> set m \<and>
     (\<forall>kept \<in> set m'. \<forall>gone \<in> set m - set m'.
        ce_last_accessed (snd gone) \<le> ce_last_accessed (snd kept))"

lemma evict_spec:
  "hmap_ok m \<Longrightarrow>
   hmap_ok (evict l m) \<and> length (evict l m) = min l (length m) \<and> lru_kept m (evict l m)"
proof (induction l m rule: evict.induct)
  case (1 l m)
  show ?case
  proof (cases "l < length m")
    case False
    then show ?thesis using "1.prems" by (simp add: evict.simps [of l m] lru_kept_def)
  next
    case True
    then obtain k where k: "lru m = Some k"
      using lru_None_iff [of m] by fastforce
    from lru_least [OF "1.prems" k] obtain e where e: "(k, e) \<in> set m"
      "\<forall>p \<in> set m. ce_last_accessed e \<le> ce_last_accessed (snd p)" by blast
    have step: "evict l m = evict l (hdel k m)" using True k by (simp add: evict.simps [of l m])
    have del: "p \<in> set (hdel k m) \<longleftrightarrow> p \<in> set m \<and> fst p \<noteq> k" for p
      by (auto simp: AList.delete_eq)
    have gone: "p = (k, e)" if "p \<in> set m" "fst p = k" for p
      using that e(1) "1.prems" hget_iff_mem [of m k] by (metis option.inject prod.collapse)
    have "hget m k = Some e" using e(1) "1.prems" by (simp add: hget_iff_mem)
    then have len: "length (hdel k m) = length m - 1" using "1.prems" by (simp add: length_hdel)
    from "1.IH" [OF True k] "1.prems" have ih: "hmap_ok (evict l (hdel k m))"
      "length (evict l (hdel k m)) = min l (length m - 1)" "lru_kept (hdel k m) (evict l (hdel k m))"
      by (simp_all add: len)
    have "lru_kept m (evict l (hdel k m))"
      unfolding lru_kept_def
    proof (intro conjI ballI)
      show sub: "set (evict l (hdel k m)) \<subseteq> set m" using ih(3) del by (auto simp: lru_kept_def)
      fix kept g assume k': "kept \<in> set (evict l (hdel k m))" "g \<in> set m - set (evict l (hdel k m))"
      show "ce_last_accessed (snd g) \<le> ce_last_accessed (snd kept)"
      proof (cases "fst g = k")
        case True
        with k' gone have "g = (k, e)" by blast
        with e(2) k' sub show ?thesis by auto
      next
        case False
        with k' ih(3) del show ?thesis by (auto simp: lru_kept_def)
      qed
    qed
    with ih True step show ?thesis by simp
  qed
qed

subsection \<open>The invariant\<close>

definition cache_ok :: "cache_store \<Rightarrow> bool" where
  "cache_ok s \<longleftrightarrow> hmap_ok (inner s) \<and> 0 < max_entries s"

lemma cache_new_ok [simp]: "cache_ok (cache_new n)"
  by (simp add: cache_ok_def cache_new_def)

text \<open>An arbitrary sequence of operations of any callers.\<close>

datatype cache_op =
  OpSet int int int string bytes string int
| OpGet int string
| OpDelete string
| OpIncr int int int string int int
| OpExpire int int string int
| OpTtl int int string
| OpPurge int
| OpEntries int

fun cache_apply :: "chrono \<Rightarrow> cache_op \<Rightarrow> cache_store \<Rightarrow> cache_store" where
  "cache_apply ch (OpSet t1 t2 t3 k v ty ttl) s = fst (cache_set ch t1 t2 t3 k v ty ttl s)"
| "cache_apply ch (OpGet t k) s = fst (cache_get t k s)"
| "cache_apply ch (OpDelete k) s = fst (cache_delete k s)"
| "cache_apply ch (OpIncr t1 t2 t3 k d ttl) s = fst (cache_incr ch t1 t2 t3 k d ttl s)"
| "cache_apply ch (OpExpire t1 t2 k ttl) s = fst (cache_expire ch t1 t2 k ttl s)"
| "cache_apply ch (OpTtl t1 t2 k) s = fst (cache_ttl ch t1 t2 k s)"
| "cache_apply ch (OpPurge t) s = fst (cache_purge_expired t s)"
| "cache_apply ch (OpEntries t) s = fst (cache_entries ch t s)"

fun is_incr :: "cache_op \<Rightarrow> bool" where
  "is_incr (OpIncr _ _ _ _ _ _) = True"
| "is_incr _ = False"

lemmas cache_op_defs = cache_set_def cache_get_def cache_delete_def cache_incr_def cache_expire_def
  cache_ttl_def cache_purge_expired_def cache_entries_def

lemma length_hdel_le: "length (hdel k m) \<le> length m"
  by (simp add: AList.delete_eq)

lemma length_hput_present: "hget m k = Some e \<Longrightarrow> length (hput k v m) = length m"
  by (simp add: length_hput)

lemma cache_apply_ok:
  assumes "cache_ok s"
  shows "cache_ok (cache_apply ch op s) \<and> max_entries (cache_apply ch op s) = max_entries s"
  using assms
  by (cases op) (auto simp: cache_ok_def cache_op_defs Let_def evict_spec
      split: outcome.splits option.splits sum.splits)

lemma cache_apply_length:
  assumes "cache_ok s" "length (inner s) \<le> max_entries s"
  shows "length (inner (cache_apply ch op s)) \<le> max_entries s + (if is_incr op then 1 else 0)"
proof (cases op)
  case (OpSet t1 t2 t3 k v ty ttl)
  then show ?thesis using assms
    by (auto simp: cache_set_def Let_def cache_ok_def evict_spec split: outcome.split)
next
  case (OpIncr t1 t2 t3 k d ttl)
  then show ?thesis using assms length_hdel_le [of k "inner s"]
    by (auto simp: cache_incr_def Let_def length_hput split: outcome.splits option.splits)
qed (use assms length_hdel_le [of _ "inner s"] in
    \<open>auto simp: cache_op_defs Let_def length_hput_present
      intro: order_trans [OF length_filter_le] order_trans [OF length_hdel_le]
      split: outcome.splits option.splits\<close>)

lemma cache_run_length:
  assumes "cache_ok s" "length (inner s) \<le> max_entries s" "list_all (\<lambda>op. \<not> is_incr op) ops"
  shows "let s' = fold (cache_apply ch) ops s in
    cache_ok s' \<and> max_entries s' = max_entries s \<and> length (inner s') \<le> max_entries s"
  using assms
proof (induction ops arbitrary: s)
  case (Cons op ops)
  from Cons.prems cache_apply_ok [of s ch op] cache_apply_length [of s ch op]
  show ?case using Cons.IH [of "cache_apply ch op s"] by (simp add: Let_def)
qed (simp add: Let_def)

subsection \<open>Reading back\<close>

lemma hput_in_set: "(k, v) \<in> set (hput k v m)"
  by (metis hget_put map_of_SomeD)

lemma hput_other: "p \<in> set (hput k v m) \<Longrightarrow> hmap_ok m \<Longrightarrow> p = (k, v) \<or> p \<in> set m \<and> fst p \<noteq> k"
  by (cases p) (metis fst_conv hget_iff_mem hget_put hmap_ok_put option.inject)

lemma evict_keeps_newest:
  assumes ok: "hmap_ok m" and p: "p \<in> set m" and l: "0 < l"
    and newest: "\<forall>q \<in> set m. q \<noteq> p \<longrightarrow> ce_last_accessed (snd q) < ce_last_accessed (snd p)"
  shows "p \<in> set (evict l m)"
proof (rule ccontr)
  assume gone: "p \<notin> set (evict l m)"
  note spec = evict_spec [OF ok, of l]
  have "0 < length m" using p by (cases m) auto
  with spec l have "0 < length (evict l m)" by (simp add: min_def)
  then obtain q where q: "q \<in> set (evict l m)" by (cases "evict l m") auto
  with spec have "q \<in> set m" "ce_last_accessed (snd p) \<le> ce_last_accessed (snd q)"
    using p gone by (auto simp: lru_kept_def)
  with newest gone q show False by fastforce
qed

lemma set_then_stored:
  assumes ok: "cache_ok s" "\<not> poisoned s"
    and exp: "expire_at_utc ch t1 ttl = Returned ex"
    and newest: "\<forall>(k, e) \<in> set (inner s). k \<noteq> key \<longrightarrow> ce_last_accessed e < t2"
    and live: "\<And>d. ex = Some d \<Longrightarrow> t3 < d"
  shows "let s' = fst (cache_set ch t1 t2 t3 key v ty ttl s) in
    cache_ok s' \<and> \<not> poisoned s' \<and>
    hget (inner s') key = Some \<lparr>ce_value = v, ce_value_type = normalize_value_type ty,
                                 ce_expire_at = ex, ce_last_accessed = t2\<rparr>"
proof -
  let ?e = "\<lparr>ce_value = v, ce_value_type = normalize_value_type ty,
              ce_expire_at = ex, ce_last_accessed = t2\<rparr>"
  let ?m = "hput key ?e (inner s)"
  let ?f = "filter (\<lambda>(_, e). \<not> entry_expired e t3) ?m"
  have okm: "hmap_ok ?m" "hmap_ok ?f" using ok by (simp_all add: cache_ok_def)
  have "\<not> entry_expired ?e t3" using live by (auto simp: entry_expired_def split: option.split)
  then have "(key, ?e) \<in> set ?f" using hput_in_set [of key ?e "inner s"] by simp
  moreover have "ce_last_accessed (snd q) < ce_last_accessed ?e" if "q \<in> set ?f" "q \<noteq> (key, ?e)" for q
    using that newest hput_other [of q key ?e "inner s"] ok by (fastforce simp: cache_ok_def)
  ultimately have "(key, ?e) \<in> set (evict (max_entries s) ?f)"
    using ok okm by (intro evict_keeps_newest) (auto simp: cache_ok_def)
  then have "hget (evict (max_entries s) ?f) key = Some ?e"
    using evict_spec [OF okm(2), of "max_entries s"] by (simp add: hget_iff_mem)
  moreover have "cache_ok (fst (cache_set ch t1 t2 t3 key v ty ttl s))"
    using cache_apply_ok [OF ok(1), of ch "OpSet t1 t2 t3 key v ty ttl"] by simp
  ultimately show ?thesis using ok exp by (simp add: cache_set_def Let_def)
qed

lemma cache_parse_show: "in_i64 x \<Longrightarrow> cache_parse_i64 (as_bytes (show_int x)) = Some x"
  using solid_show_int [of x]
  by (simp add: cache_parse_i64_def is_str_solid trim_solid parse_int_show_int)

text \<open>The key holds a number and does not expire.\<close>

definition holds_number :: "cache_store \<Rightarrow> string \<Rightarrow> int \<Rightarrow> bool" where
  "holds_number s key n \<longleftrightarrow>
     \<not> poisoned s \<and>
     (case hget (inner s) key of
        None \<Rightarrow> False
      | Some e \<Rightarrow> ce_expire_at e = None \<and> cache_parse_i64 (ce_value e) = Some n)"

lemma incr_step:
  assumes "holds_number s key n"
  shows "snd (cache_incr ch t1 t2 t3 key d ttl s) = Returned (Inr (wrap_i64 (n + d)))"
    "holds_number (fst (cache_incr ch t1 t2 t3 key d ttl s)) key (wrap_i64 (n + d))"
  using assms
  by (auto simp: holds_number_def cache_incr_def entry_expired_def Let_def cache_parse_show
      split: option.splits)

text \<open>Calls of \<open>incr\<close> with a list of clock readings, deltas and times to live.\<close>

fun incr_run :: "chrono \<Rightarrow> string \<Rightarrow> (int \<times> int \<times> int \<times> int \<times> int) list \<Rightarrow> cache_store \<Rightarrow> cache_store" where
  "incr_run ch key [] s = s"
| "incr_run ch key ((t1, t2, t3, d, ttl) # calls) s =
     incr_run ch key calls (fst (cache_incr ch t1 t2 t3 key d ttl s))"

lemma incr_run_sum:
  "holds_number s key n \<Longrightarrow>
   holds_number (incr_run ch key calls s) key (wrap_i64 (n + (\<Sum>(t1, t2, t3, d, ttl) \<leftarrow> calls. d)))
   \<or> calls = []"
proof (induction calls arbitrary: s n)
  case (Cons c calls)
  obtain t1 t2 t3 d ttl where c: "c = (t1, t2, t3, d, ttl)" by (cases c)
  let ?s = "fst (cache_incr ch t1 t2 t3 key d ttl s)"
  note step = incr_step(2) [OF Cons.prems, of ch t1 t2 t3 d ttl]
  from Cons.IH [OF step] show ?case
    using step by (auto simp: c wrap_i64_add add.assoc)
qed simp

subsection \<open>Properties\<close>

text \<open>Whatever sequence of \<open>set\<close>, \<open>get\<close>, \<open>delete\<close>, \<open>expire\<close>, \<open>ttl\<close>, purges and listings is
  run on a cache within its capacity, it stays within its capacity, and its keys stay distinct.
  (\<open>incr\<close> is the one operation that may create an entry without evicting.)\<close>

theorem cache_capacity:
  assumes "cache_ok s" "length (inner s) \<le> max_entries s" "list_all (\<lambda>op. \<not> is_incr op) ops"
  shows "length (inner (fold (cache_apply ch) ops s)) \<le> max_entries s \<and>
    cache_ok (fold (cache_apply ch) ops s)"
  using cache_run_length [OF assms] by (simp add: Let_def)

theorem cache_capacity_witness:
  "length (inner (fold (cache_apply plain_chrono)
     [OpSet 1 1 1 ''a'' [1] [] 0, OpSet 2 2 2 ''b'' [2] [] 0] (cache_new 1))) \<le> 1 \<and>
   cache_ok (fold (cache_apply plain_chrono)
     [OpSet 1 1 1 ''a'' [1] [] 0, OpSet 2 2 2 ''b'' [2] [] 0] (cache_new 1))"
  using cache_capacity [OF cache_new_ok, of 1
      "[OpSet 1 1 1 ''a'' [1] [] 0, OpSet 2 2 2 ''b'' [2] [] 0]" plain_chrono]
  by (simp add: cache_new_def)

text \<open>C36. A value just stored is read back with its normalised type, even when storing it made
  the cache evict: if the new entry is the most recently used one and has not expired, \<open>get\<close>
  returns it.\<close>

theorem cache_set_get:
  assumes "cache_ok s" "\<not> poisoned s" "expire_at_utc ch t1 ttl = Returned ex"
    and "\<forall>(k, e) \<in> set (inner s). k \<noteq> key \<longrightarrow> ce_last_accessed e < t2"
    and "\<And>d. ex = Some d \<Longrightarrow> t3 < d \<and> t4 < d"
  shows "snd (cache_get t4 key (fst (cache_set ch t1 t2 t3 key v ty ttl s)))
    = Returned (Some (v, normalize_value_type ty))"
proof -
  note st = set_then_stored [OF assms(1-4), of t3 v ty] 
  with assms(5) show ?thesis
    by (auto simp: cache_get_def Let_def entry_expired_def split: option.splits)
qed

theorem cache_set_get_witness:
  "snd (cache_get 4 ''b'' (fst (cache_set plain_chrono 1 2 3 ''b'' [7] '' '' 5
     \<lparr>inner = [(''a'', \<lparr>ce_value = [], ce_value_type = ''string'', ce_expire_at = None,
                        ce_last_accessed = 0\<rparr>)], max_entries = 1, poisoned = False\<rparr>)))
   = Returned (Some ([7], normalize_value_type '' ''))"
  by (rule cache_set_get [where ex = "Some 5000000001"])
    (simp_all add: cache_ok_def hmap_ok_def expire_at_utc_def)

text \<open>\<open>set\<close> evicts by recency: when it has to make room, it first drops what has expired,
  and of the rest every entry it drops was used no later than every entry it keeps.\<close>

theorem cache_set_evicts_lru:
  assumes "cache_ok s" "\<not> poisoned s" "expire_at_utc ch t1 ttl = Returned ex"
    and "e = \<lparr>ce_value = v, ce_value_type = normalize_value_type ty, ce_expire_at = ex,
              ce_last_accessed = t2\<rparr>"
    and "max_entries s < length (hput key e (inner s))"
    and "kept \<in> set (inner (fst (cache_set ch t1 t2 t3 key v ty ttl s)))"
    and "gone \<in> set (hput key e (inner s))" "\<not> entry_expired (snd gone) t3"
    and "gone \<notin> set (inner (fst (cache_set ch t1 t2 t3 key v ty ttl s)))"
  shows "ce_last_accessed (snd gone) \<le> ce_last_accessed (snd kept) \<and> \<not> entry_expired (snd kept) t3"
proof -
  define f where "f = filter (\<lambda>(_, e). \<not> entry_expired e t3) (hput key e (inner s))"
  define m where "m = evict (max_entries s) f"
  have m: "inner (fst (cache_set ch t1 t2 t3 key v ty ttl s)) = m"
    using assms(2-5) by (simp add: cache_set_def Let_def m_def f_def)
  have kept: "lru_kept f m"
    using evict_spec assms(1) by (simp add: cache_ok_def m_def f_def)
  have gone: "gone \<in> set f - set m"
    using assms(7-9) unfolding m by (simp add: f_def case_prod_beta)
  have "kept \<in> set m" using assms(6) unfolding m .
  with kept gone have "ce_last_accessed (snd gone) \<le> ce_last_accessed (snd kept)" "kept \<in> set f"
    unfolding lru_kept_def by blast+
  then show ?thesis by (simp add: f_def case_prod_beta)
qed

theorem cache_set_evicts_lru_witness:
  "ce_last_accessed (snd (''a'', \<lparr>ce_value = [], ce_value_type = ''string'', ce_expire_at = None,
                                ce_last_accessed = 0\<rparr>))
   \<le> ce_last_accessed (snd (''b'', \<lparr>ce_value = [7], ce_value_type = ''string'', ce_expire_at = None,
                                ce_last_accessed = 2\<rparr>)) \<and>
   \<not> entry_expired (snd (''b'', \<lparr>ce_value = [7], ce_value_type = ''string'', ce_expire_at = None,
                                ce_last_accessed = 2\<rparr>)) 3"
proof (rule cache_set_evicts_lru [where s = "\<lparr>inner = [(''a'', \<lparr>ce_value = [],
      ce_value_type = ''string'', ce_expire_at = None, ce_last_accessed = 0\<rparr>)], max_entries = 1,
      poisoned = False\<rparr>" and key = "''b''" and v = "[7]" and ty = "''string''" and ttl = 0
      and ch = plain_chrono and ?t1.0 = 1 and ?t2.0 = 2 and ?t3.0 = 3 and ex = None])
qed (simp_all add: cache_ok_def hmap_ok_def expire_at_utc_def cache_set_def normalize_value_type_def
    TYPE_STRING_def evict.simps entry_expired_def trim_solid solid_def Let_def)

text \<open>Counters add up: a sequence of \<open>incr\<close> calls on a key that holds a number and does not
  expire leaves the key holding the wrapped 64-bit sum, whatever the clock readings.\<close>

theorem cache_incr_sums:
  assumes "holds_number s key n" "calls \<noteq> []"
  shows "holds_number (incr_run ch key calls s) key
    (wrap_i64 (n + (\<Sum>(t1, t2, t3, d, ttl) \<leftarrow> calls. d)))"
  using incr_run_sum [OF assms(1)] assms(2) by blast

theorem cache_incr_sums_witness:
  "holds_number (incr_run plain_chrono ''n'' [(1, 1, 1, 5, 0), (2, 2, 2, - 7, 0)]
     (fst (cache_incr plain_chrono 0 0 0 ''n'' 3 0 (cache_new 5)))) ''n'' (wrap_i64 (3 + (5 + (- 7 + 0))))"
proof -
  have "in_i64 3" by (simp add: in_i64_def i64_min_def i64_max_def)
  then have "holds_number (fst (cache_incr plain_chrono 0 0 0 ''n'' 3 0 (cache_new 5))) ''n'' 3"
    by (simp add: holds_number_def cache_incr_def cache_new_def expire_at_utc_def cache_parse_show)
  from cache_incr_sums [OF this, of "[(1, 1, 1, 5, 0), (2, 2, 2, - 7, 0)]" plain_chrono]
  show ?thesis by simp
qed

text \<open>\<open>incr\<close> on a new key does not evict: a full cache grows past its capacity.\<close>

lemma incr_exceeds_capacity:
  "length (inner (fst (cache_incr ch 2 2 2 ''b'' 1 0
     (fst (cache_incr ch 1 1 1 ''a'' 1 0 (cache_new 1)))))) = 2"
  by (simp add: cache_incr_def cache_new_def expire_at_utc_def)

text \<open>\<open>incr\<close> on a new key with a time to live that \<open>chrono\<close> cannot add poisons the mutex, and
  every later operation panics.\<close>

lemma incr_poisons:
  assumes "\<not> poisoned s" "hget (inner s) key = None" "0 < ttl" "add_secs ch t2 ttl = None"
  shows "let s' = fst (cache_incr ch t1 t2 t3 key d ttl s) in
    snd (cache_get t k s') = Panic \<and> snd (cache_set ch t4 t5 t6 k v ty 0 s') = Panic"
  using assms
  by (simp add: cache_incr_def cache_get_def cache_set_def expire_at_utc_def Let_def)

end
