(* ===== verification/Lease.thy ===== *)
theory Lease
  imports Sql
begin

text \<open>
  The contract that the distributed locks and the leader election have in common: a keyed lease
  with an expiry. \<open>holder s k t\<close> is who holds \<open>k\<close> at time \<open>t\<close>; \<open>acquire k c now ttl s\<close> is one
  attempt of the client \<open>c\<close>. \<open>ok_time\<close> and \<open>ok_call\<close> are the times and attempts that the
  provider can represent. What follows for any sequence of attempts is proved once here and
  obtained for both providers by interpretation.
\<close>

text \<open>Attempts \<open>(key, client, now, ttl)\<close> one after the other, with their results.\<close>

fun attempts :: "('k \<Rightarrow> 'c \<Rightarrow> int \<Rightarrow> int \<Rightarrow> 's \<Rightarrow> 's \<times> bool) \<Rightarrow>
    ('k \<times> 'c \<times> int \<times> int) list \<Rightarrow> 's \<Rightarrow> 's \<times> bool list" where
  "attempts acquire [] s = (s, [])"
| "attempts acquire ((k, c, now, ttl) # as) s =
     (let (s', won) = acquire k c now ttl s; (s'', wons) = attempts acquire as s'
      in (s'', won # wons))"

locale lease_contract =
  fixes holder :: "'s \<Rightarrow> 'k \<Rightarrow> int \<Rightarrow> 'c option"
    and acquire :: "'k \<Rightarrow> 'c \<Rightarrow> int \<Rightarrow> int \<Rightarrow> 's \<Rightarrow> 's \<times> bool"
    and inv :: "'s \<Rightarrow> bool"
    and ok_time :: "int \<Rightarrow> bool"
    and ok_call :: "int \<Rightarrow> int \<Rightarrow> bool"
  assumes ok_call_time: "ok_call now ttl \<Longrightarrow> ok_time now"
    and holder_antitone:
      "inv s \<Longrightarrow> ok_time t \<Longrightarrow> ok_time u \<Longrightarrow> t \<le> u \<Longrightarrow> holder s k u = Some c \<Longrightarrow> holder s k t = Some c"
    and acquire_inv: "inv s \<Longrightarrow> ok_call now ttl \<Longrightarrow> inv (fst (acquire k c now ttl s))"
    and acquire_free:
      "inv s \<Longrightarrow> ok_call now ttl \<Longrightarrow> holder s k now = None \<Longrightarrow>
       snd (acquire k c now ttl s) \<and> holder (fst (acquire k c now ttl s)) k now = Some c"
    and acquire_held:
      "inv s \<Longrightarrow> ok_call now ttl \<Longrightarrow> holder s k now = Some h \<Longrightarrow>
       (snd (acquire k c now ttl s) \<longrightarrow> c = h) \<and> holder (fst (acquire k c now ttl s)) k = holder s k"
    and acquire_frame:
      "inv s \<Longrightarrow> ok_call now ttl \<Longrightarrow> j \<noteq> k \<Longrightarrow> holder (fst (acquire k c now ttl s)) j = holder s j"
begin

lemma winner_holds:
  assumes "inv s" "ok_call now ttl" "snd (acquire k c now ttl s)"
  shows "holder (fst (acquire k c now ttl s)) k now = Some c"
proof (cases "holder s k now")
  case None
  with assms acquire_free show ?thesis by blast
next
  case (Some h)
  with assms acquire_held [OF assms(1,2) Some, of c] show ?thesis by metis
qed

lemma attempt_keeps_holder:
  assumes "inv s" "ok_call now ttl" "ok_time T" "now \<le> T" "holder s k T = Some h"
  shows "holder (fst (acquire j c now ttl s)) k T = Some h"
    "j = k \<Longrightarrow> snd (acquire j c now ttl s) \<Longrightarrow> c = h"
proof -
  have now: "holder s k now = Some h"
    using holder_antitone assms ok_call_time by blast
  show "holder (fst (acquire j c now ttl s)) k T = Some h"
  proof (cases "j = k")
    case True
    with acquire_held [OF assms(1,2) now, of c] assms(5) show ?thesis by simp
  next
    case False
    with acquire_frame [OF assms(1,2), of k j c] assms(5) show ?thesis by simp
  qed
  show "j = k \<Longrightarrow> snd (acquire j c now ttl s) \<Longrightarrow> c = h"
    using acquire_held [OF assms(1,2) now, of c] by blast
qed

lemma attempts_exclusive:
  "inv s \<Longrightarrow> ok_time T \<Longrightarrow> holder s k T = Some h \<Longrightarrow>
   \<forall>(j, c, now, ttl) \<in> set as. ok_call now ttl \<and> now \<le> T \<Longrightarrow>
   holder (fst (attempts acquire as s)) k T = Some h \<and>
   (\<forall>c now ttl. ((k, c, now, ttl), True) \<in> set (zip as (snd (attempts acquire as s))) \<longrightarrow> c = h)"
proof (induction as arbitrary: s)
  case (Cons a as)
  obtain j d now ttl where a: "a = (j, d, now, ttl)" by (cases a)
  let ?s = "fst (acquire j d now ttl s)"
  have ok: "ok_call now ttl" "now \<le> T" using Cons.prems(4) a by auto
  note keep = attempt_keeps_holder [OF Cons.prems(1) ok(1) Cons.prems(2) ok(2) Cons.prems(3)]
  have inv: "inv ?s" using acquire_inv Cons.prems(1) ok(1) by blast
  have "\<forall>(j, c, now, ttl) \<in> set as. ok_call now ttl \<and> now \<le> T" using Cons.prems(4) by simp
  note ih = Cons.IH [OF inv Cons.prems(2) keep(1) this]
  show ?case using ih keep(2) by (auto simp: a split_beta Let_def)
qed simp

end

end
