(* ===== verification/Locks.thy ===== *)
theory Locks
  imports Lease Cache
begin

text \<open>
  The distributed locks of \<open>src/src/cache.rs\<close> (\<open>LockStore\<close> on the table \<open>sys_lock\<close>, with its
  primary key \<open>lock_key\<close>) and their gRPC handlers. Expiry times are stored as RFC 3339 text and
  compared as text by SQLite. Every SQL statement is a function of its own, so that attempts of
  several clients can be interleaved statement by statement.
\<close>

subsection \<open>The table and its statements\<close>

record lock_row =
  lock_key :: string
  lock_owner :: string
  lock_expire_at :: string
  lock_create_time :: string

type_synonym lock_table = "lock_row list"

definition lock_delete_expired :: "string \<Rightarrow> string \<Rightarrow> lock_table \<Rightarrow> nat \<times> lock_table" where
  "lock_delete_expired key now = sql_delete (\<lambda>r. lock_key r = key \<and> lock_expire_at r \<le> now)"

definition lock_insert :: "string \<Rightarrow> string \<Rightarrow> string \<Rightarrow> string \<Rightarrow> lock_table \<Rightarrow> nat \<times> lock_table" where
  "lock_insert key owner expire created =
     sql_insert_new lock_key \<lparr>lock_key = key, lock_owner = owner, lock_expire_at = expire,
                              lock_create_time = created\<rparr>"

definition lock_set_expire :: "string \<Rightarrow> lock_row \<Rightarrow> lock_row" where
  "lock_set_expire expire r = r\<lparr>lock_expire_at := expire\<rparr>"

interpretation lock_upd: keyed_update lock_key "lock_set_expire expire" for expire
  by unfold_locales (simp add: lock_set_expire_def)

subsection \<open>Operations\<close>

text \<open>
  \<open>acquire\<close> reads the clock three times: for the deletion, for the expiry and for the creation
  time. The addition of the time to live can panic after the deletion has been executed.
\<close>

definition lock_acquire ::
  "chrono \<Rightarrow> faults \<Rightarrow> int \<Rightarrow> int \<Rightarrow> int \<Rightarrow> string \<Rightarrow> string \<Rightarrow> int \<Rightarrow> lock_table
   \<Rightarrow> lock_table \<times> (sql_error + bool) outcome" where
  "lock_acquire ch flt t_delete t_expire t_create key owner ttl_secs rows =
     (if flt 0 then (rows, Returned (Inl SqlError))
      else let rows = snd (lock_delete_expired key (to_rfc3339 ch t_delete) rows) in
        case add_secs ch t_expire ttl_secs of
          None \<Rightarrow> (rows, Panic)
        | Some expire \<Rightarrow>
            if flt 1 then (rows, Returned (Inl SqlError))
            else let (n, rows) = lock_insert key owner (to_rfc3339 ch expire) (to_rfc3339 ch t_create) rows
                 in (rows, Returned (Inr (0 < n))))"

definition lock_renew ::
  "chrono \<Rightarrow> faults \<Rightarrow> int \<Rightarrow> string \<Rightarrow> string \<Rightarrow> int \<Rightarrow> lock_table
   \<Rightarrow> lock_table \<times> (sql_error + bool) outcome" where
  "lock_renew ch flt now key owner ttl_secs rows =
     (case add_secs ch now ttl_secs of
        None \<Rightarrow> (rows, Panic)
      | Some expire \<Rightarrow>
          if flt 0 then (rows, Returned (Inl SqlError))
          else let (n, rows) = sql_update (\<lambda>r. lock_key r = key \<and> lock_owner r = owner)
                                 (lock_set_expire (to_rfc3339 ch expire)) rows
               in (rows, Returned (Inr (0 < n))))"

definition lock_release ::
  "faults \<Rightarrow> string \<Rightarrow> string \<Rightarrow> lock_table \<Rightarrow> lock_table \<times> (sql_error + bool)" where
  "lock_release flt key owner rows =
     (if flt 0 then (rows, Inl SqlError)
      else let (n, rows) = sql_delete (\<lambda>r. lock_key r = key \<and> lock_owner r = owner) rows
           in (rows, Inr (0 < n)))"

definition is_expired :: "chrono \<Rightarrow> int \<Rightarrow> string option \<Rightarrow> bool" where
  "is_expired ch now expire =
     (case expire of
        None \<Rightarrow> False
      | Some v \<Rightarrow> (case parse_rfc3339 ch v of Some deadline \<Rightarrow> deadline \<le> now | None \<Rightarrow> True))"

definition lock_is_locked :: "chrono \<Rightarrow> faults \<Rightarrow> int \<Rightarrow> string \<Rightarrow> lock_table \<Rightarrow> sql_error + bool" where
  "lock_is_locked ch flt now key rows =
     (if flt 0 then Inl SqlError
      else case row_of lock_key key rows of
             None \<Rightarrow> Inr False
           | Some r \<Rightarrow> Inr (\<not> is_expired ch now (Some (lock_expire_at r))))"

definition lock_purge_expired ::
  "chrono \<Rightarrow> faults \<Rightarrow> int \<Rightarrow> lock_table \<Rightarrow> lock_table \<times> (sql_error + nat)" where
  "lock_purge_expired ch flt now rows =
     (if flt 0 then (rows, Inl SqlError)
      else let (n, rows) = sql_delete (\<lambda>r. lock_expire_at r \<le> to_rfc3339 ch now) rows
           in (rows, Inr n))"

definition lock_list ::
  "chrono \<Rightarrow> faults \<Rightarrow> int \<Rightarrow> lock_table
   \<Rightarrow> lock_table \<times> (sql_error + (string \<times> string \<times> string \<times> string) list)" where
  "lock_list ch flt now rows =
     (if flt 0 then (rows, Inl SqlError)
      else let rows = snd (sql_delete (\<lambda>r. lock_expire_at r \<le> to_rfc3339 ch now) rows) in
        if flt 1 then (rows, Inl SqlError)
        else (rows, Inr (map (\<lambda>r. (lock_key r, lock_owner r, lock_expire_at r, lock_create_time r))
                             (sort_key lock_key rows))))"

subsection \<open>The gRPC handlers\<close>

definition acquire_lock ::
  "chrono \<Rightarrow> faults \<Rightarrow> int \<Rightarrow> int \<Rightarrow> int \<Rightarrow> string \<Rightarrow> string \<Rightarrow> int \<Rightarrow> lock_table
   \<Rightarrow> lock_table \<times> (status + bool) outcome" where
  "acquire_lock ch flt t1 t2 t3 key owner ttl_secs rows =
     (case require_key key of
        Inl e \<Rightarrow> (rows, Returned (Inl e))
      | Inr key \<Rightarrow>
          let owner = trim owner in
          if owner = [] then (rows, Returned (Inl (InvalidArgument ''owner is required'')))
          else if ttl_secs \<le> 0 then (rows, Returned (Inl (InvalidArgument ''ttl_seconds must be > 0'')))
          else (case lock_acquire ch flt t1 t2 t3 key owner ttl_secs rows of
                  (rows, Panic) \<Rightarrow> (rows, Panic)
                | (rows, Returned (Inl _)) \<Rightarrow> (rows, Returned (Inl (Internal ''lock acquire failed'')))
                | (rows, Returned (Inr acquired)) \<Rightarrow> (rows, Returned (Inr acquired))))"

definition renew_lock ::
  "chrono \<Rightarrow> faults \<Rightarrow> int \<Rightarrow> string \<Rightarrow> string \<Rightarrow> int \<Rightarrow> lock_table
   \<Rightarrow> lock_table \<times> (status + bool) outcome" where
  "renew_lock ch flt now key owner ttl_secs rows =
     (case require_key key of
        Inl e \<Rightarrow> (rows, Returned (Inl e))
      | Inr key \<Rightarrow>
          let owner = trim owner in
          if owner = [] then (rows, Returned (Inl (InvalidArgument ''owner is required'')))
          else if ttl_secs \<le> 0 then (rows, Returned (Inl (InvalidArgument ''ttl_seconds must be > 0'')))
          else (case lock_renew ch flt now key owner ttl_secs rows of
                  (rows, Panic) \<Rightarrow> (rows, Panic)
                | (rows, Returned (Inl _)) \<Rightarrow> (rows, Returned (Inl (Internal ''lock renew failed'')))
                | (rows, Returned (Inr renewed)) \<Rightarrow> (rows, Returned (Inr renewed))))"

definition release_lock ::
  "faults \<Rightarrow> string \<Rightarrow> string \<Rightarrow> lock_table \<Rightarrow> lock_table \<times> (status + bool)" where
  "release_lock flt key owner rows =
     (case require_key key of
        Inl e \<Rightarrow> (rows, Inl e)
      | Inr key \<Rightarrow>
          let owner = trim owner in
          if owner = [] then (rows, Inl (InvalidArgument ''owner is required''))
          else (case lock_release flt key owner rows of
                  (rows, Inl _) \<Rightarrow> (rows, Inl (Internal ''lock release failed''))
                | (rows, Inr released) \<Rightarrow> (rows, Inr released)))"

definition is_locked :: "chrono \<Rightarrow> faults \<Rightarrow> int \<Rightarrow> string \<Rightarrow> lock_table \<Rightarrow> status + bool" where
  "is_locked ch flt now key rows =
     bindE (require_key key) (\<lambda>key.
       case lock_is_locked ch flt now key rows of
         Inl _ \<Rightarrow> Inl (Internal ''lock is_locked failed'')
       | Inr locked \<Rightarrow> Inr locked)"

subsection \<open>The lease contract\<close>

definition lock_holder :: "chrono \<Rightarrow> lock_table \<Rightarrow> string \<Rightarrow> int \<Rightarrow> string option" where
  "lock_holder ch rows key now =
     (case row_of lock_key key rows of
        None \<Rightarrow> None
      | Some r \<Rightarrow> if lock_expire_at r \<le> to_rfc3339 ch now then None else Some (lock_owner r))"

definition lock_inv :: "chrono \<Rightarrow> lock_table \<Rightarrow> bool" where
  "lock_inv ch rows \<longleftrightarrow>
     unique_key lock_key rows \<and>
     (\<forall>r \<in> set rows. \<exists>e. in_years e \<and> lock_expire_at r = to_rfc3339 ch e)"

definition lock_attempt :: "chrono \<Rightarrow> string \<Rightarrow> string \<Rightarrow> int \<Rightarrow> int \<Rightarrow> lock_table \<Rightarrow> lock_table \<times> bool" where
  "lock_attempt ch key owner now ttl rows =
     (case lock_acquire ch no_faults now now now key owner ttl rows of
        (rows, Returned (Inr won)) \<Rightarrow> (rows, won)
      | (rows, _) \<Rightarrow> (rows, False))"

definition lock_ok_time :: "chrono \<Rightarrow> int \<Rightarrow> bool" where
  "lock_ok_time ch t \<longleftrightarrow> chrono_ok ch \<and> in_years t"

definition lock_ok_call :: "chrono \<Rightarrow> int \<Rightarrow> int \<Rightarrow> bool" where
  "lock_ok_call ch now ttl \<longleftrightarrow>
     lock_ok_time ch now \<and> 0 < ttl \<and> add_secs ch now ttl \<noteq> None \<and> in_years (now + ttl * sec)"

lemma lock_inv_delete [simp]: "lock_inv ch rows \<Longrightarrow> lock_inv ch (snd (sql_delete P rows))"
  by (auto simp: lock_inv_def) (auto simp: sql_delete_def)

lemma lock_inv_insert:
  "lock_inv ch rows \<Longrightarrow> in_years e \<Longrightarrow> lock_inv ch (snd (lock_insert key owner (to_rfc3339 ch e) c rows))"
  by (auto simp: lock_inv_def lock_insert_def) (auto simp: sql_insert_new_def split: if_splits)

lemma lock_attempt_eq:
  assumes "lock_ok_call ch now ttl"
  shows "lock_attempt ch key owner now ttl rows =
    (let rows = snd (lock_delete_expired key (to_rfc3339 ch now) rows);
         (n, rows) = lock_insert key owner (to_rfc3339 ch (now + ttl * sec)) (to_rfc3339 ch now) rows
     in (rows, 0 < n))"
proof -
  from assms obtain e where e: "add_secs ch now ttl = Some e" by (auto simp: lock_ok_call_def)
  moreover have "e = now + ttl * sec"
    using assms e chrono_okD(1) by (auto simp: lock_ok_call_def lock_ok_time_def)
  ultimately show ?thesis
    by (simp add: lock_attempt_def lock_acquire_def Let_def split_beta)
qed

lemma lock_insert_result:
  "0 < fst (lock_insert key owner e c rows) \<longleftrightarrow> row_of lock_key key rows = None"
  by (simp add: lock_insert_def sql_insert_new_def row_of_None_iff)

lemma row_of_lock_insert:
  "row_of lock_key j (snd (lock_insert key owner e c rows)) =
     (case row_of lock_key j rows of
        None \<Rightarrow> if key = j then Some \<lparr>lock_key = key, lock_owner = owner, lock_expire_at = e, lock_create_time = c\<rparr> else None
      | Some r \<Rightarrow> Some r)"
  by (simp add: lock_insert_def row_of_insert_new)

lemma row_of_delete_expired:
  "unique_key lock_key rows \<Longrightarrow> row_of lock_key j (snd (lock_delete_expired key now rows)) =
     (case row_of lock_key j rows of
        None \<Rightarrow> None
      | Some r \<Rightarrow> if key = j \<and> lock_expire_at r \<le> now then None else Some r)"
  by (auto simp: lock_delete_expired_def row_of_delete dest: row_of_key split: option.splits)

interpretation lk: lease_contract "lock_holder ch" "lock_attempt ch" "lock_inv ch" "lock_ok_time ch" "lock_ok_call ch"
  for ch
proof unfold_locales
  fix now ttl assume "lock_ok_call ch now ttl"
  then show "lock_ok_time ch now" by (simp add: lock_ok_call_def)
next
  fix s t u k c
  assume a: "lock_inv ch s" "lock_ok_time ch t" "lock_ok_time ch u" "t \<le> u" "lock_holder ch s k u = Some c"
  then obtain r where r: "row_of lock_key k s = Some r" "\<not> lock_expire_at r \<le> to_rfc3339 ch u"
    and c: "lock_owner r = c"
    by (auto simp: lock_holder_def split: option.splits if_splits)
  have "to_rfc3339 ch t \<le> to_rfc3339 ch u" using a by (simp add: lock_ok_time_def chrono_okD(4))
  with r have "\<not> lock_expire_at r \<le> to_rfc3339 ch t" by (meson order_trans)
  with r c show "lock_holder ch s k t = Some c" by (simp add: lock_holder_def)
next
  fix s now ttl k c assume a: "lock_inv ch s" and ok: "lock_ok_call ch now ttl"
  then have "in_years (now + ttl * sec)" by (simp add: lock_ok_call_def)
  with a show "lock_inv ch (fst (lock_attempt ch k c now ttl s))"
    by (simp add: lock_attempt_eq [OF ok] Let_def split_beta lock_inv_insert lock_delete_expired_def)
next
  fix s now ttl k c
  assume a: "lock_inv ch s" and ok: "lock_ok_call ch now ttl" and free: "lock_holder ch s k now = None"
  have u: "unique_key lock_key s" using a by (simp add: lock_inv_def)
  have "\<not> to_rfc3339 ch (now + ttl * sec) \<le> to_rfc3339 ch now"
    using ok by (simp add: lock_ok_call_def lock_ok_time_def chrono_okD(4))
  with free u show "snd (lock_attempt ch k c now ttl s) \<and>
      lock_holder ch (fst (lock_attempt ch k c now ttl s)) k now = Some c"
    by (auto simp: lock_attempt_eq [OF ok] Let_def split_beta lock_insert_result lock_holder_def
        row_of_lock_insert row_of_delete_expired split: option.splits if_splits)
next
  fix s now ttl k h c
  assume a: "lock_inv ch s" and ok: "lock_ok_call ch now ttl" and held: "lock_holder ch s k now = Some h"
  have u: "unique_key lock_key s" using a by (simp add: lock_inv_def)
  from held u show "(snd (lock_attempt ch k c now ttl s) \<longrightarrow> c = h) \<and>
      lock_holder ch (fst (lock_attempt ch k c now ttl s)) k = lock_holder ch s k"
    by (auto simp: lock_attempt_eq [OF ok] Let_def split_beta lock_insert_result lock_holder_def fun_eq_iff
        row_of_lock_insert row_of_delete_expired split: option.splits if_splits)
next
  fix s now ttl and j k c :: string
  assume a: "lock_inv ch s" and ok: "lock_ok_call ch now ttl" and "j \<noteq> k"
  then show "lock_holder ch (fst (lock_attempt ch k c now ttl s)) j = lock_holder ch s j"
    by (auto simp: lock_attempt_eq [OF ok] Let_def split_beta lock_holder_def fun_eq_iff lock_inv_def
        row_of_lock_insert row_of_delete_expired split: option.splits)
qed

subsection \<open>Interleaved statements of several clients\<close>

text \<open>
  What the clients' operations send to the table, with the clock readings bound to the
  statements. \<open>acquire\<close> is a \<open>StDelete\<close> followed, possibly after statements of others, by a
  \<open>StInsert\<close>.
\<close>

datatype lock_stmt =
  StDelete string int
| StInsert string string int int
| StRenew string string int
| StRelease string string
| StPurge int

fun lock_exec :: "chrono \<Rightarrow> lock_stmt \<Rightarrow> lock_table \<Rightarrow> nat \<times> lock_table" where
  "lock_exec ch (StDelete key now) rows = lock_delete_expired key (to_rfc3339 ch now) rows"
| "lock_exec ch (StInsert key owner e c) rows = lock_insert key owner (to_rfc3339 ch e) (to_rfc3339 ch c) rows"
| "lock_exec ch (StRenew key owner e) rows =
     sql_update (\<lambda>r. lock_key r = key \<and> lock_owner r = owner) (lock_set_expire (to_rfc3339 ch e)) rows"
| "lock_exec ch (StRelease key owner) rows = sql_delete (\<lambda>r. lock_key r = key \<and> lock_owner r = owner) rows"
| "lock_exec ch (StPurge now) rows = sql_delete (\<lambda>r. lock_expire_at r \<le> to_rfc3339 ch now) rows"

fun lock_execs :: "chrono \<Rightarrow> lock_stmt list \<Rightarrow> lock_table \<Rightarrow> nat list \<times> lock_table" where
  "lock_execs ch [] rows = ([], rows)"
| "lock_execs ch (st # sts) rows =
     (let (n, rows) = lock_exec ch st rows; (ns, rows) = lock_execs ch sts rows in (n # ns, rows))"

text \<open>A statement of somebody else while the lease of \<open>owner\<close> on \<open>key\<close> up to \<open>e\<close> lasts.\<close>

fun foreign :: "string \<Rightarrow> string \<Rightarrow> int \<Rightarrow> lock_stmt \<Rightarrow> bool" where
  "foreign key owner e (StDelete k now) = (in_years now \<and> now < e)"
| "foreign key owner e (StInsert k ow _ _) = True"
| "foreign key owner e (StRenew k ow _) = (k \<noteq> key \<or> ow \<noteq> owner)"
| "foreign key owner e (StRelease k ow) = (k \<noteq> key \<or> ow \<noteq> owner)"
| "foreign key owner e (StPurge now) = (in_years now \<and> now < e)"

lemma lock_exec_unique: "unique_key lock_key rows \<Longrightarrow> unique_key lock_key (snd (lock_exec ch st rows))"
  by (cases st) (simp_all add: lock_delete_expired_def lock_insert_def lock_upd.unique_update)

lemma lock_exec_foreign:
  assumes "chrono_ok ch" "unique_key lock_key rows" "in_years e"
    and r: "row_of lock_key key rows = Some r" "lock_expire_at r = to_rfc3339 ch e"
    and "foreign key (lock_owner r) e st"
  shows "row_of lock_key key (snd (lock_exec ch st rows)) = Some r"
    "\<And>ow x c. st = StInsert key ow x c \<Longrightarrow> fst (lock_exec ch st rows) = 0"
proof -
  have early: "\<not> lock_expire_at r \<le> to_rfc3339 ch now" if "in_years now" "now < e" for now
    using assms(1,3) r(2) that chrono_okD(4) [OF assms(1) assms(3), of now] by simp
  show "row_of lock_key key (snd (lock_exec ch st rows)) = Some r"
    using assms early row_of_key [OF r(1)]
    by (cases st) (auto simp: row_of_delete_expired row_of_lock_insert row_of_delete lock_upd.row_of_update)
  fix ow x c assume "st = StInsert key ow x c"
  then show "fst (lock_exec ch st rows) = 0"
    using r(1) lock_insert_result [of key ow "to_rfc3339 ch x" "to_rfc3339 ch c" rows] by simp
qed

lemma lock_execs_exclusive:
  assumes "chrono_ok ch" "in_years e"
  shows "unique_key lock_key rows \<Longrightarrow> row_of lock_key key rows = Some r \<Longrightarrow>
    lock_expire_at r = to_rfc3339 ch e \<Longrightarrow> \<forall>st \<in> set sts. foreign key (lock_owner r) e st \<Longrightarrow>
    row_of lock_key key (snd (lock_execs ch sts rows)) = Some r \<and>
    (\<forall>ow x c n. (StInsert key ow x c, n) \<in> set (zip sts (fst (lock_execs ch sts rows))) \<longrightarrow> n = 0)"
proof (induction sts arbitrary: rows)
  case (Cons st sts)
  have f: "foreign key (lock_owner r) e st" using Cons.prems(4) by simp
  note one = lock_exec_foreign [OF assms(1) Cons.prems(1) assms(2) Cons.prems(2,3) f]
  have "\<forall>st \<in> set sts. foreign key (lock_owner r) e st" using Cons.prems(4) by simp
  note ih = Cons.IH [OF lock_exec_unique [OF Cons.prems(1), of ch st] one(1) Cons.prems(3) this]
  show ?case using ih one(2) by (auto simp: split_beta Let_def)
qed simp

abbreviation owns :: "string \<Rightarrow> string \<Rightarrow> lock_table \<Rightarrow> bool" where
  "owns key owner rows \<equiv> map_option lock_owner (row_of lock_key key rows) = Some owner"

lemma rows_owned:
  "unique_key lock_key rows \<Longrightarrow>
   filter (\<lambda>r. lock_key r = key \<and> lock_owner r = owner) rows \<noteq> [] \<longleftrightarrow> owns key owner rows"
  using row_of_Some_iff [of lock_key rows key] by (auto simp: filter_empty_conv)

lemma lock_release_eq:
  "unique_key lock_key rows \<Longrightarrow> lock_release flt key owner rows =
     (if flt 0 then (rows, Inl SqlError)
      else (snd (sql_delete (\<lambda>r. lock_key r = key \<and> lock_owner r = owner) rows), Inr (owns key owner rows)))"
  using rows_owned [of rows key owner] by (simp add: lock_release_def sql_delete_def)

lemma lock_renew_eq:
  "unique_key lock_key rows \<Longrightarrow> lock_renew ch flt now key owner ttl rows =
     (case add_secs ch now ttl of
        None \<Rightarrow> (rows, Panic)
      | Some e \<Rightarrow>
          if flt 0 then (rows, Returned (Inl SqlError))
          else (snd (sql_update (\<lambda>r. lock_key r = key \<and> lock_owner r = owner)
                      (lock_set_expire (to_rfc3339 ch e)) rows), Returned (Inr (owns key owner rows))))"
  using rows_owned [of rows key owner] by (simp add: lock_renew_def sql_update_def split: option.split)

subsection \<open>Properties\<close>



text \<open>A lock is a lease: whoever \<open>acquire\<close> tells that it won holds the lock at that time, an
  expired or free lock is won by the next attempt, and during a lease no attempt of anybody else
  wins, over any sequence of attempts.\<close>

theorem lock_attempts:
  assumes "lock_inv ch rows" "lock_ok_time ch T"
    and "\<forall>(j, c, now, ttl) \<in> set as. lock_ok_call ch now ttl \<and> now \<le> T"
    and "lock_ok_call ch now ttl"
  shows "(lock_holder ch rows k now = None \<longrightarrow> snd (lock_attempt ch k c now ttl rows)) \<and>
    (snd (lock_attempt ch k c now ttl rows) \<longrightarrow>
       lock_holder ch (fst (lock_attempt ch k c now ttl rows)) k now = Some c) \<and>
    (\<forall>h. lock_holder ch rows k T = Some h \<longrightarrow>
       (\<forall>c now ttl. ((k, c, now, ttl), True) \<in> set (zip as (snd (attempts (lock_attempt ch) as rows)))
          \<longrightarrow> c = h))"
  using lk.acquire_free [OF assms(1,4)] lk.winner_holds [OF assms(1,4)]
    lk.attempts_exclusive [OF assms(1,2) _ assms(3)]
  by blast

theorem lock_attempts_witness:
  "snd (lock_attempt plain_chrono ''k'' ''a'' 0 1 [])"
proof -
  have "lock_ok_call plain_chrono 0 1" "lock_ok_time plain_chrono 0"
    by (simp_all add: lock_ok_call_def lock_ok_time_def in_years_def)
  moreover have "lock_inv plain_chrono []" by (simp add: lock_inv_def)
  moreover have "lock_holder plain_chrono [] ''k'' 0 = None" by (simp add: lock_holder_def row_of_def)
  ultimately show ?thesis
    using lock_attempts [of plain_chrono "[]" 0 "[(''k'', ''a'', 0, 1)]" 0 1 "''k''" "''a''"] by simp
qed

text \<open>Only the owner gives a lock away: \<open>release\<close> and \<open>renew\<close> succeed exactly when the row
  of the key belongs to the caller and the statement does not fail; on success \<open>release\<close> frees
  the key and \<open>renew\<close> only moves its expiry, and no other row changes.\<close>

theorem lock_owner_only:
  assumes "unique_key lock_key rows"
  shows "(snd (lock_release flt key owner rows) = Inr True \<longleftrightarrow>
      \<not> flt 0 \<and> map_option lock_owner (row_of lock_key key rows) = Some owner) \<and>
    row_of lock_key j (fst (lock_release flt key owner rows)) =
      (if j = key \<and> snd (lock_release flt key owner rows) = Inr True then None
       else row_of lock_key j rows) \<and>
    (snd (lock_renew ch flt now key owner ttl rows) = Returned (Inr True) \<longleftrightarrow>
      add_secs ch now ttl \<noteq> None \<and> \<not> flt 0 \<and>
      map_option lock_owner (row_of lock_key key rows) = Some owner) \<and>
    row_of lock_key j (fst (lock_renew ch flt now key owner ttl rows)) =
      (if j = key \<and> snd (lock_renew ch flt now key owner ttl rows) = Returned (Inr True)
       then map_option (\<lambda>r. r\<lparr>lock_expire_at := to_rfc3339 ch (the (add_secs ch now ttl))\<rparr>)
              (row_of lock_key j rows)
       else row_of lock_key j rows)"
proof -
  note rel = lock_release_eq [OF assms, of flt key owner]
    and ren = lock_renew_eq [OF assms, of ch flt now key owner ttl]
  have key: "lock_key r = j" if "row_of lock_key j rows = Some r" for r
    using that by (rule row_of_key)
  show ?thesis
  proof (intro conjI)
    show "row_of lock_key j (fst (lock_release flt key owner rows)) =
      (if j = key \<and> snd (lock_release flt key owner rows) = Inr True then None else row_of lock_key j rows)"
      unfolding rel using key by (cases "row_of lock_key j rows") (auto simp: row_of_delete [OF assms])
    show "row_of lock_key j (fst (lock_renew ch flt now key owner ttl rows)) =
      (if j = key \<and> snd (lock_renew ch flt now key owner ttl rows) = Returned (Inr True)
       then map_option (\<lambda>r. r\<lparr>lock_expire_at := to_rfc3339 ch (the (add_secs ch now ttl))\<rparr>)
              (row_of lock_key j rows)
       else row_of lock_key j rows)"
      unfolding ren using key
      by (cases "row_of lock_key j rows"; cases "add_secs ch now ttl")
        (auto simp: lock_upd.row_of_update lock_set_expire_def)
  qed (auto simp: rel ren split: option.splits)
qed

theorem lock_owner_only_witness:
  "snd (lock_release no_faults ''k'' ''a'' [\<lparr>lock_key = ''k'', lock_owner = ''a'',
      lock_expire_at = [], lock_create_time = []\<rparr>]) = Inr True"
  using lock_owner_only [of "[\<lparr>lock_key = ''k'', lock_owner = ''a'', lock_expire_at = [],
      lock_create_time = []\<rparr>]" no_faults "''k''" "''a''" "''k''" plain_chrono 0 1]
  by (simp add: unique_key_def row_of_def)

end
