(* ===== verification/Election.thy ===== *)
theory Election
  imports Lease
begin

text \<open>
  Leader election with fencing terms, \<open>src/src/election.rs\<close>: the table \<open>sys_election\<close> with its
  primary key \<open>election_key\<close>, the four operations of \<open>ElectionStore\<close> and the gRPC handlers. Times
  are milliseconds in \<open>i64\<close>. The text form of a time (\<open>timestamp\<close>, through \<open>chrono\<close>) and the
  lease id of a campaign (\<open>Uuid::new_v4\<close>) are arguments. The stored term is an integer column
  that grows by one per change of leader; it is modelled without SQLite's limit of \<open>2 ^ 63 - 1\<close>.
\<close>

subsection \<open>The table\<close>

record election_row =
  er_key :: string
  er_leader_id :: string
  er_term :: int
  er_lease_id :: string
  er_expire_at_ms :: int
  er_update_time :: string

type_synonym election_table = "election_row list"

record leader_lease =
  ll_election :: string
  ll_leader_id :: string
  ll_term :: nat
  ll_lease_id :: string
  ll_expire_at_ms :: int

definition hydrate :: "election_row \<Rightarrow> leader_lease" where
  "hydrate r = \<lparr>ll_election = er_key r, ll_leader_id = er_leader_id r,
                ll_term = nat (er_term r mod 2 ^ 64), ll_lease_id = er_lease_id r,
                ll_expire_at_ms = er_expire_at_ms r\<rparr>"

definition lease_active :: "int \<Rightarrow> leader_lease \<Rightarrow> bool" where
  "lease_active now l \<longleftrightarrow> now < ll_expire_at_ms l"

record election_leader =
  el_election :: string
  el_leader_id :: string
  el_term :: nat
  el_lease_id :: string
  el_expire_at :: string
  el_remaining_ttl_ms :: int

definition to_proto :: "(int \<Rightarrow> string) \<Rightarrow> int \<Rightarrow> leader_lease \<Rightarrow> election_leader" where
  "to_proto timestamp now l =
     \<lparr>el_election = ll_election l, el_leader_id = ll_leader_id l, el_term = ll_term l,
      el_lease_id = ll_lease_id l, el_expire_at = timestamp (ll_expire_at_ms l),
      el_remaining_ttl_ms = max (sat_i64 (ll_expire_at_ms l - now)) 0\<rparr>"

subsection \<open>Operations\<close>

datatype election_error = ElectionSql | Disappeared | TermRange

definition expires_at :: "int \<Rightarrow> int \<Rightarrow> int" where
  "expires_at now ttl_seconds = sat_i64 (now + sat_i64 (ttl_seconds * 1000))"

definition take_over :: "election_row \<Rightarrow> election_row \<Rightarrow> election_row" where
  "take_over excluded r =
     r\<lparr>er_leader_id := er_leader_id excluded, er_term := er_term r + 1,
       er_lease_id := er_lease_id excluded, er_expire_at_ms := er_expire_at_ms excluded,
       er_update_time := er_update_time excluded\<rparr>"

definition campaign_row :: "(int \<Rightarrow> string) \<Rightarrow> int \<Rightarrow> string \<Rightarrow> string \<Rightarrow> string \<Rightarrow> int \<Rightarrow> election_row" where
  "campaign_row timestamp now lease election candidate ttl_seconds =
     \<lparr>er_key = election, er_leader_id = candidate, er_term = 1, er_lease_id = lease,
      er_expire_at_ms = expires_at now ttl_seconds, er_update_time = timestamp now\<rparr>"

text \<open>
  The upsert returns a row when it inserted or updated one; otherwise the current row is read
  by a second statement. \<open>t_active\<close> is the clock reading of \<open>leader.active()\<close>.
\<close>

definition campaign ::
  "(int \<Rightarrow> string) \<Rightarrow> faults \<Rightarrow> int \<Rightarrow> int \<Rightarrow> string \<Rightarrow> string \<Rightarrow> string \<Rightarrow> int \<Rightarrow> election_table
   \<Rightarrow> election_table \<times> (election_error + bool \<times> leader_lease)" where
  "campaign timestamp flt now t_active lease election candidate ttl_seconds rows =
     (if flt 0 then (rows, Inl ElectionSql)
      else
        let new = campaign_row timestamp now lease election candidate ttl_seconds;
            rows' = sql_upsert er_key new (\<lambda>r. er_expire_at_ms r \<le> now) (take_over new) rows;
            returned = (case row_of er_key election rows of
                          None \<Rightarrow> True
                        | Some r \<Rightarrow> er_expire_at_ms r \<le> now);
            result = (\<lambda>l. (lease_active t_active l \<and> ll_leader_id l = candidate, l))
        in if returned
           then (rows', case row_of er_key election rows' of
                          None \<Rightarrow> Inl Disappeared
                        | Some r \<Rightarrow> Inr (result (hydrate r)))
           else if flt 1 then (rows', Inl ElectionSql)
           else (rows', case row_of er_key election rows' of
                          None \<Rightarrow> Inl Disappeared
                        | Some r \<Rightarrow> Inr (result (hydrate r))))"

definition lease_matches :: "string \<Rightarrow> string \<Rightarrow> int \<Rightarrow> string \<Rightarrow> int \<Rightarrow> election_row \<Rightarrow> bool" where
  "lease_matches election leader term lease now r \<longleftrightarrow>
     er_key r = election \<and> er_leader_id r = leader \<and> er_term r = term \<and> er_lease_id r = lease \<and>
     now < er_expire_at_ms r"

definition set_lease :: "int \<Rightarrow> string \<Rightarrow> election_row \<Rightarrow> election_row" where
  "set_lease expires update_time r = r\<lparr>er_expire_at_ms := expires, er_update_time := update_time\<rparr>"

interpretation take_over_upd: keyed_update er_key "take_over new" for new
  by unfold_locales (simp add: take_over_def)

interpretation set_lease_upd: keyed_update er_key "set_lease expires update_time" for expires update_time
  by unfold_locales (simp add: set_lease_def)

text \<open>\<open>i64::try_from(term)\<close> on the \<open>u64\<close> of the request.\<close>

definition term_of_u64 :: "nat \<Rightarrow> int option" where
  "term_of_u64 term = (if int term \<le> i64_max then Some (int term) else None)"

definition renew ::
  "(int \<Rightarrow> string) \<Rightarrow> faults \<Rightarrow> int \<Rightarrow> string \<Rightarrow> string \<Rightarrow> nat \<Rightarrow> string \<Rightarrow> int \<Rightarrow> election_table
   \<Rightarrow> election_table \<times> (election_error + leader_lease option)" where
  "renew timestamp flt now election leader term lease ttl_seconds rows =
     (case term_of_u64 term of
        None \<Rightarrow> (rows, Inl TermRange)
      | Some term \<Rightarrow>
          if flt 0 then (rows, Inl ElectionSql)
          else let P = lease_matches election leader term lease now;
                   f = set_lease (expires_at now ttl_seconds) (timestamp now)
               in (snd (sql_update P f rows), Inr (map_option (\<lambda>r. hydrate (f r)) (find P rows))))"

definition resign ::
  "(int \<Rightarrow> string) \<Rightarrow> faults \<Rightarrow> int \<Rightarrow> string \<Rightarrow> string \<Rightarrow> nat \<Rightarrow> string \<Rightarrow> election_table
   \<Rightarrow> election_table \<times> (election_error + bool)" where
  "resign timestamp flt now election leader term lease rows =
     (case term_of_u64 term of
        None \<Rightarrow> (rows, Inl TermRange)
      | Some term \<Rightarrow>
          if flt 0 then (rows, Inl ElectionSql)
          else let (n, rows) = sql_update (lease_matches election leader term lease now)
                                 (set_lease now (timestamp now)) rows
               in (rows, Inr (n = 1)))"

definition election_get :: "faults \<Rightarrow> string \<Rightarrow> election_table \<Rightarrow> election_error + leader_lease option" where
  "election_get flt election rows =
     (if flt 0 then Inl ElectionSql else Inr (map_option hydrate (row_of er_key election rows)))"

subsection \<open>The gRPC handlers\<close>

definition required :: "string \<Rightarrow> string \<Rightarrow> status + string" where
  "required v name =
     (let v = trim v in if v = [] then Inl (InvalidArgument (name @ '' is required'')) else Inr v)"

definition validate_ttl :: "int \<Rightarrow> status + unit" where
  "validate_ttl ttl =
     (if 1 \<le> ttl \<and> ttl \<le> 3600 then Inr ()
      else Inl (InvalidArgument ''ttl_seconds must be between 1 and 3600''))"

definition internal :: "string \<Rightarrow> status" where
  "internal operation = Internal (''election '' @ operation @ '' failed'')"

definition service_campaign ::
  "(int \<Rightarrow> string) \<Rightarrow> faults \<Rightarrow> int \<Rightarrow> int \<Rightarrow> int \<Rightarrow> string \<Rightarrow> string \<Rightarrow> string \<Rightarrow> int \<Rightarrow> election_table
   \<Rightarrow> election_table \<times> (status + bool \<times> election_leader)" where
  "service_campaign timestamp flt now t_active t_proto lease election candidate ttl rows =
     (case bindE (required election ''election'') (\<lambda>e.
           bindE (required candidate ''candidate_id'') (\<lambda>c.
           bindE (validate_ttl ttl) (\<lambda>_. Inr (e, c)))) of
        Inl st \<Rightarrow> (rows, Inl st)
      | Inr (e, c) \<Rightarrow>
          (case campaign timestamp flt now t_active lease e c ttl rows of
             (rows, Inl _) \<Rightarrow> (rows, Inl (internal ''campaign''))
           | (rows, Inr (won, leader)) \<Rightarrow> (rows, Inr (won, to_proto timestamp t_proto leader))))"

definition service_renew ::
  "(int \<Rightarrow> string) \<Rightarrow> faults \<Rightarrow> int \<Rightarrow> int \<Rightarrow> string \<Rightarrow> string \<Rightarrow> nat \<Rightarrow> string \<Rightarrow> int \<Rightarrow> election_table
   \<Rightarrow> election_table \<times> (status + bool \<times> election_leader option)" where
  "service_renew timestamp flt now t_proto election leader term lease ttl rows =
     (case bindE (required election ''election'') (\<lambda>e.
           bindE (required leader ''leader_id'') (\<lambda>l.
           bindE (required lease ''lease_id'') (\<lambda>i.
           if term = 0 then Inl (InvalidArgument ''term must be > 0'')
           else bindE (validate_ttl ttl) (\<lambda>_. Inr (e, l, i))))) of
        Inl st \<Rightarrow> (rows, Inl st)
      | Inr (e, l, i) \<Rightarrow>
          (case renew timestamp flt now e l term i ttl rows of
             (rows, Inl _) \<Rightarrow> (rows, Inl (internal ''renew''))
           | (rows, Inr leader) \<Rightarrow>
               (rows, Inr (leader \<noteq> None, map_option (to_proto timestamp t_proto) leader))))"

definition service_resign ::
  "(int \<Rightarrow> string) \<Rightarrow> faults \<Rightarrow> int \<Rightarrow> string \<Rightarrow> string \<Rightarrow> nat \<Rightarrow> string \<Rightarrow> election_table
   \<Rightarrow> election_table \<times> (status + bool)" where
  "service_resign timestamp flt now election leader term lease rows =
     (case bindE (required election ''election'') (\<lambda>e.
           bindE (required leader ''leader_id'') (\<lambda>l.
           bindE (required lease ''lease_id'') (\<lambda>i.
           if term = 0 then Inl (InvalidArgument ''term must be > 0'') else Inr (e, l, i)))) of
        Inl st \<Rightarrow> (rows, Inl st)
      | Inr (e, l, i) \<Rightarrow>
          (case resign timestamp flt now e l term i rows of
             (rows, Inl _) \<Rightarrow> (rows, Inl (internal ''resign''))
           | (rows, Inr resigned) \<Rightarrow> (rows, Inr resigned)))"

definition service_get_leader ::
  "(int \<Rightarrow> string) \<Rightarrow> faults \<Rightarrow> int \<Rightarrow> int \<Rightarrow> string \<Rightarrow> election_table
   \<Rightarrow> status + bool \<times> bool \<times> election_leader option" where
  "service_get_leader timestamp flt now t_proto election rows =
     bindE (required election ''election'') (\<lambda>e.
       case election_get flt e rows of
         Inl _ \<Rightarrow> Inl (internal ''get'')
       | Inr leader \<Rightarrow>
           Inr (leader \<noteq> None, (case leader of None \<Rightarrow> False | Some l \<Rightarrow> lease_active now l),
                map_option (to_proto timestamp t_proto) leader))"

subsection \<open>The lease contract\<close>

definition election_holder :: "election_table \<Rightarrow> string \<Rightarrow> int \<Rightarrow> string option" where
  "election_holder rows election now =
     (case row_of er_key election rows of
        None \<Rightarrow> None
      | Some r \<Rightarrow> if now < er_expire_at_ms r then Some (er_leader_id r) else None)"

definition election_attempt ::
  "(int \<Rightarrow> string) \<Rightarrow> string \<Rightarrow> string \<Rightarrow> string \<Rightarrow> int \<Rightarrow> int \<Rightarrow> election_table \<Rightarrow> election_table \<times> bool" where
  "election_attempt timestamp lease election candidate now ttl rows =
     (case campaign timestamp no_faults now now lease election candidate ttl rows of
        (rows, Inr (won, _)) \<Rightarrow> (rows, won)
      | (rows, Inl _) \<Rightarrow> (rows, False))"

definition election_ok_call :: "int \<Rightarrow> int \<Rightarrow> bool" where
  "election_ok_call now ttl \<longleftrightarrow>
     1 \<le> ttl \<and> ttl \<le> 3600 \<and> 0 \<le> now \<and> now \<le> i64_max - 3600 * 1000"

lemma expires_at_ok: "election_ok_call now ttl \<Longrightarrow> expires_at now ttl = now + ttl * 1000"
  by (simp add: expires_at_def election_ok_call_def sat_i64_def i64_min_def i64_max_def)

lemma row_of_campaign:
  assumes "\<not> flt 0"
  shows "row_of er_key j (fst (campaign ts flt now ta lease election candidate ttl rows)) =
    (let new = campaign_row ts now lease election candidate ttl in
     if election = j
     then Some (case row_of er_key j rows of
                  None \<Rightarrow> new
                | Some r \<Rightarrow> if er_expire_at_ms r \<le> now then take_over new r else r)
     else row_of er_key j rows)"
  using assms
  by (auto simp: campaign_def Let_def take_over_upd.row_of_upsert campaign_row_def split: option.splits)

lemma fst_campaign_fault: "flt 0 \<Longrightarrow> fst (campaign ts flt now ta lease e c ttl rows) = rows"
  by (simp add: campaign_def)

lemma unique_campaign:
  "unique_key er_key rows \<Longrightarrow> unique_key er_key (fst (campaign ts flt now ta lease e c ttl rows))"
  by (auto simp: campaign_def Let_def take_over_upd.unique_upsert split: option.split)

lemma election_attempt_eq:
  "election_attempt ts lease election candidate now ttl rows =
     (let rows' = fst (campaign ts no_faults now now lease election candidate ttl rows)
      in (rows', case row_of er_key election rows' of
                   None \<Rightarrow> False
                 | Some r \<Rightarrow> now < er_expire_at_ms r \<and> er_leader_id r = candidate))"
  by (auto simp: election_attempt_def campaign_def Let_def lease_active_def hydrate_def
      split: option.split)

interpretation el: lease_contract election_holder "election_attempt ts lease" "unique_key er_key"
    "\<lambda>_. True" election_ok_call for ts lease
proof unfold_locales
  fix s t u k c
  assume "t \<le> u" "election_holder s k u = Some c"
  then show "election_holder s k t = Some c"
    by (auto simp: election_holder_def split: option.splits if_splits)
next
  fix s :: election_table and now ttl k c assume "unique_key er_key s"
  then show "unique_key er_key (fst (election_attempt ts lease k c now ttl s))"
    by (simp add: election_attempt_eq Let_def unique_campaign)
next
  fix s now ttl k c assume "election_ok_call now ttl" "election_holder s k now = None"
  then show "snd (election_attempt ts lease k c now ttl s) \<and>
      election_holder (fst (election_attempt ts lease k c now ttl s)) k now = Some c"
    by (auto simp: election_attempt_eq Let_def row_of_campaign election_holder_def campaign_row_def
        take_over_def expires_at_ok split: option.splits if_splits)
      (simp_all add: election_ok_call_def)
next
  fix s now ttl k h c assume "election_holder s k now = Some h"
  then show "(snd (election_attempt ts lease k c now ttl s) \<longrightarrow> c = h) \<and>
      election_holder (fst (election_attempt ts lease k c now ttl s)) k = election_holder s k"
    by (auto simp: election_attempt_eq Let_def row_of_campaign election_holder_def fun_eq_iff
        split: option.splits if_splits)
next
  fix s now ttl and j k c :: string assume "j \<noteq> k"
  then show "election_holder (fst (election_attempt ts lease k c now ttl s)) j = election_holder s j"
    by (auto simp: election_attempt_eq Let_def row_of_campaign election_holder_def fun_eq_iff)
qed simp

subsection \<open>Runs of operations\<close>

datatype election_op =
  Campaign faults int int string string string int
| Renew faults int string string nat string int
| Resign faults int string string nat string

fun election_apply :: "(int \<Rightarrow> string) \<Rightarrow> election_op \<Rightarrow> election_table \<Rightarrow> election_table" where
  "election_apply ts (Campaign flt now ta lease e c ttl) rows = fst (campaign ts flt now ta lease e c ttl rows)"
| "election_apply ts (Renew flt now e l t i ttl) rows = fst (renew ts flt now e l t i ttl rows)"
| "election_apply ts (Resign flt now e l t i) rows = fst (resign ts flt now e l t i rows)"

fun op_time :: "election_op \<Rightarrow> int" where
  "op_time (Campaign _ now _ _ _ _ _) = now"
| "op_time (Renew _ now _ _ _ _ _) = now"
| "op_time (Resign _ now _ _ _ _) = now"

text \<open>How a row may develop: the term grows with every change of the leader or the lease.\<close>

definition fenced :: "election_row \<Rightarrow> election_row \<Rightarrow> bool" where
  "fenced r r' \<longleftrightarrow>
     er_term r < er_term r' \<or>
     (er_term r = er_term r' \<and> er_leader_id r = er_leader_id r' \<and> er_lease_id r = er_lease_id r')"

lemma fenced_refl [simp]: "fenced r r"
  by (simp add: fenced_def)

lemma fenced_trans: "fenced a b \<Longrightarrow> fenced b c \<Longrightarrow> fenced a c"
  by (auto simp: fenced_def)

lemma row_of_renew:
  "row_of er_key j (fst (renew ts flt now e l t i ttl rows)) =
     map_option (\<lambda>r. if \<not> flt 0 \<and> int t \<le> i64_max \<and> lease_matches e l (int t) i now r
                     then set_lease (expires_at now ttl) (ts now) r else r) (row_of er_key j rows)"
  by (simp add: renew_def term_of_u64_def Let_def set_lease_upd.row_of_update option.map_ident)

lemma row_of_resign:
  "row_of er_key j (fst (resign ts flt now e l t i rows)) =
     map_option (\<lambda>r. if \<not> flt 0 \<and> int t \<le> i64_max \<and> lease_matches e l (int t) i now r
                     then set_lease now (ts now) r else r) (row_of er_key j rows)"
  by (simp add: resign_def term_of_u64_def Let_def split_beta set_lease_upd.row_of_update option.map_ident)

lemma election_apply_fenced:
  assumes "row_of er_key j rows = Some r"
  shows "\<exists>r'. row_of er_key j (election_apply ts op rows) = Some r' \<and> fenced r r'"
proof (cases op)
  case (Campaign flt now ta lease e c ttl)
  with assms show ?thesis
    by (cases "flt 0") (auto simp: fst_campaign_fault row_of_campaign Let_def fenced_def take_over_def)
qed (use assms in \<open>auto simp: row_of_renew row_of_resign fenced_def set_lease_def\<close>)

lemma election_run_fenced:
  "row_of er_key j rows = Some r \<Longrightarrow>
   \<exists>r'. row_of er_key j (fold (election_apply ts) ops rows) = Some r' \<and> fenced r r'"
proof (induction ops arbitrary: rows r)
  case (Cons op ops)
  from election_apply_fenced [OF Cons.prems] obtain r1 where
    "row_of er_key j (election_apply ts op rows) = Some r1" "fenced r r1" by blast
  with Cons.IH fenced_trans show ?case by fastforce
qed auto

text \<open>The lease with the given term is over at time \<open>t\<close>.\<close>

definition lease_over :: "string \<Rightarrow> int \<Rightarrow> int \<Rightarrow> election_table \<Rightarrow> bool" where
  "lease_over e term t rows \<longleftrightarrow>
     (\<exists>r. row_of er_key e rows = Some r \<and>
       (term < er_term r \<or> term = er_term r \<and> er_expire_at_ms r \<le> t))"

lemma lease_over_apply:
  assumes "lease_over e term t rows" "t \<le> op_time op"
  shows "lease_over e term t (election_apply ts op rows)"
proof -
  from assms(1) obtain r where r: "row_of er_key e rows = Some r"
    "term < er_term r \<or> term = er_term r \<and> er_expire_at_ms r \<le> t" by (auto simp: lease_over_def)
  show ?thesis
  proof (cases op)
    case (Campaign flt now ta lease e' c ttl)
    with r assms(2) show ?thesis
      by (cases "flt 0") (auto simp: lease_over_def fst_campaign_fault row_of_campaign Let_def take_over_def)
  qed (use r assms(2) in \<open>auto simp: lease_over_def row_of_renew row_of_resign set_lease_def lease_matches_def\<close>)
qed

lemma lease_over_run:
  "lease_over e term t rows \<Longrightarrow> \<forall>op \<in> set ops. t \<le> op_time op \<Longrightarrow>
   lease_over e term t (fold (election_apply ts) ops rows)"
  by (induction ops arbitrary: rows) (simp_all add: lease_over_apply)

lemma unique_election_apply: "unique_key er_key rows \<Longrightarrow> unique_key er_key (election_apply ts op rows)"
  by (cases op) (auto simp: unique_campaign renew_def resign_def term_of_u64_def Let_def split_beta
      set_lease_upd.unique_update)

lemma unique_election_run:
  "unique_key er_key rows \<Longrightarrow> unique_key er_key (fold (election_apply ts) ops rows)"
  by (induction ops arbitrary: rows) (simp_all add: unique_election_apply)

lemma renew_lease_over:
  assumes "unique_key er_key rows" "lease_over e (int term) t rows" "t \<le> now"
  shows "snd (renew ts flt now e l term i ttl rows) \<in> {Inr None, Inl ElectionSql, Inl TermRange}"
    "snd (resign ts flt now e l term i rows) \<in> {Inr False, Inl ElectionSql, Inl TermRange}"
proof -
  from assms(2) obtain r where r: "row_of er_key e rows = Some r"
    "int term < er_term r \<or> int term = er_term r \<and> er_expire_at_ms r \<le> t"
    by (auto simp: lease_over_def)
  have no: "\<not> lease_matches e l (int term) i now x" if "x \<in> set rows" for x
  proof
    assume m: "lease_matches e l (int term) i now x"
    then have "row_of er_key e rows = Some x"
      using that assms(1) by (simp add: row_of_Some_iff lease_matches_def)
    with r assms(3) m show False by (auto simp: lease_matches_def)
  qed
  then have "find (lease_matches e l (int term) i now) rows = None"
    "filter (lease_matches e l (int term) i now) rows = []"
    by (auto simp: find_None_iff filter_empty_conv)
  then show "snd (renew ts flt now e l term i ttl rows) \<in> {Inr None, Inl ElectionSql, Inl TermRange}"
    "snd (resign ts flt now e l term i rows) \<in> {Inr False, Inl ElectionSql, Inl TermRange}"
    by (auto simp: renew_def resign_def term_of_u64_def Let_def sql_update_def)
qed

subsection \<open>Properties\<close>

text \<open>C28. Fencing: over any sequence of campaigns, renewals and resignations of any clients, with
  any database failures, the row of an election never disappears and its term never decreases;
  a different leader or lease comes with a strictly larger term.\<close>

theorem election_terms_fence:
  assumes "row_of er_key e rows = Some r"
  shows "\<exists>r'. row_of er_key e (fold (election_apply ts) ops rows) = Some r' \<and>
    er_term r \<le> er_term r' \<and>
    (er_leader_id r' \<noteq> er_leader_id r \<or> er_lease_id r' \<noteq> er_lease_id r \<longrightarrow> er_term r < er_term r')"
  using election_run_fenced [OF assms, of ts ops] by (auto simp: fenced_def)

theorem election_terms_fence_witness:
  "\<exists>r'. row_of er_key ''e'' (fold (election_apply (\<lambda>_. []))
       [Resign no_faults 5 ''e'' ''a'' 1 ''l1'', Campaign no_faults 6 6 ''l2'' ''e'' ''b'' 10]
       [\<lparr>er_key = ''e'', er_leader_id = ''a'', er_term = 1, er_lease_id = ''l1'',
         er_expire_at_ms = 100, er_update_time = []\<rparr>]) = Some r' \<and> 1 \<le> er_term r' \<and>
     (er_leader_id r' \<noteq> ''a'' \<or> er_lease_id r' \<noteq> ''l1'' \<longrightarrow> 1 < er_term r')"
  using election_terms_fence [of "''e''" "[\<lparr>er_key = ''e'', er_leader_id = ''a'', er_term = 1,
      er_lease_id = ''l1'', er_expire_at_ms = 100, er_update_time = []\<rparr>]"
      "\<lparr>er_key = ''e'', er_leader_id = ''a'', er_term = 1, er_lease_id = ''l1'',
         er_expire_at_ms = 100, er_update_time = []\<rparr>" "\<lambda>_. []"
      "[Resign no_faults 5 ''e'' ''a'' 1 ''l1'', Campaign no_faults 6 6 ''l2'' ''e'' ''b'' 10]"]
  by (simp add: row_of_def)

text \<open>An expired lease is never revived: once the lease of a term is over at time \<open>t\<close> (by
  expiry, resignation or a newer term), then whatever operations follow at or after \<open>t\<close>, no
  renewal and no resignation that presents this term succeeds any more.\<close>

theorem election_no_revival:
  assumes "unique_key er_key rows" "lease_over e (int term) t rows"
    and "\<forall>op \<in> set ops. t \<le> op_time op" "t \<le> now"
  shows "snd (renew ts flt now e l term i ttl (fold (election_apply ts) ops rows))
      \<in> {Inr None, Inl ElectionSql, Inl TermRange} \<and>
    snd (resign ts flt now e l term i (fold (election_apply ts) ops rows))
      \<in> {Inr False, Inl ElectionSql, Inl TermRange}"
proof -
  note over = lease_over_run [OF assms(2,3), of ts]
  note uniq = unique_election_run [OF assms(1), of ts ops]
  show ?thesis
    using renew_lease_over [OF uniq over assms(4)] by blast
qed

theorem election_no_revival_witness:
  "snd (renew (\<lambda>_. []) no_faults 9 ''e'' ''a'' 1 ''l1'' 10 (fold (election_apply (\<lambda>_. []))
       [Campaign no_faults 6 6 ''l2'' ''e'' ''b'' 10]
       [\<lparr>er_key = ''e'', er_leader_id = ''a'', er_term = 1, er_lease_id = ''l1'',
         er_expire_at_ms = 5, er_update_time = []\<rparr>]))
      \<in> {Inr None, Inl ElectionSql, Inl TermRange} \<and>
    snd (resign (\<lambda>_. []) no_faults 9 ''e'' ''a'' 1 ''l1'' (fold (election_apply (\<lambda>_. []))
       [Campaign no_faults 6 6 ''l2'' ''e'' ''b'' 10]
       [\<lparr>er_key = ''e'', er_leader_id = ''a'', er_term = 1, er_lease_id = ''l1'',
         er_expire_at_ms = 5, er_update_time = []\<rparr>]))
      \<in> {Inr False, Inl ElectionSql, Inl TermRange}"
  by (rule election_no_revival [where t = 6])
    (simp_all add: unique_key_def lease_over_def row_of_def)

text \<open>C29. One leader at a time: a candidate that is told it won holds the election at that moment,
  a vacant or expired election is won by the next campaign, and while a lease lasts no campaign of
  anybody else wins, over any sequence of campaigns.\<close>

theorem election_one_leader:
  assumes "unique_key er_key rows" "election_ok_call now ttl"
    and "\<forall>(j, c, now, ttl) \<in> set as. election_ok_call now ttl \<and> now \<le> T"
  shows "(election_holder rows k now = None \<longrightarrow> snd (election_attempt ts lease k c now ttl rows)) \<and>
    (snd (election_attempt ts lease k c now ttl rows) \<longrightarrow>
       election_holder (fst (election_attempt ts lease k c now ttl rows)) k now = Some c) \<and>
    (\<forall>h. election_holder rows k T = Some h \<longrightarrow>
       (\<forall>c now ttl. ((k, c, now, ttl), True)
            \<in> set (zip as (snd (attempts (election_attempt ts lease) as rows))) \<longrightarrow> c = h))"
  using el.acquire_free [OF assms(1,2)] el.winner_holds [OF assms(1,2)]
    el.attempts_exclusive [OF assms(1) _ _ assms(3)]
  by blast

theorem election_one_leader_witness:
  "snd (election_attempt (\<lambda>_. []) ''l'' ''e'' ''a'' 0 15 [])"
  using election_one_leader [of "[]" 0 15 "[(''e'', ''a'', 0, 15)]" 0 "''e''" "\<lambda>_. []" "''l''" "''a''"]
  by (simp add: election_ok_call_def election_holder_def row_of_def i64_max_def)

end
