(* ===== verification/Stats.thy ===== *)
theory Stats
  imports Sql Topic Model
begin

text \<open>
  Topic settings and counters of \<open>src/src/db.rs\<close>: the table \<open>topic_stats\<close> with its in-memory
  configuration cache, the counter deltas that are collected in memory and flushed in one
  transaction, and the message trend per minute, which works the same way.

  Other tasks can record deltas while a flush waits for the database. A flush therefore takes
  the list of what is recorded \<open>meanwhile\<close>. Counters are unbounded integers here: they count
  messages.
\<close>

subsection \<open>State\<close>

record topic_row =
  tr_topic :: string
  tr_accepted :: int
  tr_duplicates :: int
  tr_delivered :: int
  tr_failed :: int
  tr_dropped :: int
  tr_pending :: int
  tr_processing :: int
  tr_delivery :: string
  tr_persistence :: string
  tr_configured :: bool
  tr_last_seen :: "string option"

record topic_delta =
  td_accepted :: int
  td_duplicates :: int
  td_delivered :: int

record trend_delta =
  tn_accepted :: int
  tn_delivered :: int

record trend_row =
  tp_minute :: string
  tp_accepted :: int
  tp_delivered :: int

record stats =
  st_topics :: "topic_row list"
  st_config :: "(string, topic_config) hmap"
  st_deltas :: "(string, topic_delta) hmap"
  st_trend_deltas :: "(string, trend_delta) hmap"
  st_trends :: "trend_row list"

definition default_row :: "string \<Rightarrow> topic_row" where
  "default_row topic =
     \<lparr>tr_topic = topic, tr_accepted = 0, tr_duplicates = 0, tr_delivered = 0, tr_failed = 0,
      tr_dropped = 0, tr_pending = 0, tr_processing = 0, tr_delivery = ''broadcast'', tr_persistence = ''ephemeral'',
      tr_configured = False, tr_last_seen = None\<rparr>"

subsection \<open>Topic settings\<close>

definition row_config :: "topic_row \<Rightarrow> topic_config" where
  "row_config r = \<lparr>tc_topic = tr_topic r, tc_delivery = delivery_from_stored (tr_delivery r),
                   tc_persistence = persistence_from_stored (tr_persistence r)\<rparr>"

definition db_topic_config :: "faults \<Rightarrow> string \<Rightarrow> stats \<Rightarrow> stats \<times> (sql_error + topic_config)" where
  "db_topic_config flt topic st =
     (case hget (st_config st) topic of
        Some config \<Rightarrow> (st, Inr config)
      | None \<Rightarrow>
          if flt 0 then (st, Inl SqlError)
          else let config = (case row_of tr_topic topic (st_topics st) of
                               None \<Rightarrow> implicit topic
                             | Some r \<Rightarrow> row_config r)
               in (st\<lparr>st_config := hput topic config (st_config st)\<rparr>, Inr config))"

definition topic_persistence ::
  "faults \<Rightarrow> string \<Rightarrow> stats \<Rightarrow> stats \<times> (sql_error + persistence_mode)" where
  "topic_persistence flt topic st =
     (case db_topic_config flt topic st of
        (st, Inl e) \<Rightarrow> (st, Inl e)
      | (st, Inr c) \<Rightarrow> (st, Inr (tc_persistence c)))"

definition subscribed_update :: "string \<Rightarrow> string \<Rightarrow> topic_row \<Rightarrow> topic_row" where
  "subscribed_update persistence now r =
     r\<lparr>tr_last_seen := Some now,
       tr_persistence := (if \<not> tr_configured r then persistence else tr_persistence r)\<rparr>"

definition note_subscribed_topic ::
  "chrono \<Rightarrow> faults \<Rightarrow> int \<Rightarrow> string \<Rightarrow> stats \<Rightarrow> stats \<times> (sql_error + unit)" where
  "note_subscribed_topic ch flt now topic st =
     (let persistence = (if CHR ''#'' \<in> set topic \<or> CHR ''+'' \<in> set topic
                         then ''persistent'' else ''ephemeral'');
          new = (default_row topic)\<lparr>tr_persistence := persistence, tr_last_seen := Some (to_rfc3339 ch now)\<rparr>
      in if flt 0 then (st, Inl SqlError)
         else (st\<lparr>st_topics := sql_upsert tr_topic new (\<lambda>_. True)
                      (subscribed_update persistence (to_rfc3339 ch now)) (st_topics st),
                  st_config := hdel topic (st_config st)\<rparr>, Inr ()))"

definition ephemeral_topics :: "faults \<Rightarrow> stats \<Rightarrow> sql_error + string list" where
  "ephemeral_topics flt st =
     (if flt 0 then Inl SqlError
      else Inr (map tr_topic (filter (\<lambda>r. tr_persistence r = ''ephemeral'') (st_topics st))))"

definition list_topic_configs :: "faults \<Rightarrow> nat \<Rightarrow> stats \<Rightarrow> sql_error + topic_config list" where
  "list_topic_configs flt i st =
     (if flt i then Inl SqlError else Inr (map row_config (sort_key tr_topic (st_topics st))))"

definition configured_update :: "topic_config \<Rightarrow> topic_row \<Rightarrow> topic_row" where
  "configured_update c r =
     r\<lparr>tr_delivery := delivery_as_str (tc_delivery c),
       tr_persistence := persistence_as_str (tc_persistence c), tr_configured := True\<rparr>"

fun configure_loop ::
  "chrono \<Rightarrow> faults \<Rightarrow> nat \<Rightarrow> (nat \<Rightarrow> int) \<Rightarrow> topic_config list \<Rightarrow> stats \<Rightarrow> stats \<times> (sql_error + nat)" where
  "configure_loop ch flt i clock [] st = (st, Inr i)"
| "configure_loop ch flt i clock (c # cs) st =
     (if flt i then (st, Inl SqlError)
      else let new = configured_update c
                       ((default_row (tc_topic c))\<lparr>tr_last_seen := Some (to_rfc3339 ch (clock i))\<rparr>)
           in configure_loop ch flt (i + 1) clock cs
                (st\<lparr>st_topics := sql_upsert tr_topic new (\<lambda>_. True) (configured_update c) (st_topics st),
                    st_config := hput (tc_topic c) c (st_config st)\<rparr>))"

definition db_configure_topics ::
  "chrono \<Rightarrow> faults \<Rightarrow> (nat \<Rightarrow> int) \<Rightarrow> topic_config list \<Rightarrow> stats \<Rightarrow> stats \<times> (sql_error + topic_config list)" where
  "db_configure_topics ch flt clock configs st =
     (case configure_loop ch flt 0 clock configs st of
        (st, Inl e) \<Rightarrow> (st, Inl e)
      | (st, Inr i) \<Rightarrow> (st, list_topic_configs flt i st))"

subsection \<open>Counters\<close>

definition record_message_trend :: "chrono \<Rightarrow> int \<Rightarrow> int \<Rightarrow> int \<Rightarrow> stats \<Rightarrow> stats" where
  "record_message_trend ch now accepted delivered st =
     (if accepted = 0 \<and> delivered = 0 then st
      else let minute = format_minute ch now;
               d = (case hget (st_trend_deltas st) minute of
                      None \<Rightarrow> \<lparr>tn_accepted = 0, tn_delivered = 0\<rparr> | Some d \<Rightarrow> d)
           in st\<lparr>st_trend_deltas := hput minute
                   \<lparr>tn_accepted = tn_accepted d + accepted, tn_delivered = tn_delivered d + delivered\<rparr>
                   (st_trend_deltas st)\<rparr>)"

definition zero_delta :: topic_delta where
  "zero_delta = \<lparr>td_accepted = 0, td_duplicates = 0, td_delivered = 0\<rparr>"

definition add_delta :: "topic_delta \<Rightarrow> topic_delta \<Rightarrow> topic_delta" where
  "add_delta a b = \<lparr>td_accepted = td_accepted a + td_accepted b,
                    td_duplicates = td_duplicates a + td_duplicates b,
                    td_delivered = td_delivered a + td_delivered b\<rparr>"

definition delta_of :: "(string, topic_delta) hmap \<Rightarrow> string \<Rightarrow> topic_delta" where
  "delta_of m topic = (case hget m topic of None \<Rightarrow> zero_delta | Some d \<Rightarrow> d)"

definition merge_delta :: "string \<times> topic_delta \<Rightarrow> (string, topic_delta) hmap \<Rightarrow> (string, topic_delta) hmap" where
  "merge_delta = (\<lambda>(topic, d) m. hput topic (add_delta (delta_of m topic) d) m)"

definition record_topic_stats :: "chrono \<Rightarrow> int \<Rightarrow> string \<Rightarrow> topic_delta \<Rightarrow> stats \<Rightarrow> stats" where
  "record_topic_stats ch now topic delta st =
     record_message_trend ch now (td_accepted delta) (td_delivered delta)
       (st\<lparr>st_deltas := merge_delta (topic, delta) (st_deltas st)\<rparr>)"

definition flush_update :: "topic_delta \<Rightarrow> string \<Rightarrow> topic_row \<Rightarrow> topic_row" where
  "flush_update d now r =
     r\<lparr>tr_accepted := tr_accepted r + td_accepted d, tr_duplicates := tr_duplicates r + td_duplicates d,
       tr_delivered := tr_delivered r + td_delivered d, tr_last_seen := Some now\<rparr>"

definition flush_row :: "string \<Rightarrow> string \<times> topic_delta \<Rightarrow> topic_row list \<Rightarrow> topic_row list" where
  "flush_row now = (\<lambda>(topic, d) rows.
     sql_upsert tr_topic (flush_update d now (default_row topic)) (\<lambda>_. True) (flush_update d now) rows)"

text \<open>
  The transaction is one \<open>begin\<close>, one statement per topic and one \<open>commit\<close>; when one of them
  fails it is rolled back and the deltas are merged back.
\<close>

definition flush_topic_stats ::
  "chrono \<Rightarrow> faults \<Rightarrow> nat \<Rightarrow> int \<Rightarrow> (string \<times> topic_delta) list \<Rightarrow> stats \<Rightarrow> stats \<times> (sql_error + nat)" where
  "flush_topic_stats ch flt i now meanwhile st =
     (let pending = st_deltas st; st = st\<lparr>st_deltas := []\<rparr> in
      if pending = [] then (st, Inr 0)
      else let st = st\<lparr>st_deltas := fold merge_delta meanwhile (st_deltas st)\<rparr> in
        if any_fault flt i (length pending + 2)
        then (st\<lparr>st_deltas := fold merge_delta pending (st_deltas st)\<rparr>, Inl SqlError)
        else (st\<lparr>st_topics := fold (flush_row (to_rfc3339 ch now)) pending (st_topics st)\<rparr>,
              Inr (length pending)))"

definition bump_update :: "int \<Rightarrow> int \<Rightarrow> int \<Rightarrow> int \<Rightarrow> string \<Rightarrow> topic_row \<Rightarrow> topic_row" where
  "bump_update accepted duplicates delivered failed now r =
     r\<lparr>tr_accepted := tr_accepted r + accepted, tr_duplicates := tr_duplicates r + duplicates,
       tr_delivered := tr_delivered r + delivered, tr_failed := tr_failed r + failed,
       tr_last_seen := Some now\<rparr>"

text \<open>\<open>t_trend\<close> is the clock reading of \<open>record_message_trend\<close>.\<close>

definition bump_topic_stat ::
  "chrono \<Rightarrow> faults \<Rightarrow> nat \<Rightarrow> int \<Rightarrow> int \<Rightarrow> string \<Rightarrow> int \<Rightarrow> int \<Rightarrow> int \<Rightarrow> int \<Rightarrow> stats \<Rightarrow> stats \<times> (sql_error + unit)" where
  "bump_topic_stat ch flt i now t_trend topic accepted duplicates delivered failed st =
     (if flt i then (st, Inl SqlError)
      else let upd = bump_update accepted duplicates delivered failed (to_rfc3339 ch now)
           in (record_message_trend ch t_trend accepted delivered
                 (st\<lparr>st_topics := sql_upsert tr_topic (upd (default_row topic)) (\<lambda>_. True) upd (st_topics st)\<rparr>),
               Inr ()))"

definition dropped_update :: "int \<Rightarrow> string \<Rightarrow> topic_row \<Rightarrow> topic_row" where
  "dropped_update dropped now r = r\<lparr>tr_dropped := tr_dropped r + dropped, tr_last_seen := Some now\<rparr>"

definition bump_dropped ::
  "chrono \<Rightarrow> faults \<Rightarrow> nat \<Rightarrow> int \<Rightarrow> string \<Rightarrow> int \<Rightarrow> stats \<Rightarrow> stats \<times> (sql_error + unit)" where
  "bump_dropped ch flt i now topic dropped st =
     (if flt i then (st, Inl SqlError)
      else let upd = dropped_update dropped (to_rfc3339 ch now)
           in (st\<lparr>st_topics := sql_upsert tr_topic (upd (default_row topic)) (\<lambda>_. True) upd (st_topics st)\<rparr>,
               Inr ()))"

definition accept_dropped ::
  "chrono \<Rightarrow> faults \<Rightarrow> int \<Rightarrow> int \<Rightarrow> int \<Rightarrow> string \<Rightarrow> string \<Rightarrow> stats \<Rightarrow> stats \<times> (sql_error + string)" where
  "accept_dropped ch flt now t_trend now2 uuid topic st =
     (case bump_topic_stat ch flt 0 now t_trend topic 1 0 0 0 st of
        (st, Inl e) \<Rightarrow> (st, Inl e)
      | (st, Inr _) \<Rightarrow>
          (case bump_dropped ch flt 1 now2 topic 1 st of
             (st, Inl e) \<Rightarrow> (st, Inl e)
           | (st, Inr _) \<Rightarrow> (st, Inr uuid)))"

definition record_live_fanout ::
  "chrono \<Rightarrow> faults \<Rightarrow> int \<Rightarrow> int \<Rightarrow> string \<Rightarrow> stats \<Rightarrow> stats \<times> (sql_error + unit)" where
  "record_live_fanout ch flt now t_trend topic st = bump_topic_stat ch flt 0 now t_trend topic 1 0 1 0 st"

definition reset_update :: "topic_row \<Rightarrow> topic_row" where
  "reset_update r = r\<lparr>tr_accepted := 0, tr_duplicates := 0, tr_delivered := 0, tr_failed := 0, tr_dropped := 0,
     tr_pending := 0, tr_processing := 0\<rparr>"

text \<open>The loop of \<open>reset_topic_stats\<close> over the names, one statement per hit.\<close>

fun reset_loop :: "faults \<Rightarrow> nat \<Rightarrow> string \<Rightarrow> string list \<Rightarrow> topic_row list \<Rightarrow> topic_row list \<times> (sql_error + unit)" where
  "reset_loop flt i f [] rows = (rows, Inr ())"
| "reset_loop flt i f (name # names) rows =
     (if name = f \<or> filter_matches f name then
        (if flt i then (rows, Inl SqlError)
         else reset_loop flt (i + 1) f names
                (snd (sql_update (\<lambda>r. tr_topic r = name) reset_update rows)))
      else reset_loop flt i f names rows)"

definition reset_topic_stats :: "faults \<Rightarrow> nat \<Rightarrow> string \<Rightarrow> stats \<Rightarrow> stats \<times> (sql_error + unit)" where
  "reset_topic_stats flt i f st =
     (if flt i then (st, Inl SqlError)
      else let (rows, r) = reset_loop flt (i + 1) f (map tr_topic (st_topics st)) (st_topics st)
           in (st\<lparr>st_topics := rows\<rparr>, r))"

subsection \<open>Trends\<close>

definition add_trend :: "trend_delta \<Rightarrow> trend_delta \<Rightarrow> trend_delta" where
  "add_trend a b = \<lparr>tn_accepted = tn_accepted a + tn_accepted b, tn_delivered = tn_delivered a + tn_delivered b\<rparr>"

definition merge_trend :: "string \<times> trend_delta \<Rightarrow> (string, trend_delta) hmap \<Rightarrow> (string, trend_delta) hmap" where
  "merge_trend = (\<lambda>(minute, d) m.
     hput minute (add_trend (case hget m minute of None \<Rightarrow> \<lparr>tn_accepted = 0, tn_delivered = 0\<rparr> | Some x \<Rightarrow> x) d) m)"

definition trend_update :: "trend_delta \<Rightarrow> trend_row \<Rightarrow> trend_row" where
  "trend_update d r = r\<lparr>tp_accepted := tp_accepted r + tn_accepted d, tp_delivered := tp_delivered r + tn_delivered d\<rparr>"

definition trend_flush_row :: "string \<times> trend_delta \<Rightarrow> trend_row list \<Rightarrow> trend_row list" where
  "trend_flush_row = (\<lambda>(minute, d) rows.
     sql_upsert tp_minute (trend_update d \<lparr>tp_minute = minute, tp_accepted = 0, tp_delivered = 0\<rparr>)
       (\<lambda>_. True) (trend_update d) rows)"

definition flush_message_trends ::
  "chrono \<Rightarrow> faults \<Rightarrow> int \<Rightarrow> (string \<times> trend_delta) list \<Rightarrow> stats \<Rightarrow> stats \<times> (sql_error + nat)" where
  "flush_message_trends ch flt now meanwhile st =
     (let pending = st_trend_deltas st; st = st\<lparr>st_trend_deltas := []\<rparr> in
      if pending = [] then (st, Inr 0)
      else let st = st\<lparr>st_trend_deltas := fold merge_trend meanwhile (st_trend_deltas st)\<rparr> in
        if any_fault flt 0 (length pending + 3)
        then (st\<lparr>st_trend_deltas := fold merge_trend pending (st_trend_deltas st)\<rparr>, Inl SqlError)
        else let cutoff = format_minute ch (now - 7 * 24 * 3600 * sec)
             in (st\<lparr>st_trends := snd (sql_delete (\<lambda>r. tp_minute r < cutoff)
                                   (fold trend_flush_row pending (st_trends st)))\<rparr>,
                 Inr (length pending)))"

definition trend_point :: "string \<Rightarrow> string \<times> trend_delta \<Rightarrow> (string, trend_row) hmap \<Rightarrow> (string, trend_row) hmap" where
  "trend_point cutoff = (\<lambda>(minute, d) points.
     if minute < cutoff then points
     else hput minute (trend_update d (case hget points minute of
                 None \<Rightarrow> \<lparr>tp_minute = minute, tp_accepted = 0, tp_delivered = 0\<rparr> | Some p \<Rightarrow> p)) points)"

definition message_trends :: "chrono \<Rightarrow> faults \<Rightarrow> int \<Rightarrow> nat \<Rightarrow> stats \<Rightarrow> sql_error + trend_row list" where
  "message_trends ch flt now minutes st =
     (let minutes = min (max minutes 10) 1440;
          cutoff = format_minute ch (now - int (minutes - 1) * 60 * sec)
      in if flt 0 then Inl SqlError
         else let points = map (\<lambda>r. (tp_minute r, r)) (filter (\<lambda>r. cutoff \<le> tp_minute r) (st_trends st));
                  points = fold (trend_point cutoff) (st_trend_deltas st) points
              in Inr (sort_key tp_minute (map snd points)))"

subsection \<open>Deltas\<close>

lemma add_delta_simps [simp]:
  "add_delta zero_delta d = d" "add_delta d zero_delta = d"
  by (simp_all add: add_delta_def zero_delta_def)

lemma add_delta_ac: "add_delta a b = add_delta b a" "add_delta (add_delta a b) c = add_delta a (add_delta b c)"
  "add_delta a (add_delta b c) = add_delta b (add_delta a c)"
  by (simp_all add: add_delta_def)

text \<open>What a list of recorded deltas adds for a topic.\<close>

fun delta_sum :: "(string \<times> topic_delta) list \<Rightarrow> string \<Rightarrow> topic_delta" where
  "delta_sum [] topic = zero_delta"
| "delta_sum ((t, d) # ds) topic =
     (if t = topic then add_delta d (delta_sum ds topic) else delta_sum ds topic)"

definition stored_delta :: "topic_row list \<Rightarrow> string \<Rightarrow> topic_delta" where
  "stored_delta rows topic =
     (case row_of tr_topic topic rows of
        None \<Rightarrow> zero_delta
      | Some r \<Rightarrow> \<lparr>td_accepted = tr_accepted r, td_duplicates = tr_duplicates r, td_delivered = tr_delivered r\<rparr>)"

text \<open>The counters of a topic as a reader who flushes first would see them.\<close>

definition total_delta :: "stats \<Rightarrow> string \<Rightarrow> topic_delta" where
  "total_delta st topic = add_delta (stored_delta (st_topics st) topic) (delta_of (st_deltas st) topic)"

lemma delta_of_merge: "delta_of (merge_delta (t, d) m) topic
    = (if t = topic then add_delta (delta_of m topic) d else delta_of m topic)"
  by (simp add: merge_delta_def delta_of_def)

lemma delta_of_fold_merge: "delta_of (fold merge_delta ds m) topic = add_delta (delta_of m topic) (delta_sum ds topic)"
  by (induction ds arbitrary: m) (auto simp: delta_of_merge add_delta_ac)

lemma delta_sum_absent: "topic \<notin> fst ` set m \<Longrightarrow> delta_sum m topic = zero_delta"
  by (induction m) auto

lemma delta_sum_hmap: "hmap_ok m \<Longrightarrow> delta_sum m topic = delta_of m topic"
proof (induction m)
  case (Cons p m)
  then show ?case
    using delta_sum_absent [of topic m]
    by (cases p) (auto simp: hmap_ok_def delta_of_def image_iff)
qed (simp add: delta_of_def)

interpretation flush_upd: keyed_update tr_topic "flush_update d now" for d now
  by unfold_locales (simp add: flush_update_def)

lemma stored_flush_row: "stored_delta (flush_row now (t, d) rows) topic
    = (if t = topic then add_delta (stored_delta rows topic) d else stored_delta rows topic)"
proof -
  have key: "tr_topic (flush_update d now (default_row t)) = t"
    by (simp add: flush_update_def default_row_def)
  show ?thesis
    by (auto simp: flush_row_def stored_delta_def flush_upd.row_of_upsert key split: option.split)
      (simp_all add: flush_update_def default_row_def add_delta_def)
qed

lemma stored_fold_flush_row:
  "stored_delta (fold (flush_row now) ds rows) topic = add_delta (stored_delta rows topic) (delta_sum ds topic)"
proof (induction ds arbitrary: rows)
  case (Cons p ds)
  then show ?case by (cases p) (simp add: stored_flush_row add_delta_ac)
qed simp

lemma flush_total:
  assumes "hmap_ok (st_deltas st)"
  shows "total_delta (fst (flush_topic_stats ch flt i now meanwhile st)) topic
    = add_delta (total_delta st topic)
        (if st_deltas st = [] then zero_delta else delta_sum meanwhile topic)"
proof -
  have empty: "delta_of [] topic = zero_delta" by (simp add: delta_of_def)
  show ?thesis
    using assms
    by (auto simp: flush_topic_stats_def Let_def total_delta_def stored_fold_flush_row delta_of_fold_merge
        delta_sum_hmap empty add_delta_ac)
qed

lemma hmap_ok_merge: "hmap_ok m \<Longrightarrow> hmap_ok (merge_delta p m)"
  by (cases p) (simp add: merge_delta_def)

lemma hmap_ok_fold_merge: "hmap_ok m \<Longrightarrow> hmap_ok (fold merge_delta ds m)"
  by (induction ds arbitrary: m) (auto intro: hmap_ok_merge)

subsection \<open>Settings and their cache\<close>

text \<open>The settings of a topic according to the table.\<close>

definition settings :: "topic_row list \<Rightarrow> string \<Rightarrow> topic_config" where
  "settings rows topic =
     (case row_of tr_topic topic rows of None \<Rightarrow> implicit topic | Some r \<Rightarrow> row_config r)"

definition stats_ok :: "stats \<Rightarrow> bool" where
  "stats_ok st \<longleftrightarrow>
     unique_key tr_topic (st_topics st) \<and> hmap_ok (st_config st) \<and> hmap_ok (st_deltas st) \<and>
     (\<forall>t c. hget (st_config st) t = Some c \<longrightarrow> c = settings (st_topics st) t)"

text \<open>The topic was configured explicitly as \<open>c\<close>.\<close>

definition pinned :: "topic_row list \<Rightarrow> topic_config \<Rightarrow> bool" where
  "pinned rows c \<longleftrightarrow>
     (\<exists>r. row_of tr_topic (tc_topic c) rows = Some r \<and> tr_configured r \<and> row_config r = c)"

lemma pinned_settings: "pinned rows c \<Longrightarrow> settings rows (tc_topic c) = c"
  by (auto simp: pinned_def settings_def)

lemma stored_modes:
  "delivery_from_stored (delivery_as_str d) = d" "persistence_from_stored (persistence_as_str m) = m"
  "delivery_from_stored ''broadcast'' = Broadcast" "persistence_from_stored ''ephemeral'' = Ephemeral"
proof -
  show "delivery_from_stored (delivery_as_str d) = d" by (cases d, simp_all only:, code_simp+)
  show "persistence_from_stored (persistence_as_str m) = m" by (cases m, simp_all only:, code_simp+)
  show "delivery_from_stored ''broadcast'' = Broadcast" "persistence_from_stored ''ephemeral'' = Ephemeral"
    by code_simp+
qed

lemma row_config_default: "row_config (default_row t) = implicit t"
  by (simp add: row_config_def default_row_def implicit_def stored_modes)

text \<open>An update of a topic row that leaves the key and the settings alone.\<close>

locale neutral_update = keyed_update tr_topic upd for upd :: "topic_row \<Rightarrow> topic_row" +
  assumes config_upd: "row_config (upd r) = row_config r"
    and configured_upd: "tr_configured (upd r) = tr_configured r"
begin

lemma settings_upsert:
  "settings (sql_upsert tr_topic (upd (default_row t)) (\<lambda>_. True) upd rows) = settings rows"
proof
  fix x
  have k: "tr_topic (upd (default_row t)) = t" by (simp add: key_upd default_row_def)
  show "settings (sql_upsert tr_topic (upd (default_row t)) (\<lambda>_. True) upd rows) x = settings rows x"
    using k by (auto simp: settings_def row_of_upsert config_upd row_config_default split: option.split)
qed

lemma settings_update: "settings (snd (sql_update P upd rows)) = settings rows"
  by (rule ext) (auto simp: settings_def row_of_update config_upd split: option.split)

lemma pinned_upsert:
  "pinned rows c \<Longrightarrow> pinned (sql_upsert tr_topic (upd (default_row t)) (\<lambda>_. True) upd rows) c"
  by (auto simp: pinned_def row_of_upsert config_upd configured_upd)

lemma pinned_update: "pinned rows c \<Longrightarrow> pinned (snd (sql_update P upd rows)) c"
  unfolding pinned_def row_of_update
  by (elim exE) (rule_tac x = "if P r then upd r else r" in exI, simp add: config_upd configured_upd)

lemmas neutral = settings_upsert settings_update unique_upsert unique_update

end

lemmas update_defs = flush_update_def bump_update_def dropped_update_def reset_update_def row_config_def

interpretation flush_n: neutral_update "flush_update d now" for d now
  by unfold_locales (simp_all add: update_defs)
interpretation bump_n: neutral_update "bump_update a b c d now" for a b c d now
  by unfold_locales (simp_all add: update_defs)
interpretation dropped_n: neutral_update "dropped_update n now" for n now
  by unfold_locales (simp_all add: update_defs)
interpretation reset_n: neutral_update reset_update
  by unfold_locales (simp_all add: update_defs)
interpretation configured_k: keyed_update tr_topic "configured_update c" for c
  by unfold_locales (simp add: configured_update_def)
interpretation subscribed_k: keyed_update tr_topic "subscribed_update p now" for p now
  by unfold_locales (simp add: subscribed_update_def)

lemma settings_flush_rows: "settings (fold (flush_row now) ds rows) = settings rows"
  by (induction ds arbitrary: rows) (auto simp: flush_row_def flush_n.settings_upsert)

lemma unique_flush_rows: "unique_key tr_topic rows \<Longrightarrow> unique_key tr_topic (fold (flush_row now) ds rows)"
  by (induction ds arbitrary: rows) (auto simp: flush_row_def flush_upd.unique_upsert)

lemma pinned_flush_rows: "pinned rows c \<Longrightarrow> pinned (fold (flush_row now) ds rows) c"
  by (induction ds arbitrary: rows) (auto simp: flush_row_def flush_n.pinned_upsert)

lemma reset_loop_neutral:
  "settings (fst (reset_loop flt i f names rows)) = settings rows \<and>
   unique_key tr_topic (fst (reset_loop flt i f names rows)) = unique_key tr_topic rows \<and>
   (pinned rows c \<longrightarrow> pinned (fst (reset_loop flt i f names rows)) c)"
  by (induction flt i f names rows rule: reset_loop.induct)
    (auto simp: reset_n.settings_update reset_n.unique_update reset_n.pinned_update)

text \<open>The operations on the settings and counters, in any order and with any failures.\<close>

datatype stats_op =
  SConfig faults string
| SNote faults int string
| SConfigure faults "nat \<Rightarrow> int" "topic_config list"
| SRecord int string topic_delta
| SFlush faults nat int "(string \<times> topic_delta) list"
| SBump faults nat int int string int int int int
| SDropped faults nat int string int
| SReset faults nat string

fun stats_apply :: "chrono \<Rightarrow> stats_op \<Rightarrow> stats \<Rightarrow> stats" where
  "stats_apply ch (SConfig flt t) st = fst (db_topic_config flt t st)"
| "stats_apply ch (SNote flt now t) st = fst (note_subscribed_topic ch flt now t st)"
| "stats_apply ch (SConfigure flt clock cs) st = fst (db_configure_topics ch flt clock cs st)"
| "stats_apply ch (SRecord now t d) st = record_topic_stats ch now t d st"
| "stats_apply ch (SFlush flt i now ms) st = fst (flush_topic_stats ch flt i now ms st)"
| "stats_apply ch (SBump flt i now tt t a b c d) st = fst (bump_topic_stat ch flt i now tt t a b c d st)"
| "stats_apply ch (SDropped flt i now t n) st = fst (bump_dropped ch flt i now t n st)"
| "stats_apply ch (SReset flt i f) st = fst (reset_topic_stats flt i f st)"

fun configures :: "string \<Rightarrow> stats_op \<Rightarrow> bool" where
  "configures t (SConfigure _ _ cs) = (t \<in> tc_topic ` set cs)"
| "configures t _ = False"

lemma record_message_trend_sel [simp]:
  "st_topics (record_message_trend ch now a d st) = st_topics st"
  "st_config (record_message_trend ch now a d st) = st_config st"
  "st_deltas (record_message_trend ch now a d st) = st_deltas st"
  by (simp_all add: record_message_trend_def Let_def)

lemma row_config_configured: "row_config (configured_update c r) = c\<lparr>tc_topic := tr_topic r\<rparr>"
  by (simp add: row_config_def configured_update_def stored_modes)

lemma settings_configured:
  assumes "new = configured_update c ((default_row (tc_topic c))\<lparr>tr_last_seen := x\<rparr>)"
  shows "settings (sql_upsert tr_topic new (\<lambda>_. True) (configured_update c) rows) t
    = (if t = tc_topic c then c else settings rows t)"
    "pinned (sql_upsert tr_topic new (\<lambda>_. True) (configured_update c) rows) c"
    "tc_topic d \<noteq> tc_topic c \<Longrightarrow> pinned rows d \<Longrightarrow>
       pinned (sql_upsert tr_topic new (\<lambda>_. True) (configured_update c) rows) d"
proof -
  have new: "tr_topic new = tc_topic c" "row_config new = c" "tr_configured new"
    using assms by (simp_all add: configured_update_def default_row_def row_config_def stored_modes)
  have key: "tr_topic r = k" if "row_of tr_topic k rows = Some r" for r k
    using that by (rule row_of_key)
  show "settings (sql_upsert tr_topic new (\<lambda>_. True) (configured_update c) rows) t
    = (if t = tc_topic c then c else settings rows t)"
    using new key by (auto simp: settings_def configured_k.row_of_upsert row_config_configured split: option.split)
  show "pinned (sql_upsert tr_topic new (\<lambda>_. True) (configured_update c) rows) c"
    using new key
    by (auto simp: pinned_def configured_k.row_of_upsert row_config_configured split: option.split)
      (simp add: configured_update_def)
  show "tc_topic d \<noteq> tc_topic c \<Longrightarrow> pinned rows d \<Longrightarrow>
       pinned (sql_upsert tr_topic new (\<lambda>_. True) (configured_update c) rows) d"
    using new by (auto simp: pinned_def configured_k.row_of_upsert)
qed

lemma configure_loop_ok:
  "stats_ok st \<Longrightarrow> stats_ok (fst (configure_loop ch flt i clock cs st)) \<and>
   (tc_topic d \<notin> tc_topic ` set cs \<longrightarrow> pinned (st_topics st) d \<longrightarrow>
      pinned (st_topics (fst (configure_loop ch flt i clock cs st))) d)"
proof (induction ch flt i clock cs st rule: configure_loop.induct)
  case (2 ch flt i clock c cs st)
  let ?new = "configured_update c ((default_row (tc_topic c))\<lparr>tr_last_seen := Some (to_rfc3339 ch (clock i))\<rparr>)"
  let ?st = "st\<lparr>st_topics := sql_upsert tr_topic ?new (\<lambda>_. True) (configured_update c) (st_topics st),
                st_config := hput (tc_topic c) c (st_config st)\<rparr>"
  have "stats_ok ?st"
    using "2.prems" by (auto simp: stats_ok_def settings_configured(1) configured_k.unique_upsert)
  with 2 show ?case
    using settings_configured(3) [OF refl, of d c "st_topics st"] by (auto simp: Let_def)
qed simp

lemma settings_subscribed:
  "x \<noteq> tr_topic r \<Longrightarrow>
   settings (sql_upsert tr_topic r (\<lambda>_. True) (subscribed_update p now) rows) x = settings rows x"
  by (simp add: settings_def subscribed_k.row_of_upsert)

lemma stats_ok_sel:
  assumes "stats_ok st" "settings (st_topics st') = settings (st_topics st)"
    "unique_key tr_topic (st_topics st')" "hmap_ok (st_deltas st')" "st_config st' = st_config st"
  shows "stats_ok st'"
  using assms by (simp add: stats_ok_def)

lemma db_topic_config_ok:
  assumes "stats_ok st"
  shows "stats_ok (fst (db_topic_config flt t st))"
    "\<not> flt 0 \<Longrightarrow> snd (db_topic_config flt t st) = Inr (settings (st_topics st) t)"
proof -
  have eq: "db_topic_config flt t st =
    (case hget (st_config st) t of
        Some config \<Rightarrow> (st, Inr config)
      | None \<Rightarrow> if flt 0 then (st, Inl SqlError)
          else (st\<lparr>st_config := hput t (settings (st_topics st) t) (st_config st)\<rparr>,
                Inr (settings (st_topics st) t)))"
    by (simp only: db_topic_config_def settings_def Let_def)
  show "stats_ok (fst (db_topic_config flt t st))"
    using assms by (auto simp: eq stats_ok_def split: option.split)
  show "\<not> flt 0 \<Longrightarrow> snd (db_topic_config flt t st) = Inr (settings (st_topics st) t)"
    using assms by (auto simp: eq stats_ok_def split: option.split)
qed

lemma flush_ok: "stats_ok st \<Longrightarrow> stats_ok (fst (flush_topic_stats ch flt i now ms st))"
  by (rule stats_ok_sel [of st])
    (auto simp: stats_ok_def flush_topic_stats_def Let_def settings_flush_rows unique_flush_rows hmap_ok_fold_merge)

lemma note_ok: "stats_ok st \<Longrightarrow> stats_ok (fst (note_subscribed_topic ch flt now t st))"
proof -
  assume ok: "stats_ok st"
  define p where "p = (if CHR ''#'' \<in> set t \<or> CHR ''+'' \<in> set t then ''persistent'' else ''ephemeral'')"
  define new where "new = (default_row t)\<lparr>tr_persistence := p, tr_last_seen := Some (to_rfc3339 ch now)\<rparr>"
  have "tr_topic new = t" by (simp add: new_def default_row_def)
  with ok show ?thesis
    unfolding note_subscribed_topic_def p_def [symmetric] Let_def new_def [symmetric]
    by (auto simp: stats_ok_def subscribed_k.unique_upsert settings_subscribed)
qed

lemma stats_apply_ok: "stats_ok st \<Longrightarrow> stats_ok (stats_apply ch op st)"
proof (cases op)
  case (SConfigure flt clock cs)
  assume "stats_ok st"
  with SConfigure configure_loop_ok [of st ch flt 0 clock cs] show ?thesis
    by (auto simp: db_configure_topics_def split_beta split: sum.split)
next
  case (SReset flt i f)
  assume "stats_ok st"
  with SReset reset_loop_neutral [of flt "i + 1" f "map tr_topic (st_topics st)" "st_topics st"] show ?thesis
    by (auto simp: stats_ok_def reset_topic_stats_def split_beta Let_def)
next
  case (SRecord now t d)
  assume "stats_ok st"
  then show ?thesis
    by (rule stats_ok_sel) (use SRecord \<open>stats_ok st\<close> in
        \<open>auto simp: record_topic_stats_def stats_ok_def hmap_ok_merge\<close>)
next
  case (SBump flt i now tt t a b c d)
  assume "stats_ok st"
  then show ?thesis
    by (rule stats_ok_sel) (use SBump \<open>stats_ok st\<close> in
        \<open>auto simp: bump_topic_stat_def Let_def stats_ok_def bump_n.neutral\<close>)
next
  case (SDropped flt i now t n)
  assume "stats_ok st"
  then show ?thesis
    by (rule stats_ok_sel) (use SDropped \<open>stats_ok st\<close> in
        \<open>auto simp: bump_dropped_def Let_def stats_ok_def dropped_n.neutral\<close>)
qed (simp_all add: db_topic_config_ok flush_ok note_ok)

lemma stats_apply_pinned:
  assumes "stats_ok st" "pinned (st_topics st) c" "\<not> configures (tc_topic c) op"
  shows "pinned (st_topics (stats_apply ch op st)) c"
proof (cases op)
  case (SNote flt now t)
  with assms(2) show ?thesis
    by (auto simp: note_subscribed_topic_def Let_def pinned_def subscribed_k.row_of_upsert subscribed_update_def
        row_config_def default_row_def)
next
  case (SConfigure flt clock cs)
  with assms configure_loop_ok [OF assms(1), of ch flt 0 clock cs c] show ?thesis
    by (auto simp: db_configure_topics_def split_beta split: sum.split)
next
  case (SReset flt i f)
  with assms(2) reset_loop_neutral [of flt "i + 1" f "map tr_topic (st_topics st)" "st_topics st" c] show ?thesis
    by (auto simp: reset_topic_stats_def split_beta Let_def)
qed (use assms(2) in \<open>auto simp: db_topic_config_def record_topic_stats_def flush_topic_stats_def
    bump_topic_stat_def bump_dropped_def Let_def pinned_flush_rows bump_n.pinned_upsert dropped_n.pinned_upsert
    split: option.split\<close>)

lemma stats_run:
  "stats_ok st \<Longrightarrow> stats_ok (fold (stats_apply ch) ops st) \<and>
   (pinned (st_topics st) c \<longrightarrow> list_all (\<lambda>op. \<not> configures (tc_topic c) op) ops \<longrightarrow>
      pinned (st_topics (fold (stats_apply ch) ops st)) c)"
  by (induction ops arbitrary: st) (auto simp: stats_apply_ok stats_apply_pinned)

subsection \<open>Properties\<close>

text \<open>C35. A flush of the counters loses and invents nothing: whether it succeeds or is rolled
  back, for every topic the stored plus the pending counters are afterwards what they were before
  plus what was recorded meanwhile.\<close>

theorem flush_conserves_counts:
  assumes "hmap_ok (st_deltas st)"
  shows "total_delta (fst (flush_topic_stats ch flt i now meanwhile st)) topic
    = add_delta (total_delta st topic)
        (if st_deltas st = [] then zero_delta else delta_sum meanwhile topic)"
  using assms by (rule flush_total)

theorem flush_conserves_counts_witness:
  "total_delta (fst (flush_topic_stats plain_chrono (\<lambda>j. j = 1) 0 5
       [(''a'', \<lparr>td_accepted = 1, td_duplicates = 0, td_delivered = 0\<rparr>)]
       \<lparr>st_topics = [], st_config = [],
        st_deltas = [(''a'', \<lparr>td_accepted = 2, td_duplicates = 1, td_delivered = 0\<rparr>)],
        st_trend_deltas = [], st_trends = []\<rparr>)) ''a''
   = \<lparr>td_accepted = 3, td_duplicates = 1, td_delivered = 0\<rparr>"
proof -
  let ?st = "\<lparr>st_topics = [], st_config = [],
        st_deltas = [(''a'', \<lparr>td_accepted = 2, td_duplicates = 1, td_delivered = 0\<rparr>)],
        st_trend_deltas = [], st_trends = []\<rparr>"
  have "hmap_ok (st_deltas ?st)" by (simp add: hmap_ok_def)
  from flush_conserves_counts [OF this, of plain_chrono "\<lambda>j. j = 1" 0 5
      "[(''a'', \<lparr>td_accepted = 1, td_duplicates = 0, td_delivered = 0\<rparr>)]" "''a''"]
  show ?thesis
    by (simp add: total_delta_def stored_delta_def row_of_def delta_of_def add_delta_def zero_delta_def)
qed

text \<open>An explicit configuration wins: after \<open>configure_topics\<close> with \<open>c\<close>, no sequence of
  subscriptions, counter updates, flushes, resets or configurations of other topics, with any
  failures, changes what \<open>topic_config\<close> answers for its topic, through the cache or the table.\<close>

theorem configured_topic_wins:
  assumes "stats_ok st" "pinned (st_topics st) c"
    and "list_all (\<lambda>op. \<not> configures (tc_topic c) op) ops" "\<not> flt 0"
  shows "snd (db_topic_config flt (tc_topic c) (fold (stats_apply ch) ops st)) = Inr c"
  using stats_run [OF assms(1), of ch ops c] assms(2-4) db_topic_config_ok(2) pinned_settings by metis

theorem configured_topic_wins_witness:
  "snd (db_topic_config no_faults ''t'' (fold (stats_apply plain_chrono)
     [SNote no_faults 3 ''t'', SDropped no_faults 0 4 ''t'' 1]
     (fst (db_configure_topics plain_chrono no_faults (\<lambda>_. 1)
        [\<lparr>tc_topic = ''t'', tc_delivery = Single, tc_persistence = Persistent\<rparr>]
        \<lparr>st_topics = [], st_config = [], st_deltas = [], st_trend_deltas = [], st_trends = []\<rparr>))))
   = Inr \<lparr>tc_topic = ''t'', tc_delivery = Single, tc_persistence = Persistent\<rparr>"
proof -
  let ?c = "\<lparr>tc_topic = ''t'', tc_delivery = Single, tc_persistence = Persistent\<rparr>"
  let ?st = "\<lparr>st_topics = [], st_config = [], st_deltas = [], st_trend_deltas = [], st_trends = []\<rparr>"
  have "stats_ok ?st" by (simp add: stats_ok_def)
  then have "stats_ok (fst (db_configure_topics plain_chrono no_faults (\<lambda>_. 1) [?c] ?st))"
    using stats_apply_ok [of ?st plain_chrono "SConfigure no_faults (\<lambda>_. 1) [?c]"] by simp
  moreover have "pinned (st_topics (fst (db_configure_topics plain_chrono no_faults (\<lambda>_. 1) [?c] ?st))) ?c"
    using settings_configured(2) [OF refl, of ?c "Some (to_rfc3339 plain_chrono 1)" "[]"]
    by (simp add: db_configure_topics_def Let_def)
  ultimately show ?thesis
    using configured_topic_wins [of "fst (db_configure_topics plain_chrono no_faults (\<lambda>_. 1) [?c] ?st)" ?c
        "[SNote no_faults 3 ''t'', SDropped no_faults 0 4 ''t'' 1]" no_faults plain_chrono]
    by simp
qed

end
