(* ===== verification/Shards.thy ===== *)
theory Shards
  imports Sql Topic Model
begin

text \<open>
  Where a message lives: the sixteen message shards, the hash that assigns a topic to a shard,
  and the message ids that carry the shard number (\<open>topic_shard\<close>, \<open>new_message_id\<close>,
  \<open>message_id_shard\<close> of \<open>src/src/db.rs\<close>). The random part of an id (\<open>Uuid::new_v4\<close>) is an
  argument.
\<close>

unbundle bit_operations_syntax

definition MESSAGE_SHARDS :: nat where "MESSAGE_SHARDS = 16"

text \<open>FNV-1a over the bytes of the topic, in wrapping 64-bit arithmetic.\<close>

definition fnv_step :: "8 word \<Rightarrow> 64 word \<Rightarrow> 64 word" where
  "fnv_step byte hash = (hash XOR ucast byte) * 0x100000001b3"

definition topic_shard :: "string \<Rightarrow> nat" where
  "topic_shard topic =
     unat (fold fnv_step (as_bytes topic) 0xcbf29ce484222325 AND of_nat (MESSAGE_SHARDS - 1))"

definition prefixed_message_id :: "nat \<Rightarrow> string \<Rightarrow> string" where
  "prefixed_message_id shard uuid = CHR ''s'' # show_pad2 shard @ CHR ''-'' # uuid"

definition new_message_id :: "string \<Rightarrow> string \<Rightarrow> string" where
  "new_message_id topic uuid = prefixed_message_id (topic_shard topic) uuid"

text \<open>
  \<open>str::get(..2)\<close> is \<open>None\<close> when the text is shorter or byte 2 is not at a character boundary.
\<close>

definition str_get_prefix :: "nat \<Rightarrow> string \<Rightarrow> string option" where
  "str_get_prefix n s = (if n \<le> length s \<and> is_char_boundary s n then Some (take n s) else None)"

definition message_id_shard :: "string \<Rightarrow> nat option" where
  "message_id_shard mid =
     (case strip_prefix ''s'' mid of
        None \<Rightarrow> None
      | Some rest \<Rightarrow>
          (case str_get_prefix 2 rest of
             None \<Rightarrow> None
           | Some digits \<Rightarrow>
               (case parse_usize digits of
                  None \<Rightarrow> None
                | Some shard \<Rightarrow>
                    if shard < MESSAGE_SHARDS \<and> 3 < length mid \<and> mid ! 3 = CHR ''-''
                    then Some shard else None)))"

lemma topic_shard_less: "topic_shard t < MESSAGE_SHARDS"
proof -
  let ?h = "fold fnv_step (as_bytes t) 0xcbf29ce484222325"
  have "?h AND 15 \<le> 15" by (rule word_and_le1)
  then have "unat (?h AND 15) \<le> 15" by (simp add: word_le_nat_alt)
  then show ?thesis by (simp add: topic_shard_def MESSAGE_SHARDS_def)
qed

lemma message_id_shard_less: "message_id_shard mid = Some i \<Longrightarrow> i < MESSAGE_SHARDS"
  by (auto simp: message_id_shard_def split: option.splits if_splits)

lemma show_pad2_small:
  assumes "i < 16"
  shows "\<exists>a b. show_pad2 i = [a, b] \<and> is_digit a \<and> is_digit b \<and> parse_usize [a, b] = Some i"
proof -
  have "i < 10 \<or> i div 10 = 1 \<and> i mod 10 < 10" using assms by auto
  then show ?thesis
  proof
    assume i: "i < 10"
    then have "show_pad2 i = [CHR ''0'', digit_char i]" by (simp add: show_pad2_def show_nat.simps)
    moreover have z: "is_digit (CHR ''0'')" "digit_val (CHR ''0'') = 0"
      by (simp_all add: is_digit_def digit_val_def)
    moreover have "parse_usize [CHR ''0'', digit_char i] = Some i"
      using i z by (simp add: parse_usize_def parse_digits_def is_digit_digit_char digit_val_digit_char)
    ultimately show ?thesis using i by (auto simp: is_digit_digit_char)
  next
    assume i: "i div 10 = 1 \<and> i mod 10 < 10"
    then have eq: "show_pad2 i = [digit_char 1, digit_char (i mod 10)]"
      by (auto simp: show_pad2_def show_nat.simps [of i] show_nat.simps [of "Suc 0"])
    have one: "digit_char 1 \<noteq> CHR ''+''"
      using is_digit_digit_char [of 1] not_digit_sign(2) by auto
    have "10 + i mod 10 = i" using i div_mult_mod_eq [of i 10] by simp
    with one i have "parse_usize [digit_char 1, digit_char (i mod 10)] = Some i"
      by (simp add: parse_usize_def parse_digits_def is_digit_digit_char digit_val_digit_char assms
          less_trans [OF assms])
    with eq i show ?thesis by (auto simp: is_digit_digit_char)
  qed
qed

lemma message_id_shard_prefixed:
  assumes "i < MESSAGE_SHARDS"
  shows "message_id_shard (prefixed_message_id i uuid) = Some i"
proof -
  obtain a b where ab: "show_pad2 i = [a, b]" "parse_usize [a, b] = Some i"
    using show_pad2_small [of i] assms by (auto simp: MESSAGE_SHARDS_def)
  have "is_char_boundary (a # b # CHR ''-'' # uuid) 2"
    by (simp add: is_char_boundary_def utf8_cont_def byte_of_char_def word_le_nat_alt of_char_def)
  with ab assms show ?thesis
    by (simp add: message_id_shard_def prefixed_message_id_def strip_prefix_Some [THEN iffD2]
        str_get_prefix_def)
qed

lemma message_id_shard_new [simp]: "message_id_shard (new_message_id topic uuid) = Some (topic_shard topic)"
  by (simp add: new_message_id_def message_id_shard_prefixed topic_shard_less)

end
