(* ===== verification/Messages.thy ===== *)
theory Messages
  imports Shards Stats
begin

text \<open>
  The message queue of \<open>src/src/db.rs\<close>: the table \<open>messages\<close> of each of the sixteen shards and
  every operation on it, from \<open>enqueue_batch\<close> over the claims and their settlement to the
  clean-up. A shard is the list of its rows; the status column is a datatype. Leases are random
  ids and arguments, as are clock readings. JSON encoding and decoding of the attributes are the
  parameters \<open>to_json\<close> and \<open>from_json\<close> (\<open>None\<close> is an error).

  Statements of one call are numbered from 0 in the order in which the code sends them, for the
  fault plan. A transaction that fails is rolled back: the shard keeps its rows.
\<close>

subsection \<open>Rows and state\<close>

datatype msg_status = Pending | Processing | Delivered | Failed | Dropped

definition status_str :: "msg_status \<Rightarrow> string" where
  "status_str s = (case s of Pending \<Rightarrow> ''pending'' | Processing \<Rightarrow> ''processing''
     | Delivered \<Rightarrow> ''delivered'' | Failed \<Rightarrow> ''failed'' | Dropped \<Rightarrow> ''dropped'')"

record msg_row =
  m_id :: string
  m_key :: "string option"
  m_topic :: string
  m_payload :: bytes
  m_attributes :: string
  m_status :: msg_status
  m_attempts :: int
  m_next :: string
  m_error :: "string option"
  m_created :: string
  m_delivered :: "string option"
  m_lease :: "string option"

type_synonym shard = "msg_row list"

record database =
  db_stats :: stats
  db_shards :: "shard list"
  db_cursor :: nat

datatype db_error = DbSql | DbJson | DbDuration | DbConflict | DbRowNotFound | DbNotCopied

definition sql_err :: "sql_error + 'a \<Rightarrow> db_error + 'a" where
  "sql_err r = (case r of Inl _ \<Rightarrow> Inl DbSql | Inr a \<Rightarrow> Inr a)"

abbreviation shard_rows :: "database \<Rightarrow> nat \<Rightarrow> shard" where
  "shard_rows db i \<equiv> db_shards db ! i"

definition set_shard :: "nat \<Rightarrow> shard \<Rightarrow> database \<Rightarrow> database" where
  "set_shard i rows db = db\<lparr>db_shards := (db_shards db)[i := rows]\<rparr>"

subsection \<open>Enqueueing\<close>

record enqueue_input =
  ei_id :: string
  ei_key :: "string option"
  ei_topic :: string
  ei_payload :: bytes
  ei_attributes :: "(string \<times> string) list"

text \<open>\<open>INSERT OR IGNORE\<close>: ignored on a conflict of the id or of the unique idempotency key.\<close>

definition msg_conflict :: "msg_row \<Rightarrow> shard \<Rightarrow> bool" where
  "msg_conflict r rows \<longleftrightarrow>
     (\<exists>x \<in> set rows. m_id x = m_id r \<or> (m_key r \<noteq> None \<and> m_key x = m_key r))"

definition new_msg :: "enqueue_input \<Rightarrow> string \<Rightarrow> string \<Rightarrow> msg_row" where
  "new_msg item attributes now =
     \<lparr>m_id = ei_id item, m_key = ei_key item, m_topic = ei_topic item, m_payload = ei_payload item,
      m_attributes = attributes, m_status = Pending, m_attempts = 0, m_next = now, m_error = None,
      m_created = now, m_delivered = None, m_lease = None\<rparr>"

text \<open>A result: the position in the batch, the topic, the message id and whether it is a duplicate.\<close>

type_synonym enq_result = "nat \<times> string \<times> string \<times> bool"

fun enqueue_items ::
  "chrono \<Rightarrow> ((string \<times> string) list \<Rightarrow> string option) \<Rightarrow> faults \<Rightarrow> (nat \<Rightarrow> int) \<Rightarrow> nat
   \<Rightarrow> (nat \<times> enqueue_input) list \<Rightarrow> shard \<Rightarrow> enq_result list \<Rightarrow> db_error + shard \<times> enq_result list \<times> nat" where
  "enqueue_items ch to_json flt clock k [] rows acc = Inr (rows, acc, k)"
| "enqueue_items ch to_json flt clock k ((index, item) # items) rows acc =
     (case to_json (ei_attributes item) of
        None \<Rightarrow> Inl DbJson
      | Some attributes \<Rightarrow>
          if flt k then Inl DbSql
          else let row = new_msg item attributes (to_rfc3339 ch (clock index)) in
            if msg_conflict row rows then
              (case ei_key item of
                 None \<Rightarrow> Inl DbConflict
               | Some key \<Rightarrow>
                   if flt (k + 1) then Inl DbSql
                   else (case find (\<lambda>r. m_key r = Some key) rows of
                           None \<Rightarrow> Inl DbRowNotFound
                         | Some r \<Rightarrow>
                             enqueue_items ch to_json flt clock (k + 2) items rows
                               (acc @ [(index, ei_topic item, m_id r, True)])))
            else enqueue_items ch to_json flt clock (k + 1) items (rows @ [row])
                   (acc @ [(index, ei_topic item, ei_id item, False)]))"

text \<open>The loop over the shards: \<open>begin\<close>, the items of the group, \<open>commit\<close>.\<close>

fun enqueue_shards ::
  "chrono \<Rightarrow> ((string \<times> string) list \<Rightarrow> string option) \<Rightarrow> faults \<Rightarrow> (nat \<Rightarrow> int) \<Rightarrow> nat
   \<Rightarrow> (nat \<times> enqueue_input) list \<Rightarrow> nat list \<Rightarrow> database \<Rightarrow> enq_result list
   \<Rightarrow> database \<times> (db_error + enq_result list)" where
  "enqueue_shards ch to_json flt clock k items [] db acc = (db, Inr acc)"
| "enqueue_shards ch to_json flt clock k items (i # is) db acc =
     (let group = filter (\<lambda>(_, item). topic_shard (ei_topic item) = i) items in
      if group = [] then enqueue_shards ch to_json flt clock k items is db acc
      else if flt k then (db, Inl DbSql)
      else case enqueue_items ch to_json flt clock (k + 1) group (shard_rows db i) acc of
             Inl e \<Rightarrow> (db, Inl e)
           | Inr (rows, acc, k) \<Rightarrow>
               if flt k then (db, Inl DbSql)
               else enqueue_shards ch to_json flt clock (k + 1) items is (set_shard i rows db) acc)"

definition batch_delta :: "enq_result list \<Rightarrow> string \<Rightarrow> topic_delta" where
  "batch_delta results topic =
     \<lparr>td_accepted = int (length (filter (\<lambda>(_, t, _, dup). t = topic \<and> \<not> dup) results)),
      td_duplicates = int (length (filter (\<lambda>(_, t, _, dup). t = topic \<and> dup) results)),
      td_delivered = 0\<rparr>"

definition record_batch :: "chrono \<Rightarrow> int \<Rightarrow> enq_result list \<Rightarrow> stats \<Rightarrow> stats" where
  "record_batch ch now results st =
     fold (\<lambda>topic. record_topic_stats ch now topic (batch_delta results topic))
       (remdups (map (\<lambda>(_, t, _, _). t) results)) st"

definition result_at :: "enq_result list \<Rightarrow> nat \<Rightarrow> string \<times> bool" where
  "result_at results i =
     (case find (\<lambda>(j, _). j = i) results of None \<Rightarrow> ([], False) | Some (_, _, mid, dup) \<Rightarrow> (mid, dup))"

definition enqueue_batch ::
  "chrono \<Rightarrow> ((string \<times> string) list \<Rightarrow> string option) \<Rightarrow> faults \<Rightarrow> (nat \<Rightarrow> int) \<Rightarrow> int
   \<Rightarrow> enqueue_input list \<Rightarrow> database \<Rightarrow> database \<times> (db_error + (string \<times> bool) list)" where
  "enqueue_batch ch to_json flt clock t_stats items db =
     (case enqueue_shards ch to_json flt clock 0 (enumerate 0 items) [0..<MESSAGE_SHARDS] db [] of
        (db, Inl e) \<Rightarrow> (db, Inl e)
      | (db, Inr results) \<Rightarrow>
          (db\<lparr>db_stats := record_batch ch t_stats results (db_stats db)\<rparr>,
           Inr (map (result_at results) [0..<length items])))"

definition db_enqueue ::
  "chrono \<Rightarrow> ((string \<times> string) list \<Rightarrow> string option) \<Rightarrow> faults \<Rightarrow> int \<Rightarrow> int \<Rightarrow> string
   \<Rightarrow> string option \<Rightarrow> string \<Rightarrow> bytes \<Rightarrow> (string \<times> string) list \<Rightarrow> database
   \<Rightarrow> database \<times> (db_error + string \<times> bool)" where
  "db_enqueue ch to_json flt now t_stats uuid key topic payload attributes db =
     (let item = \<lparr>ei_id = new_message_id topic uuid, ei_key = (if key = Some [] then None else key),
                  ei_topic = topic, ei_payload = payload, ei_attributes = attributes\<rparr>
      in case enqueue_batch ch to_json flt (\<lambda>_. now) t_stats [item] db of
           (db, Inl e) \<Rightarrow> (db, Inl e)
         | (db, Inr results) \<Rightarrow> (db, Inr (last results)))"

subsection \<open>Claiming\<close>

definition ready :: "string \<Rightarrow> msg_row \<Rightarrow> bool" where
  "ready now r \<longleftrightarrow> m_status r = Pending \<and> m_next r \<le> now"

text \<open>
  The candidates of a claim are scanned in the order of the index on
  \<open>(topic, created_at, next_attempt_at, id)\<close>, which the statement forces.
\<close>

definition claim_order :: "msg_row \<Rightarrow> string \<times> string \<times> string" where
  "claim_order r = (m_created r, m_next r, m_id r)"

definition claim_candidates :: "string \<Rightarrow> string \<Rightarrow> nat \<Rightarrow> shard \<Rightarrow> msg_row list" where
  "claim_candidates now topic limit rows =
     take limit (sort_key claim_order (filter (\<lambda>r. ready now r \<and> m_topic r = topic) rows))"

definition claim_update :: "string \<Rightarrow> string \<Rightarrow> msg_row \<Rightarrow> msg_row" where
  "claim_update lease visible_again r =
     r\<lparr>m_status := Processing, m_attempts := m_attempts r + 1, m_lease := Some lease,
       m_next := visible_again\<rparr>"

definition claim_rows :: "string \<Rightarrow> string \<Rightarrow> string \<Rightarrow> string \<Rightarrow> nat \<Rightarrow> shard \<Rightarrow> shard \<times> msg_row list" where
  "claim_rows lease visible_again now topic limit rows =
     (let ids = map m_id (claim_candidates now topic limit rows);
          P = (\<lambda>r. m_id r \<in> set ids \<and> m_status r = Pending)
      in (snd (sql_update P (claim_update lease visible_again) rows),
          map (claim_update lease visible_again) (filter P rows)))"

definition to_claimed :: "'j \<Rightarrow> string \<Rightarrow> msg_row \<Rightarrow> 'j claimed_message" where
  "to_claimed attributes lease r =
     \<lparr>cm_id = m_id r, cm_topic = m_topic r, cm_payload = m_payload r, cm_attributes = attributes,
      cm_created_at = m_created r, cm_lease = lease, cm_attempts = m_attempts r\<rparr>"

text \<open>The loop over the returned rows: a row whose attributes do not parse is an error.\<close>

fun hydrate_rows :: "(string \<Rightarrow> 'j option) \<Rightarrow> string \<Rightarrow> msg_row list \<Rightarrow> db_error + 'j claimed_message list" where
  "hydrate_rows from_json lease [] = Inr []"
| "hydrate_rows from_json lease (r # rs) =
     (case from_json (m_attributes r) of
        None \<Rightarrow> Inl DbJson
      | Some a \<Rightarrow> bindE (hydrate_rows from_json lease rs) (\<lambda>ms. Inr (to_claimed a lease r # ms)))"

definition claim_batch_for_topic ::
  "chrono \<Rightarrow> (string \<Rightarrow> 'j option) \<Rightarrow> faults \<Rightarrow> nat \<Rightarrow> int \<Rightarrow> string \<Rightarrow> string \<Rightarrow> nat \<Rightarrow> nat \<Rightarrow> database
   \<Rightarrow> database \<times> (db_error + 'j claimed_message list) outcome" where
  "claim_batch_for_topic ch from_json flt k now lease topic visibility limit db =
     (case add_std ch now visibility of
        Panic \<Rightarrow> (db, Panic)
      | Returned None \<Rightarrow> (db, Returned (Inl DbDuration))
      | Returned (Some visible_again) \<Rightarrow>
          if flt k then (db, Returned (Inl DbSql))
          else
            let i = topic_shard topic;
                (rows, returned) = claim_rows lease (to_rfc3339 ch visible_again) (to_rfc3339 ch now)
                                     topic (min (max limit 1) 128) (shard_rows db i);
                db = set_shard i rows db
            in (db, Returned (case hydrate_rows from_json lease returned of
                     Inl e \<Rightarrow> Inl e
                   | Inr ms \<Rightarrow> Inr (sort_key (\<lambda>m. (cm_created_at m, cm_id m)) ms))))"

text \<open>
  The wildcard claim: the sweep over the shards from the shared cursor, and in each shard over
  its ready topics, both rotated. The distinct topics come in the order of the same index.
  Every inner claim draws a fresh lease \<open>leases n\<close> and reads the clock again (\<open>clock n\<close>), where
  \<open>n\<close> counts the statements.
\<close>

definition ready_topics :: "string \<Rightarrow> shard \<Rightarrow> string list" where
  "ready_topics now rows = sort (remdups (map m_topic (filter (ready now) rows)))"

fun claim_topics ::
  "chrono \<Rightarrow> (string \<Rightarrow> 'j option) \<Rightarrow> faults \<Rightarrow> nat \<Rightarrow> (nat \<Rightarrow> int) \<Rightarrow> (nat \<Rightarrow> string) \<Rightarrow> string \<Rightarrow> nat \<Rightarrow> nat
   \<Rightarrow> string list \<Rightarrow> database \<Rightarrow> database \<times> nat \<times> (db_error + 'j claimed_message list) outcome" where
  "claim_topics ch from_json flt k clock leases flter visibility limit [] db = (db, k, Returned (Inr []))"
| "claim_topics ch from_json flt k clock leases flter visibility limit (topic # topics) db =
     (if filter_matches flter topic then
        (case claim_batch_for_topic ch from_json flt k (clock k) (leases k) topic visibility limit db of
           (db, Returned (Inr [])) \<Rightarrow>
             claim_topics ch from_json flt (k + 1) clock leases flter visibility limit topics db
         | (db, r) \<Rightarrow> (db, k + 1, r))
      else claim_topics ch from_json flt k clock leases flter visibility limit topics db)"

fun claim_shards ::
  "chrono \<Rightarrow> (string \<Rightarrow> 'j option) \<Rightarrow> faults \<Rightarrow> nat \<Rightarrow> (nat \<Rightarrow> int) \<Rightarrow> (nat \<Rightarrow> string) \<Rightarrow> string \<Rightarrow> nat \<Rightarrow> nat
   \<Rightarrow> nat \<Rightarrow> nat list \<Rightarrow> database \<Rightarrow> database \<times> (db_error + 'j claimed_message list) outcome" where
  "claim_shards ch from_json flt k clock leases flter visibility limit start [] db = (db, Returned (Inr []))"
| "claim_shards ch from_json flt k clock leases flter visibility limit start (offset # offsets) db =
     (let i = (start + offset) mod MESSAGE_SHARDS in
      if flt k then (db, Returned (Inl DbSql))
      else let topics = ready_topics (to_rfc3339 ch (clock k)) (shard_rows db i);
               order = rotate (start div MESSAGE_SHARDS) topics
           in case claim_topics ch from_json flt (k + 1) clock leases flter visibility limit order db of
                (db, k, Returned (Inr [])) \<Rightarrow>
                  claim_shards ch from_json flt k clock leases flter visibility limit start offsets db
              | (db, k, r) \<Rightarrow> (db, r))"

definition claim_batch_for_filter ::
  "chrono \<Rightarrow> (string \<Rightarrow> 'j option) \<Rightarrow> faults \<Rightarrow> (nat \<Rightarrow> int) \<Rightarrow> (nat \<Rightarrow> string) \<Rightarrow> string \<Rightarrow> nat \<Rightarrow> nat
   \<Rightarrow> database \<Rightarrow> database \<times> (db_error + 'j claimed_message list) outcome" where
  "claim_batch_for_filter ch from_json flt clock leases flter visibility limit db =
     (if \<not> is_wildcard_filter flter
      then claim_batch_for_topic ch from_json flt 0 (clock 0) (leases 0) flter visibility limit db
      else let start = db_cursor db;
               db = db\<lparr>db_cursor := (db_cursor db + 1) mod 2 ^ 64\<rparr>
           in claim_shards ch from_json flt 0 clock leases flter visibility limit start
                [0..<MESSAGE_SHARDS] db)"

subsection \<open>Settling a claim\<close>

text \<open>Which shard holds an id: from its prefix, or by asking every shard in turn.\<close>

fun scan_for_id :: "faults \<Rightarrow> nat \<Rightarrow> string \<Rightarrow> nat \<Rightarrow> shard list \<Rightarrow> db_error + nat option \<times> nat" where
  "scan_for_id flt k mid i [] = Inr (None, k)"
| "scan_for_id flt k mid i (rows # shards) =
     (if flt k then Inl DbSql
      else if mid \<in> m_id ` set rows then Inr (Some i, k + 1)
      else scan_for_id flt (k + 1) mid (i + 1) shards)"

definition shard_index_for_id :: "faults \<Rightarrow> nat \<Rightarrow> string \<Rightarrow> database \<Rightarrow> db_error + nat option \<times> nat" where
  "shard_index_for_id flt k mid db =
     (case message_id_shard mid of
        Some i \<Rightarrow> Inr (Some i, k)
      | None \<Rightarrow> scan_for_id flt k mid 0 (db_shards db))"

text \<open>\<open>WHERE id = ? AND lease = ? AND status = 'processing'\<close>.\<close>

definition leased :: "string \<Rightarrow> string \<Rightarrow> msg_row \<Rightarrow> bool" where
  "leased mid lease r \<longleftrightarrow> m_id r = mid \<and> m_lease r = Some lease \<and> m_status r = Processing"

definition release_update :: "string \<Rightarrow> msg_row \<Rightarrow> msg_row" where
  "release_update now r = r\<lparr>m_status := Pending, m_lease := None, m_next := now\<rparr>"

definition release ::
  "chrono \<Rightarrow> faults \<Rightarrow> int \<Rightarrow> string \<Rightarrow> string \<Rightarrow> database \<Rightarrow> database \<times> (db_error + bool)" where
  "release ch flt now mid lease db =
     (case shard_index_for_id flt 0 mid db of
        Inl e \<Rightarrow> (db, Inl e)
      | Inr (None, k) \<Rightarrow> (db, Inr False)
      | Inr (Some i, k) \<Rightarrow>
          if flt k then (db, Inl DbSql)
          else let (n, rows) = sql_update (leased mid lease) (release_update (to_rfc3339 ch now)) (shard_rows db i)
               in (set_shard i rows db, Inr (0 < n)))"

definition renew_update :: "string \<Rightarrow> msg_row \<Rightarrow> msg_row" where
  "renew_update visible_again r = r\<lparr>m_next := visible_again\<rparr>"

definition renew_claim ::
  "chrono \<Rightarrow> faults \<Rightarrow> int \<Rightarrow> string \<Rightarrow> string \<Rightarrow> nat \<Rightarrow> database \<Rightarrow> database \<times> (db_error + bool) outcome" where
  "renew_claim ch flt now mid lease visibility db =
     (case shard_index_for_id flt 0 mid db of
        Inl e \<Rightarrow> (db, Returned (Inl e))
      | Inr (None, k) \<Rightarrow> (db, Returned (Inr False))
      | Inr (Some i, k) \<Rightarrow>
          (case add_std ch now visibility of
             Panic \<Rightarrow> (db, Panic)
           | Returned None \<Rightarrow> (db, Returned (Inl DbDuration))
           | Returned (Some visible_again) \<Rightarrow>
               if flt k then (db, Returned (Inl DbSql))
               else let (n, rows) = sql_update (\<lambda>r. leased mid lease r \<and> to_rfc3339 ch now < m_next r)
                                      (renew_update (to_rfc3339 ch visible_again)) (shard_rows db i)
                    in (set_shard i rows db, Returned (Inr (n = 1)))))"

definition delivered_update :: "string \<Rightarrow> msg_row \<Rightarrow> msg_row" where
  "delivered_update now r =
     r\<lparr>m_status := Delivered, m_delivered := Some now, m_error := None, m_lease := None\<rparr>"

text \<open>The group of one shard in \<open>delivered_batch\<close>: one statement per message.\<close>

fun deliver_items ::
  "faults \<Rightarrow> nat \<Rightarrow> string \<Rightarrow> (nat \<times> string \<times> string) list \<Rightarrow> shard \<Rightarrow> (nat \<times> string) list
   \<Rightarrow> db_error + shard \<times> (nat \<times> string) list \<times> nat" where
  "deliver_items flt k now [] rows acc = Inr (rows, acc, k)"
| "deliver_items flt k now ((index, mid, lease) # items) rows acc =
     (if flt k then Inl DbSql
      else deliver_items flt (k + 1) now items
             (snd (sql_update (leased mid lease) (delivered_update now) rows))
             (case find (leased mid lease) rows of
                None \<Rightarrow> acc
              | Some r \<Rightarrow> acc @ [(index, m_topic r)]))"

fun deliver_shards ::
  "faults \<Rightarrow> nat \<Rightarrow> string \<Rightarrow> (nat \<times> nat \<times> string \<times> string) list \<Rightarrow> nat list \<Rightarrow> database \<Rightarrow> (nat \<times> string) list
   \<Rightarrow> database \<times> (db_error + (nat \<times> string) list)" where
  "deliver_shards flt k now routed [] db acc = (db, Inr acc)"
| "deliver_shards flt k now routed (i # is) db acc =
     (let group = map snd (filter (\<lambda>(j, _). j = i) routed) in
      if group = [] then deliver_shards flt k now routed is db acc
      else if flt k then (db, Inl DbSql)
      else case deliver_items flt (k + 1) now group (shard_rows db i) acc of
             Inl e \<Rightarrow> (db, Inl e)
           | Inr (rows, acc, k) \<Rightarrow>
               if flt k then (db, Inl DbSql)
               else deliver_shards flt (k + 1) now routed is (set_shard i rows db) acc)"

fun route_messages ::
  "faults \<Rightarrow> nat \<Rightarrow> (nat \<times> string \<times> string) list \<Rightarrow> database \<Rightarrow> db_error + (nat \<times> nat \<times> string \<times> string) list \<times> nat" where
  "route_messages flt k [] db = Inr ([], k)"
| "route_messages flt k ((index, mid, lease) # items) db =
     bindE (shard_index_for_id flt k mid db) (\<lambda>(shard, k).
     bindE (route_messages flt k items db) (\<lambda>(routed, k).
       Inr (case shard of None \<Rightarrow> routed | Some i \<Rightarrow> (i, index, mid, lease) # routed, k)))"

definition record_delivered :: "chrono \<Rightarrow> int \<Rightarrow> (nat \<times> string) list \<Rightarrow> stats \<Rightarrow> stats" where
  "record_delivered ch now hits st =
     fold (\<lambda>topic. record_topic_stats ch now topic
             \<lparr>td_accepted = 0, td_duplicates = 0,
              td_delivered = int (length (filter (\<lambda>(_, t). t = topic) hits))\<rparr>)
       (remdups (map snd hits)) st"

definition delivered_batch ::
  "chrono \<Rightarrow> faults \<Rightarrow> int \<Rightarrow> int \<Rightarrow> (string \<times> string) list \<Rightarrow> database \<Rightarrow> database \<times> (db_error + bool list)" where
  "delivered_batch ch flt now t_stats messages db =
     (case route_messages flt 0 (enumerate 0 messages) db of
        Inl e \<Rightarrow> (db, Inl e)
      | Inr (routed, k) \<Rightarrow>
          (case deliver_shards flt k (to_rfc3339 ch now) routed [0..<MESSAGE_SHARDS] db [] of
             (db, Inl e) \<Rightarrow> (db, Inl e)
           | (db, Inr hits) \<Rightarrow>
               (db\<lparr>db_stats := record_delivered ch t_stats hits (db_stats db)\<rparr>,
                Inr (map (\<lambda>i. i \<in> fst ` set hits) [0..<length messages]))))"

definition delivered ::
  "chrono \<Rightarrow> faults \<Rightarrow> int \<Rightarrow> int \<Rightarrow> string \<Rightarrow> string \<Rightarrow> database \<Rightarrow> database \<times> (db_error + bool)" where
  "delivered ch flt now t_stats mid lease db =
     (case delivered_batch ch flt now t_stats [(mid, lease)] db of
        (db, Inl e) \<Rightarrow> (db, Inl e)
      | (db, Inr results) \<Rightarrow> (db, Inr (if results = [] then False else last results)))"

text \<open>\<open>2_i64.saturating_pow(attempts.min(8) as u32).min(300)\<close>; a negative count wraps to a huge \<open>u32\<close>.\<close>

definition backoff_secs :: "int \<Rightarrow> int" where
  "backoff_secs attempts =
     min (let e = min attempts 8 mod 2 ^ 32 in if 62 < e then i64_max else 2 ^ nat e) 300"

definition failed_update :: "msg_status \<Rightarrow> string \<Rightarrow> string \<Rightarrow> msg_row \<Rightarrow> msg_row" where
  "failed_update status next error r =
     r\<lparr>m_status := status, m_next := next, m_error := Some error, m_lease := None\<rparr>"

definition failed ::
  "chrono \<Rightarrow> faults \<Rightarrow> int \<Rightarrow> int \<Rightarrow> int \<Rightarrow> string \<Rightarrow> string \<Rightarrow> string \<Rightarrow> int \<Rightarrow> database
   \<Rightarrow> database \<times> (db_error + bool) outcome" where
  "failed ch flt now t_bump t_trend mid lease error max_attempts db =
     (case shard_index_for_id flt 0 mid db of
        Inl e \<Rightarrow> (db, Returned (Inl e))
      | Inr (None, k) \<Rightarrow> (db, Returned (Inr False))
      | Inr (Some i, k) \<Rightarrow>
          if flt k then (db, Returned (Inl DbSql))
          else (case find (leased mid lease) (shard_rows db i) of
            None \<Rightarrow> (db, Returned (Inr False))
          | Some r \<Rightarrow>
              let status = (if max_attempts \<le> m_attempts r then Failed else Pending) in
              (case add_secs ch now (backoff_secs (m_attempts r)) of
                 None \<Rightarrow> (db, Panic)
               | Some next \<Rightarrow>
                   if flt (k + 1) then (db, Returned (Inl DbSql))
                   else let (n, rows) = sql_update (leased mid lease)
                                          (failed_update status (to_rfc3339 ch next) error) (shard_rows db i);
                            db = set_shard i rows db
                        in if n = 0 then (db, Returned (Inr False))
                           else if status = Failed then
                             (let (st, res) = bump_topic_stat ch flt (k + 2) t_bump t_trend (m_topic r) 0 0 0 1
                                                (db_stats db)
                              in (db\<lparr>db_stats := st\<rparr>, Returned (sql_err (map_sum id (\<lambda>_. True) res))))
                           else (db, Returned (Inr True)))))"

definition drop_update :: "string \<Rightarrow> msg_row \<Rightarrow> msg_row" where
  "drop_update error r = r\<lparr>m_status := Dropped, m_error := Some error, m_lease := None\<rparr>"

definition drop_pending ::
  "chrono \<Rightarrow> faults \<Rightarrow> int \<Rightarrow> string \<Rightarrow> database \<Rightarrow> database \<times> (db_error + nat)" where
  "drop_pending ch flt now topic db =
     (let i = topic_shard topic in
      if flt 0 then (db, Inl DbSql)
      else let (n, rows) = sql_update (\<lambda>r. m_topic r = topic \<and> m_status r = Pending)
                             (drop_update ''no live subscriber'') (shard_rows db i);
               db = set_shard i rows db
           in if 0 < n then
                (let (st, res) = bump_dropped ch flt 1 now topic (int n) (db_stats db)
                 in (db\<lparr>db_stats := st\<rparr>, sql_err (map_sum id (\<lambda>_. n) res)))
              else (db, Inr n))"

definition drop_claimed ::
  "chrono \<Rightarrow> faults \<Rightarrow> int \<Rightarrow> string \<Rightarrow> string \<Rightarrow> string \<Rightarrow> database \<Rightarrow> database \<times> (db_error + bool)" where
  "drop_claimed ch flt now mid lease error db =
     (case shard_index_for_id flt 0 mid db of
        Inl e \<Rightarrow> (db, Inl e)
      | Inr (None, k) \<Rightarrow> (db, Inr False)
      | Inr (Some i, k) \<Rightarrow>
          if flt k then (db, Inl DbSql)
          else (case find (leased mid lease) (shard_rows db i) of
            None \<Rightarrow> (db, Inr False)
          | Some r \<Rightarrow>
              if flt (k + 1) then (db, Inl DbSql)
              else let (n, rows) = sql_update (leased mid lease) (drop_update error) (shard_rows db i);
                       db = set_shard i rows db
                   in if n = 0 then (db, Inr False)
                      else (let (st, res) = bump_dropped ch flt (k + 2) now (m_topic r) 1 (db_stats db)
                            in (db\<lparr>db_stats := st\<rparr>, sql_err (map_sum id (\<lambda>_. True) res)))))"

subsection \<open>Recovery and clean-up\<close>

text \<open>One statement per shard, in order; a failure stops the loop and keeps what was done.\<close>

fun each_shard ::
  "faults \<Rightarrow> nat \<Rightarrow> (shard \<Rightarrow> nat \<times> shard) \<Rightarrow> shard list \<Rightarrow> shard list \<times> (db_error + nat)" where
  "each_shard flt k f [] = ([], Inr 0)"
| "each_shard flt k f (rows # shards) =
     (if flt k then (rows # shards, Inl DbSql)
      else let (n, rows) = f rows; (shards, r) = each_shard flt (k + 1) f shards
           in (rows # shards, map_sum id (\<lambda>m. n + m) r))"

definition on_shards :: "faults \<Rightarrow> nat \<Rightarrow> (shard \<Rightarrow> nat \<times> shard) \<Rightarrow> database \<Rightarrow> database \<times> (db_error + nat)" where
  "on_shards flt k f db = (let (shards, r) = each_shard flt k f (db_shards db) in (db\<lparr>db_shards := shards\<rparr>, r))"

definition reclaim_update :: "msg_row \<Rightarrow> msg_row" where
  "reclaim_update r = r\<lparr>m_status := Pending, m_lease := None\<rparr>"

definition reclaim_stale :: "chrono \<Rightarrow> faults \<Rightarrow> int \<Rightarrow> database \<Rightarrow> database \<times> (db_error + nat)" where
  "reclaim_stale ch flt now db =
     on_shards flt 0 (sql_update (\<lambda>r. m_status r = Processing \<and> m_next r \<le> to_rfc3339 ch now) reclaim_update) db"

text \<open>What \<open>open_message_shards\<close> does to the rows of a shard file when the broker starts.\<close>

definition recover_shard :: "shard \<Rightarrow> shard" where
  "recover_shard rows = snd (sql_update (\<lambda>r. m_status r = Processing) reclaim_update rows)"

definition purge_older_than :: "faults \<Rightarrow> string \<Rightarrow> database \<Rightarrow> database \<times> (db_error + nat)" where
  "purge_older_than flt cutoff db = on_shards flt 0 (sql_delete (\<lambda>r. m_created r < cutoff)) db"

definition delivered_before :: "string \<Rightarrow> msg_row \<Rightarrow> bool" where
  "delivered_before cutoff r \<longleftrightarrow>
     m_status r = Delivered \<and> (case m_delivered r of None \<Rightarrow> False | Some t \<Rightarrow> t < cutoff)"

definition purge_delivered_older_than :: "faults \<Rightarrow> string \<Rightarrow> database \<Rightarrow> database \<times> (db_error + nat)" where
  "purge_delivered_older_than flt cutoff db = on_shards flt 0 (sql_delete (delivered_before cutoff)) db"

subsection \<open>The invariant of the shards\<close>

definition msg_ok :: "nat \<Rightarrow> msg_row \<Rightarrow> bool" where
  "msg_ok i r \<longleftrightarrow>
     topic_shard (m_topic r) = i \<and> (m_lease r \<noteq> None \<longleftrightarrow> m_status r = Processing) \<and>
     0 \<le> m_attempts r \<and> (message_id_shard (m_id r) = None \<or> message_id_shard (m_id r) = Some i)"

definition unique_idem :: "shard \<Rightarrow> bool" where
  "unique_idem rows \<longleftrightarrow> distinct (filter (\<lambda>k. k \<noteq> None) (map m_key rows))"

definition shard_ok :: "nat \<Rightarrow> shard \<Rightarrow> bool" where
  "shard_ok i rows \<longleftrightarrow> unique_key m_id rows \<and> unique_idem rows \<and> (\<forall>r \<in> set rows. msg_ok i r)"

definition db_ok :: "database \<Rightarrow> bool" where
  "db_ok db \<longleftrightarrow>
     length (db_shards db) = MESSAGE_SHARDS \<and> (\<forall>i < MESSAGE_SHARDS. shard_ok i (shard_rows db i))"

lemma db_okD: "db_ok db \<Longrightarrow> i < MESSAGE_SHARDS \<Longrightarrow> shard_ok i (shard_rows db i)"
  by (simp add: db_ok_def)

lemma db_ok_set_shard: "db_ok db \<Longrightarrow> shard_ok i rows \<Longrightarrow> db_ok (set_shard i rows db)"
  by (cases "i < length (db_shards db)") (auto simp: db_ok_def set_shard_def nth_list_update)

lemma db_ok_stats [simp]: "db_ok (db\<lparr>db_stats := st\<rparr>) = db_ok db" "db_ok (db\<lparr>db_cursor := c\<rparr>) = db_ok db"
  by (simp_all add: db_ok_def)

lemma unique_idem_filter: "unique_idem rows \<Longrightarrow> unique_idem (filter P rows)"
  by (induction rows) (auto simp: unique_idem_def split: if_splits)

lemma shard_ok_filter: "shard_ok i rows \<Longrightarrow> shard_ok i (filter P rows)"
  by (auto simp: shard_ok_def unique_idem_filter)

lemma shard_ok_delete: "shard_ok i rows \<Longrightarrow> shard_ok i (snd (sql_delete P rows))"
  by (simp add: sql_delete_def shard_ok_filter)

lemma shard_ok_insert:
  assumes "shard_ok i rows" "msg_ok i r" "\<not> msg_conflict r rows"
  shows "shard_ok i (rows @ [r])"
  using assms
  by (cases "m_key r") (auto simp: shard_ok_def unique_key_def unique_idem_def msg_conflict_def)

text \<open>An UPDATE of message rows that keeps id, key and topic, and the row invariant.\<close>

locale msg_update = keyed_update m_id upd for upd :: "msg_row \<Rightarrow> msg_row" +
  assumes key_of_upd: "m_key (upd r) = m_key r"
    and ok_upd: "msg_ok i r \<Longrightarrow> msg_ok i (upd r)"
begin

lemma shard_ok_update: "shard_ok i rows \<Longrightarrow> shard_ok i (snd (sql_update P upd rows))"
proof -
  assume "shard_ok i rows"
  moreover have "map m_key (snd (sql_update P upd rows)) = map m_key rows"
    by (simp add: sql_update_def key_of_upd)
  ultimately show ?thesis
    by (auto simp: shard_ok_def unique_update unique_idem_def) (auto simp: sql_update_def ok_upd)
qed

end

interpretation claim_m: msg_update "claim_update lease visible" for lease visible
  by unfold_locales (auto simp: claim_update_def msg_ok_def)
interpretation release_m: msg_update "release_update now" for now
  by unfold_locales (auto simp: release_update_def msg_ok_def)
interpretation renew_m: msg_update "renew_update visible" for visible
  by unfold_locales (auto simp: renew_update_def msg_ok_def)
interpretation delivered_m: msg_update "delivered_update now" for now
  by unfold_locales (auto simp: delivered_update_def msg_ok_def)
interpretation failed_m: msg_update "failed_update (if b then Failed else Pending) nxt error" for b nxt error
  by unfold_locales (auto simp: failed_update_def msg_ok_def)
interpretation drop_m: msg_update "drop_update error" for error
  by unfold_locales (auto simp: drop_update_def msg_ok_def)
interpretation reclaim_m: msg_update reclaim_update
  by unfold_locales (auto simp: reclaim_update_def msg_ok_def)

lemmas shard_ok_updates = claim_m.shard_ok_update release_m.shard_ok_update renew_m.shard_ok_update
  delivered_m.shard_ok_update failed_m.shard_ok_update drop_m.shard_ok_update reclaim_m.shard_ok_update

lemma scan_for_id_less:
  "scan_for_id flt k mid i shards = Inr (Some j, k') \<Longrightarrow>
   i \<le> j \<and> j < i + length shards \<and> mid \<in> m_id ` set (shards ! (j - i))"
proof (induction flt k mid i shards rule: scan_for_id.induct)
  case (2 flt k mid i rows shards)
  show ?case
  proof (cases "mid \<in> m_id ` set rows")
    case True
    with 2 show ?thesis by (auto split: if_splits)
  next
    case False
    with 2 have "i + 1 \<le> j \<and> j < i + 1 + length shards \<and> mid \<in> m_id ` set (shards ! (j - (i + 1)))"
      by (auto split: if_splits)
    moreover from this have "(rows # shards) ! (j - i) = shards ! (j - (i + 1))"
      by (simp add: nth_Cons')
    ultimately show ?thesis by simp
  qed
qed simp

lemma shard_index_less:
  "db_ok db \<Longrightarrow> shard_index_for_id flt k mid db = Inr (Some i, k') \<Longrightarrow> i < MESSAGE_SHARDS"
  by (auto simp: shard_index_for_id_def db_ok_def dest!: message_id_shard_less scan_for_id_less
      split: option.splits)

lemma each_shard_length: "length (fst (each_shard flt k f shards)) = length shards"
  by (induction shards arbitrary: k) (auto simp: split_beta Let_def)

lemma each_shard_nth:
  "i < length shards \<Longrightarrow>
   fst (each_shard flt k f shards) ! i = shards ! i \<or> fst (each_shard flt k f shards) ! i = snd (f (shards ! i))"
proof (induction shards arbitrary: i k)
  case (Cons rows shards)
  then show ?case by (cases i) (auto simp: split_beta Let_def)
qed simp

lemma each_shard_all:
  "snd (each_shard flt k f shards) = Inr n \<Longrightarrow> i < length shards \<Longrightarrow>
   fst (each_shard flt k f shards) ! i = snd (f (shards ! i))"
proof (induction shards arbitrary: i k n)
  case (Cons rows shards)
  have nf: "\<not> flt k" using Cons.prems by (auto split: if_splits)
  with Cons.prems obtain m where "snd (each_shard flt (k + 1) f shards) = Inr m"
    by (cases "snd (each_shard flt (k + 1) f shards)") (auto simp: split_beta Let_def)
  with Cons nf show ?case by (cases i) (auto simp: split_beta Let_def)
qed simp

lemma db_ok_on_shards:
  assumes "db_ok db" "\<And>i rows. shard_ok i rows \<Longrightarrow> shard_ok i (snd (f rows))"
  shows "db_ok (fst (on_shards flt k f db))"
  using assms each_shard_nth [of _ "db_shards db" flt k f]
  by (auto simp: db_ok_def on_shards_def split_beta Let_def each_shard_length) metis

subsection \<open>Every operation keeps the invariant\<close>

definition item_ok :: "enqueue_input \<Rightarrow> bool" where
  "item_ok item \<longleftrightarrow>
     message_id_shard (ei_id item) = None \<or> message_id_shard (ei_id item) = Some (topic_shard (ei_topic item))"

lemma new_msg_ok: "item_ok item \<Longrightarrow> topic_shard (ei_topic item) = i \<Longrightarrow> msg_ok i (new_msg item a now)"
  by (auto simp: item_ok_def msg_ok_def new_msg_def)

lemma enqueue_items_ok:
  "enqueue_items ch tj flt clock k items rows acc = Inr (rows', acc', k') \<Longrightarrow> shard_ok i rows \<Longrightarrow>
   \<forall>(_, item) \<in> set items. item_ok item \<and> topic_shard (ei_topic item) = i \<Longrightarrow> shard_ok i rows'"
proof (induction items arbitrary: k rows acc)
  case (Cons x items)
  obtain index item where x: "x = (index, item)" by (cases x)
  have new: "msg_ok i (new_msg item a now)" for a now
    using Cons.prems(3) by (auto simp: x intro: new_msg_ok)
  have rest: "\<forall>(_, item) \<in> set items. item_ok item \<and> topic_shard (ei_topic item) = i"
    using Cons.prems(3) by simp
  show ?case
    using Cons.prems(1,2)
    by (auto simp: x Let_def shard_ok_insert new split: option.splits if_splits
        elim!: Cons.IH [OF _ _ rest])
qed simp

lemma enqueue_shards_ok:
  "db_ok db \<Longrightarrow> list_all (\<lambda>(_, item). item_ok item) items \<Longrightarrow> set is \<subseteq> {..<MESSAGE_SHARDS} \<Longrightarrow>
   db_ok (fst (enqueue_shards ch tj flt clock k items is db acc))"
proof (induction "is" arbitrary: db acc k)
  case (Cons i "is")
  let ?g = "filter (\<lambda>(_, item). topic_shard (ei_topic item) = i) items"
  have "shard_ok i rows" if "enqueue_items ch tj flt clock (k + 1) ?g (shard_rows db i) acc = Inr (rows, acc', k')"
    for rows acc' k'
    using that Cons.prems by (intro enqueue_items_ok [OF that]) (auto simp: db_okD list_all_iff)
  with Cons show ?case
    by (auto simp: Let_def db_ok_set_shard split: sum.split)
qed simp

lemma enqueue_batch_ok:
  assumes "db_ok db" "list_all item_ok items"
  shows "db_ok (fst (enqueue_batch ch tj flt clock ts items db))"
proof -
  have "list_all (\<lambda>(_, item). item_ok item) (enumerate 0 items)"
    using assms(2) by (auto simp: list_all_length nth_enumerate_eq)
  then have "db_ok (fst (enqueue_shards ch tj flt clock 0 (enumerate 0 items) [0..<MESSAGE_SHARDS] db []))"
    using assms(1) by (intro enqueue_shards_ok) auto
  then show ?thesis by (auto simp: enqueue_batch_def split_beta split: sum.split)
qed

lemma claim_batch_ok:
  "db_ok db \<Longrightarrow> db_ok (fst (claim_batch_for_topic ch fj flt k now lease topic vis limit db))"
  by (auto simp: claim_batch_for_topic_def claim_rows_def Let_def split_beta db_ok_set_shard
      claim_m.shard_ok_update db_okD topic_shard_less split: outcome.split option.split)

lemma claim_topics_ok:
  "db_ok db \<Longrightarrow> db_ok (fst (claim_topics ch fj flt k clock leases f vis limit topics db))"
proof (induction topics arbitrary: db k)
  case (Cons t ts)
  obtain db' r where c: "claim_batch_for_topic ch fj flt k (clock k) (leases k) t vis limit db = (db', r)"
    by fastforce
  with claim_batch_ok [OF Cons.prems] have "db_ok db'" by (metis fst_conv)
  with Cons c show ?case by (auto split: outcome.split sum.split list.split)
qed simp

lemma claim_shards_ok:
  "db_ok db \<Longrightarrow> db_ok (fst (claim_shards ch fj flt k clock leases f vis limit start offsets db))"
proof (induction offsets arbitrary: db k)
  case (Cons o' os)
  let ?ts = "rotate (start div MESSAGE_SHARDS) (ready_topics (to_rfc3339 ch (clock k))
    (shard_rows db ((start + o') mod MESSAGE_SHARDS)))"
  obtain db' k' r where c: "claim_topics ch fj flt (k + 1) clock leases f vis limit ?ts db = (db', k', r)"
    using prod_cases3 by blast
  with claim_topics_ok [OF Cons.prems, of ch fj flt "k + 1" clock leases f vis limit ?ts] have "db_ok db'"
    by simp
  with Cons c show ?case by (auto simp: Let_def split: outcome.split sum.split list.split)
qed simp

lemma claim_filter_ok:
  "db_ok db \<Longrightarrow> db_ok (fst (claim_batch_for_filter ch fj flt clock leases f vis limit db))"
  by (simp add: claim_batch_for_filter_def claim_batch_ok claim_shards_ok Let_def)

lemma release_ok: "db_ok db \<Longrightarrow> db_ok (fst (release ch flt now mid lease db))"
  using shard_index_less [of db flt 0 mid]
  by (auto simp: release_def Let_def split_beta db_ok_set_shard db_okD release_m.shard_ok_update
      split: sum.split option.split prod.split)

lemma renew_claim_ok: "db_ok db \<Longrightarrow> db_ok (fst (renew_claim ch flt now mid lease vis db))"
  using shard_index_less [of db flt 0 mid]
  by (auto simp: renew_claim_def Let_def split_beta db_ok_set_shard db_okD renew_m.shard_ok_update
      split: sum.split option.split prod.split outcome.split)

lemma deliver_items_ok:
  "deliver_items flt k now items rows acc = Inr (rows', acc', k') \<Longrightarrow> shard_ok i rows \<Longrightarrow> shard_ok i rows'"
proof (induction items arbitrary: k rows acc)
  case (Cons x items)
  obtain index mid lease where x: "x = (index, mid, lease)" by (cases x)
  show ?case using Cons.prems
    by (auto simp: x delivered_m.shard_ok_update intro: Cons.IH split: if_splits)
qed simp

lemma deliver_shards_ok:
  "db_ok db \<Longrightarrow> set is \<subseteq> {..<MESSAGE_SHARDS} \<Longrightarrow> db_ok (fst (deliver_shards flt k now routed is db acc))"
proof (induction "is" arbitrary: db acc k)
  case (Cons i "is")
  let ?g = "map snd (filter (\<lambda>(j, _). j = i) routed)"
  have "shard_ok i rows" if "deliver_items flt (k + 1) now ?g (shard_rows db i) acc = Inr (rows, acc', k')"
    for rows acc' k'
    using that Cons.prems by (intro deliver_items_ok [OF that]) (auto simp: db_okD)
  with Cons show ?case by (auto simp: Let_def db_ok_set_shard split: sum.split)
qed simp

lemma delivered_batch_ok: "db_ok db \<Longrightarrow> db_ok (fst (delivered_batch ch flt now ts ms db))"
  by (auto simp: delivered_batch_def split_beta atLeast0LessThan intro!: deliver_shards_ok split: sum.split)

lemma failed_ok: "db_ok db \<Longrightarrow> db_ok (fst (failed ch flt now tb tt mid lease error mx db))"
  using shard_index_less [of db flt 0 mid] failed_m.shard_ok_update [of _ _ _ True] failed_m.shard_ok_update [of _ _ _ False]
  by (auto simp: failed_def Let_def split_beta db_ok_set_shard db_okD
      split: sum.split option.split prod.split)

lemma drop_pending_ok: "db_ok db \<Longrightarrow> db_ok (fst (drop_pending ch flt now topic db))"
  by (auto simp: drop_pending_def Let_def split_beta db_ok_set_shard db_okD topic_shard_less drop_m.shard_ok_update)

lemma drop_claimed_ok: "db_ok db \<Longrightarrow> db_ok (fst (drop_claimed ch flt now mid lease error db))"
  using shard_index_less [of db flt 0 mid]
  by (auto simp: drop_claimed_def Let_def split_beta db_ok_set_shard db_okD drop_m.shard_ok_update
      split: sum.split option.split prod.split)

end
