(* ===== verification/Queue.thy ===== *)
theory Queue
  imports Messages "HOL-Library.Multiset"
begin

text \<open>
  What the operations of the message queue guarantee together. A run of the broker is a sequence
  of \<open>queue_op\<close>s, each with its own clock readings, leases and fault plan; \<open>queue_apply\<close> is the
  effect of the operation of \<open>Messages\<close> on the database. The theorems are about all runs, and
  about single operations on every database that satisfies the invariant \<open>db_ok\<close>.
\<close>

subsection \<open>Runs\<close>

datatype 'j queue_op =
    OpEnqueue "(string \<times> string) list \<Rightarrow> string option" faults "nat \<Rightarrow> int" int "enqueue_input list"
  | OpClaim "string \<Rightarrow> 'j option" faults "nat \<Rightarrow> int" "nat \<Rightarrow> string" string nat nat
  | OpRelease faults int string string
  | OpRenew faults int string string nat
  | OpDelivered faults int int "(string \<times> string) list"
  | OpFailed faults int int int string string string int
  | OpDropPending faults int string
  | OpDropClaimed faults int string string string
  | OpReclaim faults int
  | OpPurgeOlder faults string
  | OpPurgeDelivered faults string

fun queue_apply :: "chrono \<Rightarrow> 'j queue_op \<Rightarrow> database \<Rightarrow> database" where
  "queue_apply ch (OpEnqueue tj flt clock ts items) db = fst (enqueue_batch ch tj flt clock ts items db)"
| "queue_apply ch (OpClaim fj flt clock leases f vis limit) db =
     fst (claim_batch_for_filter ch fj flt clock leases f vis limit db)"
| "queue_apply ch (OpRelease flt now mid lease) db = fst (release ch flt now mid lease db)"
| "queue_apply ch (OpRenew flt now mid lease vis) db = fst (renew_claim ch flt now mid lease vis db)"
| "queue_apply ch (OpDelivered flt now ts ms) db = fst (delivered_batch ch flt now ts ms db)"
| "queue_apply ch (OpFailed flt now tb tt mid lease error mx) db =
     fst (failed ch flt now tb tt mid lease error mx db)"
| "queue_apply ch (OpDropPending flt now topic) db = fst (drop_pending ch flt now topic db)"
| "queue_apply ch (OpDropClaimed flt now mid lease error) db = fst (drop_claimed ch flt now mid lease error db)"
| "queue_apply ch (OpReclaim flt now) db = fst (reclaim_stale ch flt now db)"
| "queue_apply ch (OpPurgeOlder flt cutoff) db = fst (purge_older_than flt cutoff db)"
| "queue_apply ch (OpPurgeDelivered flt cutoff) db = fst (purge_delivered_older_than flt cutoff db)"

text \<open>The ids of enqueued messages are made by \<open>new_message_id\<close>.\<close>

fun op_ok :: "'j queue_op \<Rightarrow> bool" where
  "op_ok (OpEnqueue tj flt clock ts items) = list_all item_ok items"
| "op_ok _ = True"

lemma queue_apply_ok: "db_ok db \<Longrightarrow> op_ok op \<Longrightarrow> db_ok (queue_apply ch op db)"
  by (cases op)
    (auto simp: enqueue_batch_ok claim_filter_ok release_ok renew_claim_ok delivered_batch_ok failed_ok
      drop_pending_ok drop_claimed_ok reclaim_stale_def purge_older_than_def purge_delivered_older_than_def
      intro!: db_ok_on_shards shard_ok_delete reclaim_m.shard_ok_update)

lemma queue_run_db_ok: "db_ok db \<Longrightarrow> list_all op_ok ops \<Longrightarrow> db_ok (fold (queue_apply ch) ops db)"
  by (induction ops arbitrary: db) (auto simp: queue_apply_ok)

subsection \<open>Rows that an operation keeps\<close>

text \<open>
  A predicate on rows is kept by a run if a row with it stays in its shard. The loops of the
  operations are treated once, for any predicate; \<open>claim_stable\<close> is what a claim has to
  respect of it.
\<close>

definition row_in :: "(msg_row \<Rightarrow> bool) \<Rightarrow> shard \<Rightarrow> bool" where
  "row_in Q rows \<longleftrightarrow> list_ex Q rows"

abbreviation has :: "(msg_row \<Rightarrow> bool) \<Rightarrow> database \<Rightarrow> nat \<Rightarrow> bool" where
  "has Q db i \<equiv> row_in Q (shard_rows db i)"

lemma row_in_iff: "row_in Q rows \<longleftrightarrow> (\<exists>r \<in> set rows. Q r)"
  by (simp add: row_in_def list_ex_iff)

lemma row_in_mono: "row_in Q rows \<Longrightarrow> set rows \<subseteq> set rows' \<Longrightarrow> row_in Q rows'"
  by (auto simp: row_in_iff)

lemma has_set_shard: "has Q db i \<Longrightarrow> (j = i \<Longrightarrow> row_in Q rows) \<Longrightarrow> has Q (set_shard j rows db) i"
  by (cases "j = i"; cases "j < length (db_shards db)") (auto simp: set_shard_def list_update_beyond)

lemma has_update:
  assumes "row_in Q rows" "\<And>r. Q r \<Longrightarrow> P r \<Longrightarrow> Q (f r)"
  shows "row_in Q (snd (sql_update P f rows))"
proof -
  obtain r where r: "r \<in> set rows" "Q r" using assms(1) by (auto simp: row_in_iff)
  then have "(if P r then f r else r) \<in> set (snd (sql_update P f rows))" by (auto simp: sql_update_def)
  moreover have "Q (if P r then f r else r)" using r assms(2) by simp
  ultimately show ?thesis unfolding row_in_iff by blast
qed

lemma has_delete: "row_in Q rows \<Longrightarrow> (\<And>r. Q r \<Longrightarrow> \<not> P r) \<Longrightarrow> row_in Q (snd (sql_delete P rows))"
  by (auto simp: sql_delete_def row_in_iff)

lemma has_on_shards:
  assumes "has Q db i" "i < length (db_shards db)" "\<And>rows. row_in Q rows \<Longrightarrow> row_in Q (snd (f rows))"
  shows "has Q (fst (on_shards flt k f db)) i"
  using each_shard_nth [OF assms(2), of flt k f]
proof
  assume "fst (each_shard flt k f (db_shards db)) ! i = db_shards db ! i"
  with assms(1) show ?thesis by (simp add: on_shards_def split_beta)
next
  assume "fst (each_shard flt k f (db_shards db)) ! i = snd (f (db_shards db ! i))"
  with assms(3) [OF assms(1)] show ?thesis by (simp add: on_shards_def split_beta)
qed

locale claim_stable =
  fixes Q :: "msg_row \<Rightarrow> bool"
  assumes claim_keeps: "Q r \<Longrightarrow> m_status r = Pending \<Longrightarrow> Q (claim_update lease visible r)"
begin

lemma has_claim:
  "has Q db i \<Longrightarrow> has Q (fst (claim_batch_for_topic ch fj flt k now lease topic vis limit db)) i"
  by (auto simp: claim_batch_for_topic_def claim_rows_def Let_def split_beta claim_keeps
      intro!: has_set_shard has_update split: outcome.split option.split)

lemma has_claim_topics:
  "has Q db i \<Longrightarrow> has Q (fst (claim_topics ch fj flt k clock leases f vis limit topics db)) i"
proof (induction topics arbitrary: db k)
  case (Cons t ts)
  obtain db' res where c: "claim_batch_for_topic ch fj flt k (clock k) (leases k) t vis limit db = (db', res)"
    by fastforce
  with has_claim [OF Cons.prems] have "has Q db' i" by (metis fst_conv)
  with Cons c show ?case by (auto split: outcome.split sum.split list.split)
qed simp

lemma has_claim_shards:
  "has Q db i \<Longrightarrow> has Q (fst (claim_shards ch fj flt k clock leases f vis limit start offsets db)) i"
proof (induction offsets arbitrary: db k)
  case (Cons o' os)
  let ?ts = "rotate (start div MESSAGE_SHARDS) (ready_topics (to_rfc3339 ch (clock k))
    (shard_rows db ((start + o') mod MESSAGE_SHARDS)))"
  obtain db' k' res where c: "claim_topics ch fj flt (k + 1) clock leases f vis limit ?ts db = (db', k', res)"
    using prod_cases3 by blast
  with has_claim_topics [OF Cons.prems, of ch fj flt "k + 1" clock leases f vis limit ?ts]
  have "has Q db' i" by simp
  with Cons c show ?case by (auto simp: Let_def split: outcome.split sum.split list.split)
qed simp

lemma has_claim_filter:
  assumes "has Q db i"
  shows "has Q (fst (claim_batch_for_filter ch fj flt clock leases f vis limit db)) i"
proof -
  have "has Q (db\<lparr>db_cursor := c\<rparr>) i" for c using assms by simp
  then show ?thesis
    using assms by (simp add: claim_batch_for_filter_def Let_def has_claim has_claim_shards)
qed

end

lemma enqueue_items_sub:
  "enqueue_items ch tj flt clock k items rows acc = Inr (rows', acc', k') \<Longrightarrow> set rows \<subseteq> set rows'"
proof (induction items arbitrary: k rows acc)
  case (Cons x items)
  obtain index item where x: "x = (index, item)" by (cases x)
  show ?case
    using Cons.prems by (auto simp: x Let_def split: option.splits if_splits dest!: Cons.IH)
qed simp

lemma has_enqueue_shards:
  "has Q db i \<Longrightarrow> has Q (fst (enqueue_shards ch tj flt clock k items is db acc)) i"
proof (induction "is" arbitrary: db acc k)
  case (Cons j "is")
  have "has Q (fst (enqueue_shards ch tj flt clock k' items is (set_shard j rows db) acc')) i"
    if "enqueue_items ch tj flt clock k0 g (shard_rows db j) acc0 = Inr (rows, acc', k1)"
    for rows acc' k' k0 k1 g acc0
    using enqueue_items_sub [OF that] Cons.prems by (intro Cons.IH has_set_shard) (auto intro: row_in_mono)
  with Cons show ?case by (auto simp: Let_def split: sum.split)
qed simp

lemma has_enqueue_batch: "has Q db i \<Longrightarrow> has Q (fst (enqueue_batch ch tj flt clock ts items db)) i"
  using has_enqueue_shards [of Q db i] by (simp add: enqueue_batch_def split_beta split: sum.split)

text \<open>\<open>spared Q S\<close>: no row with \<open>Q\<close> is leased by a pair of id and lease from \<open>S\<close>.\<close>

definition spared :: "(msg_row \<Rightarrow> bool) \<Rightarrow> (string \<times> string) set \<Rightarrow> bool" where
  "spared Q S \<longleftrightarrow> (\<forall>r mid lease. Q r \<longrightarrow> (mid, lease) \<in> S \<longrightarrow> \<not> leased mid lease r)"

lemma spared_mono: "spared Q S \<Longrightarrow> T \<subseteq> S \<Longrightarrow> spared Q T"
  by (auto simp: spared_def)

lemma has_deliver_items:
  "deliver_items flt k now items rows acc = Inr (rows', acc', k') \<Longrightarrow> row_in Q rows \<Longrightarrow>
   spared Q (snd ` set items) \<Longrightarrow> row_in Q rows'"
proof (induction items arbitrary: k rows acc)
  case (Cons x items)
  obtain index mid lease where x: "x = (index, mid, lease)" by (cases x)
  have sp: "spared Q (snd ` set items)" "\<And>r. Q r \<Longrightarrow> \<not> leased mid lease r"
    using Cons.prems(3) by (auto simp: x spared_def)
  have "row_in Q (snd (sql_update (leased mid lease) (delivered_update now) rows))"
    using Cons.prems(2) sp(2) by (intro has_update) blast+
  with Cons.prems(1) sp(1) show ?case by (auto simp: x split: if_splits dest: Cons.IH)
qed simp

lemma has_deliver_shards:
  "has Q db i \<Longrightarrow> spared Q (set (map (snd \<circ> snd) routed)) \<Longrightarrow>
   has Q (fst (deliver_shards flt k now routed is db acc)) i"
proof (induction "is" arbitrary: db acc k)
  case (Cons j "is")
  let ?g = "map snd (filter (\<lambda>(m, _). m = j) routed)"
  have "snd ` set ?g \<subseteq> set (map (snd \<circ> snd) routed)" by force
  then have "spared Q (snd ` set ?g)" using Cons.prems(2) by (rule spared_mono [rotated])
  then have "has Q (fst (deliver_shards flt k' now routed is (set_shard j rows db) acc')) i"
    if "deliver_items flt k0 now ?g (shard_rows db j) acc0 = Inr (rows, acc', k1)"
    for rows acc' k' k0 k1 acc0
    using has_deliver_items [OF that] Cons.prems by (intro Cons.IH has_set_shard) auto
  with Cons show ?case by (auto simp: Let_def split: sum.split)
qed simp

lemma route_messages_sub:
  "route_messages flt k items db = Inr (routed, k') \<Longrightarrow> set (map snd routed) \<subseteq> set items"
proof (induction items arbitrary: k routed k')
  case (Cons x items)
  obtain index mid lease where x: "x = (index, mid, lease)" by (cases x)
  obtain sh k1 rest k2 where "route_messages flt k1 items db = Inr (rest, k2)"
    "routed = (case sh of None \<Rightarrow> rest | Some i \<Rightarrow> (i, index, mid, lease) # rest)"
    using Cons.prems by (auto simp: x bindE_def split: sum.splits)
  with Cons.IH show ?case by (fastforce simp: x split: option.splits)
qed simp

lemma has_delivered_batch:
  assumes "has Q db i" "spared Q (set ms)"
  shows "has Q (fst (delivered_batch ch flt now ts ms db)) i"
proof (cases "route_messages flt 0 (enumerate 0 ms) db")
  case (Inr x)
  obtain routed k where x: "x = (routed, k)" by (cases x)
  have "snd y \<in> set ms" if "y \<in> set (enumerate 0 ms)" for y
    using that nth_mem [of "fst y" ms] by (simp add: in_set_enumerate_eq)
  moreover have "set (map snd routed) \<subseteq> set (enumerate 0 ms)" using route_messages_sub Inr x by blast
  ultimately have "set (map (snd \<circ> snd) routed) \<subseteq> set ms" by auto
  then have "spared Q (set (map (snd \<circ> snd) routed))" using assms(2) by (rule spared_mono [rotated])
  from has_deliver_shards [OF assms(1) this, of flt k "to_rfc3339 ch now" "[0..<MESSAGE_SHARDS]" "[]"]
  show ?thesis by (simp add: delivered_batch_def Inr x split_beta split: sum.split)
qed (use assms in \<open>simp add: delivered_batch_def\<close>)

text \<open>What an operation of a run has to respect of a predicate.\<close>

fun tolerates :: "chrono \<Rightarrow> (msg_row \<Rightarrow> bool) \<Rightarrow> 'j queue_op \<Rightarrow> bool" where
  "tolerates ch Q (OpEnqueue tj flt clock ts items) = True"
| "tolerates ch Q (OpClaim fj flt clock leases f vis limit) = True"
| "tolerates ch Q (OpRelease flt now mid lease) =
     (\<forall>r t. Q r \<longrightarrow> leased mid lease r \<longrightarrow> Q (release_update t r))"
| "tolerates ch Q (OpRenew flt now mid lease vis) =
     (\<forall>r t. Q r \<longrightarrow> leased mid lease r \<longrightarrow> Q (renew_update t r))"
| "tolerates ch Q (OpDelivered flt now ts ms) = spared Q (set ms)"
| "tolerates ch Q (OpFailed flt now tb tt mid lease error mx) =
     (\<forall>r t. Q r \<longrightarrow> leased mid lease r \<longrightarrow>
        Q (failed_update Failed t error r) \<and> Q (failed_update Pending t error r))"
| "tolerates ch Q (OpDropPending flt now topic) =
     (\<forall>r. Q r \<longrightarrow> m_topic r = topic \<longrightarrow> m_status r \<noteq> Pending)"
| "tolerates ch Q (OpDropClaimed flt now mid lease error) = spared Q {(mid, lease)}"
| "tolerates ch Q (OpReclaim flt now) =
     (\<forall>r. Q r \<longrightarrow> m_status r = Processing \<longrightarrow> m_next r \<le> to_rfc3339 ch now \<longrightarrow> Q (reclaim_update r))"
| "tolerates ch Q (OpPurgeOlder flt cutoff) = (\<forall>r. Q r \<longrightarrow> \<not> m_created r < cutoff)"
| "tolerates ch Q (OpPurgeDelivered flt cutoff) = (\<forall>r. Q r \<longrightarrow> \<not> delivered_before cutoff r)"

lemma has_settle:
  assumes "has Q db i"
  shows "tolerates ch Q (OpRelease flt now mid lease) \<Longrightarrow> has Q (fst (release ch flt now mid lease db)) i"
    "tolerates ch Q (OpRenew flt now mid lease vis) \<Longrightarrow> has Q (fst (renew_claim ch flt now mid lease vis db)) i"
    "tolerates ch Q (OpFailed flt now tb tt mid lease error mx) \<Longrightarrow>
       has Q (fst (failed ch flt now tb tt mid lease error mx db)) i"
    "tolerates ch Q (OpDropClaimed flt now mid lease error) \<Longrightarrow>
       has Q (fst (drop_claimed ch flt now mid lease error db)) i"
    "tolerates ch Q (OpDropPending flt now topic) \<Longrightarrow> has Q (fst (drop_pending ch flt now topic db)) i"
proof -
  note k = has_set_shard [OF assms] has_update
  note s = sum.split option.split prod.split outcome.split
  show "tolerates ch Q (OpRelease flt now mid lease) \<Longrightarrow> has Q (fst (release ch flt now mid lease db)) i"
    using assms by (auto simp: release_def Let_def split_beta intro!: k split: s)
  show "tolerates ch Q (OpRenew flt now mid lease vis) \<Longrightarrow> has Q (fst (renew_claim ch flt now mid lease vis db)) i"
    using assms by (auto simp: renew_claim_def Let_def split_beta intro!: k split: s)
  show "tolerates ch Q (OpFailed flt now tb tt mid lease error mx) \<Longrightarrow>
      has Q (fst (failed ch flt now tb tt mid lease error mx db)) i"
    using assms by (auto simp: failed_def Let_def split_beta intro!: k split: s)
  show "tolerates ch Q (OpDropClaimed flt now mid lease error) \<Longrightarrow>
      has Q (fst (drop_claimed ch flt now mid lease error db)) i"
    using assms by (auto simp: drop_claimed_def spared_def Let_def split_beta intro!: k split: s)
  show "tolerates ch Q (OpDropPending flt now topic) \<Longrightarrow> has Q (fst (drop_pending ch flt now topic db)) i"
    using assms by (auto simp: drop_pending_def Let_def split_beta intro!: k)
qed

lemma has_clean_up:
  assumes "has Q db i" "i < MESSAGE_SHARDS" "db_ok db"
  shows "tolerates ch Q (OpReclaim flt now) \<Longrightarrow> has Q (fst (reclaim_stale ch flt now db)) i"
    "tolerates ch Q (OpPurgeOlder flt cutoff) \<Longrightarrow> has Q (fst (purge_older_than flt cutoff db)) i"
    "tolerates ch Q (OpPurgeDelivered flt cutoff) \<Longrightarrow> has Q (fst (purge_delivered_older_than flt cutoff db)) i"
proof -
  have "i < length (db_shards db)" using assms(2,3) by (simp add: db_ok_def)
  note k = has_on_shards [OF assms(1) this]
  show "tolerates ch Q (OpReclaim flt now) \<Longrightarrow> has Q (fst (reclaim_stale ch flt now db)) i"
    unfolding reclaim_stale_def by (rule k, rule has_update) auto
  show "tolerates ch Q (OpPurgeOlder flt cutoff) \<Longrightarrow> has Q (fst (purge_older_than flt cutoff db)) i"
    unfolding purge_older_than_def by (rule k, rule has_delete) auto
  show "tolerates ch Q (OpPurgeDelivered flt cutoff) \<Longrightarrow> has Q (fst (purge_delivered_older_than flt cutoff db)) i"
    unfolding purge_delivered_older_than_def by (rule k, rule has_delete) auto
qed

context claim_stable
begin

lemma has_step:
  assumes "has Q db i" "i < MESSAGE_SHARDS" "db_ok db" "tolerates ch Q op"
  shows "has Q (queue_apply ch op db) i"
  using assms(4)
  by (cases op; simp only: queue_apply.simps)
    (use has_settle [OF assms(1)] has_clean_up [OF assms(1-3)] has_claim_filter [OF assms(1)]
      has_enqueue_batch [OF assms(1)] has_delivered_batch [OF assms(1)] in \<open>auto\<close>)

lemma has_run:
  assumes "has Q db i" "i < MESSAGE_SHARDS" "db_ok db" "list_all op_ok ops" "list_all (tolerates ch Q) ops"
  shows "has Q (fold (queue_apply ch) ops db) i"
  using assms by (induction ops arbitrary: db) (auto simp: has_step queue_apply_ok)

end

subsection \<open>A claimed message belongs to its lease\<close>

definition owned :: "string \<Rightarrow> msg_row \<Rightarrow> msg_row \<Rightarrow> bool" where
  "owned lease r x \<longleftrightarrow> x = r \<and> leased (m_id r) lease r"

interpretation owned_q: claim_stable "owned lease r" for lease r
  by unfold_locales (simp add: owned_def leased_def)

text \<open>
  The operations that leave a claimed row alone: those that do not present its id together with
  its lease, a reclaim before the claim has run out, a purge that does not reach back to it.
\<close>

fun op_spares :: "chrono \<Rightarrow> string \<Rightarrow> msg_row \<Rightarrow> 'j queue_op \<Rightarrow> bool" where
  "op_spares ch lease r (OpRelease flt now mid' lease') = ((mid', lease') \<noteq> (m_id r, lease))"
| "op_spares ch lease r (OpRenew flt now mid' lease' vis) = ((mid', lease') \<noteq> (m_id r, lease))"
| "op_spares ch lease r (OpDelivered flt now ts ms) = ((m_id r, lease) \<notin> set ms)"
| "op_spares ch lease r (OpFailed flt now tb tt mid' lease' error mx) = ((mid', lease') \<noteq> (m_id r, lease))"
| "op_spares ch lease r (OpDropClaimed flt now mid' lease' error) = ((mid', lease') \<noteq> (m_id r, lease))"
| "op_spares ch lease r (OpReclaim flt now) = (to_rfc3339 ch now < m_next r)"
| "op_spares ch lease r (OpPurgeOlder flt cutoff) = (cutoff \<le> m_created r)"
| "op_spares ch lease r _ = True"

lemma owned_tolerates: "op_spares ch lease r op \<Longrightarrow> tolerates ch (owned lease r) op"
  by (cases op) (auto simp: owned_def leased_def spared_def delivered_before_def)

lemma owned_run:
  assumes "r \<in> set (shard_rows db i)" "leased (m_id r) lease r" "i < MESSAGE_SHARDS" "db_ok db"
    "list_all op_ok ops" "list_all (op_spares ch lease r) ops"
  shows "r \<in> set (shard_rows (fold (queue_apply ch) ops db) i)"
proof -
  have "has (owned lease r) db i" using assms(1,2) by (auto simp: row_in_iff owned_def)
  moreover have "list_all (tolerates ch (owned lease r)) ops"
    using assms(6) by (auto simp: list_all_iff owned_tolerates)
  ultimately have "has (owned lease r) (fold (queue_apply ch) ops db) i"
    using assms(3-5) by (intro owned_q.has_run)
  then show ?thesis by (auto simp: row_in_iff owned_def)
qed

subsection \<open>No message is lost\<close>

type_synonym msg_content = "string \<times> string option \<times> string \<times> bytes \<times> string \<times> string"

definition content :: "msg_row \<Rightarrow> msg_content" where
  "content r = (m_id r, m_key r, m_topic r, m_payload r, m_attributes r, m_created r)"

definition alive :: "msg_content \<Rightarrow> msg_row \<Rightarrow> bool" where
  "alive c r \<longleftrightarrow> content r = c \<and> m_status r \<noteq> Delivered \<and> m_status r \<noteq> Dropped"

interpretation alive_q: claim_stable "alive c" for c
  by unfold_locales (auto simp: alive_def content_def claim_update_def)

text \<open>The operations that do not end the life of a message with this content.\<close>

fun op_retains :: "msg_content \<Rightarrow> 'j queue_op \<Rightarrow> bool" where
  "op_retains (mid, key, topic, rest) (OpDelivered flt now ts ms) = (mid \<notin> fst ` set ms)"
| "op_retains (mid, key, topic, rest) (OpDropPending flt now topic') = (topic' \<noteq> topic)"
| "op_retains (mid, key, topic, rest) (OpDropClaimed flt now mid' lease error) = (mid' \<noteq> mid)"
| "op_retains (mid, key, topic, p, a, created) (OpPurgeOlder flt cutoff) = (cutoff \<le> created)"
| "op_retains c _ = True"

lemma alive_tolerates: "op_retains c op \<Longrightarrow> tolerates ch (alive c) op"
  by (cases c; cases op)
    (force simp: alive_def content_def leased_def spared_def delivered_before_def release_update_def
      renew_update_def failed_update_def reclaim_update_def)+

lemma alive_run:
  assumes "has (alive c) db i" "i < MESSAGE_SHARDS" "db_ok db" "list_all op_ok ops" "list_all (op_retains c) ops"
  shows "has (alive c) (fold (queue_apply ch) ops db) i"
  using assms by (intro alive_q.has_run) (auto simp: list_all_iff alive_tolerates)

subsection \<open>What a claim takes\<close>

definition is_claimed :: "(string \<Rightarrow> 'j option) \<Rightarrow> string \<Rightarrow> 'j claimed_message \<Rightarrow> msg_row \<Rightarrow> bool" where
  "is_claimed fj lease m r \<longleftrightarrow> (\<exists>a. fj (m_attributes r) = Some a \<and> m = to_claimed a lease r)"

lemma hydrate_rows_all2: "hydrate_rows fj lease rs = Inr ms \<Longrightarrow> list_all2 (is_claimed fj lease) ms rs"
  by (induction rs arbitrary: ms) (auto simp: bindE_eq_Inr is_claimed_def split: option.splits)

lemma hydrate_rows_total:
  "\<forall>r \<in> set rs. fj (m_attributes r) \<noteq> None \<Longrightarrow> \<exists>ms. hydrate_rows fj lease rs = Inr ms"
  by (induction rs) auto

lemma is_claimed_map:
  assumes "list_all2 (is_claimed fj lease) ms rs"
  shows "map (\<lambda>m. (cm_id m, cm_topic m, cm_payload m, cm_created_at m, cm_attempts m, cm_lease m)) ms =
         map (\<lambda>r. (m_id r, m_topic r, m_payload r, m_created r, m_attempts r, lease)) rs"
  using assms by (induction rule: list_all2_induct) (auto simp: is_claimed_def to_claimed_def)

lemma candidates_sub:
  "r \<in> set (claim_candidates now topic limit rows) \<Longrightarrow> r \<in> set rows \<and> ready now r \<and> m_topic r = topic"
  by (auto simp: claim_candidates_def dest: in_set_takeD)

lemma candidates_distinct: "distinct rows \<Longrightarrow> distinct (claim_candidates now topic limit rows)"
  by (simp add: claim_candidates_def)

lemma claimed_iff:
  assumes "unique_key m_id rows" "r \<in> set rows"
  shows "m_id r \<in> m_id ` set (claim_candidates now topic limit rows) \<and> m_status r = Pending \<longleftrightarrow>
         r \<in> set (claim_candidates now topic limit rows)"
proof
  assume "m_id r \<in> m_id ` set (claim_candidates now topic limit rows) \<and> m_status r = Pending"
  then obtain x where x: "x \<in> set (claim_candidates now topic limit rows)" "m_id x = m_id r" by auto
  moreover have "x \<in> set rows" using candidates_sub [OF x(1)] by simp
  ultimately have "x = r" using assms by (auto simp: unique_key_def distinct_map dest: inj_onD)
  with x show "r \<in> set (claim_candidates now topic limit rows)" by simp
qed (auto dest: candidates_sub simp: ready_def)

lemma claim_rows_eq:
  assumes "unique_key m_id rows"
  assumes C: "C = claim_candidates now topic limit rows"
  shows "claim_rows lease vis now topic limit rows =
    (map (\<lambda>r. if r \<in> set C then claim_update lease vis r else r) rows,
     map (claim_update lease vis) (filter (\<lambda>r. r \<in> set C) rows))"
  by (simp add: claim_rows_def C sql_update_def Let_def claimed_iff [OF assms(1)] cong: map_cong filter_cong)

lemma claimed_mset:
  assumes "unique_key m_id rows"
  assumes C: "C = claim_candidates now topic limit rows"
  shows "mset (filter (\<lambda>r. r \<in> set C) rows) = mset C"
proof -
  have "distinct rows" using assms(1) by (simp add: unique_key_def distinct_map)
  moreover have "{r \<in> set rows. r \<in> set C} = set C" using candidates_sub unfolding C by blast
  ultimately show ?thesis
    by (intro set_eq_iff_mset_eq_distinct [THEN iffD1]) (simp_all add: C candidates_distinct)
qed

lemma sort_key_Nil_iff [simp]: "sort_key f xs = [] \<longleftrightarrow> xs = []"
  by (metis length_0_conv length_sort)

lemma db_ok_unique: "db_ok db \<Longrightarrow> i < MESSAGE_SHARDS \<Longrightarrow> unique_key m_id (shard_rows db i)"
  using db_okD by (simp add: shard_ok_def)

lemma claim_shape:
  fixes flt :: faults and k :: nat
  assumes "db_ok db" "add_std ch now vis = Returned (Some again)" "\<not> flt k"
    "\<forall>r \<in> set (shard_rows db (topic_shard topic)). fj (m_attributes r) \<noteq> None"
  assumes C: "C = claim_candidates (to_rfc3339 ch now) topic (min (max limit 1) 128) (shard_rows db (topic_shard topic))"
  obtains ms where "claim_batch_for_topic ch fj flt k now lease topic vis limit db =
      (set_shard (topic_shard topic) (map (\<lambda>r. if r \<in> set C then claim_update lease (to_rfc3339 ch again) r else r)
        (shard_rows db (topic_shard topic))) db, Returned (Inr (sort_key (\<lambda>m. (cm_created_at m, cm_id m)) ms)))"
    "list_all2 (is_claimed fj lease) ms
      (map (claim_update lease (to_rfc3339 ch again)) (filter (\<lambda>r. r \<in> set C) (shard_rows db (topic_shard topic))))"
proof -
  let ?rs = "map (claim_update lease (to_rfc3339 ch again)) (filter (\<lambda>r. r \<in> set C) (shard_rows db (topic_shard topic)))"
  have "\<forall>r \<in> set ?rs. fj (m_attributes r) \<noteq> None" using assms(4) by (auto simp: claim_update_def)
  then obtain ms where "hydrate_rows fj lease ?rs = Inr ms" using hydrate_rows_total by blast
  moreover from this have "list_all2 (is_claimed fj lease) ms ?rs" by (rule hydrate_rows_all2)
  moreover note claim_rows_eq [OF db_ok_unique [OF assms(1) topic_shard_less] C]
  ultimately show ?thesis
    using assms(2,3) by (intro that) (simp_all add: claim_batch_for_topic_def Let_def del: One_nat_def)
qed

lemma is_claimed_length:
  "list_all2 R ms (map u (filter (\<lambda>r. r \<in> set C) rows)) \<Longrightarrow> unique_key m_id rows \<Longrightarrow>
   C = claim_candidates now topic limit rows \<Longrightarrow> length ms = length C"
  using claimed_mset [of rows C now topic limit] by (metis list_all2_lengthD length_map size_mset)

lemma is_claimed_elem:
  assumes "list_all2 (is_claimed fj lease) ms (map (claim_update lease again) (filter (\<lambda>r. r \<in> S) rows))" "m \<in> set ms"
  obtains r where "r \<in> S" "cm_id m = m_id r" "cm_topic m = m_topic r" "cm_lease m = lease"
proof -
  obtain n where n: "n < length ms" "m = ms ! n" using assms(2) by (auto simp: in_set_conv_nth)
  then obtain x where "x \<in> set (map (claim_update lease again) (filter (\<lambda>r. r \<in> S) rows))" "is_claimed fj lease m x"
    using list_all2_nthD [OF assms(1) n(1)] list_all2_lengthD [OF assms(1)] nth_mem by metis
  then show thesis by (auto simp: is_claimed_def to_claimed_def claim_update_def intro: that)
qed

lemma claim_empty_same:
  assumes "db_ok db" "claim_batch_for_topic ch fj flt k now lease topic vis limit db = (db', Returned (Inr []))"
  shows "db' = db"
proof -
  have hyd: "rs = []" if "hydrate_rows fj lease rs = Inr []" for rs
    using hydrate_rows_all2 [OF that] by simp
  have nil: "set_shard i (map (\<lambda>r. if r \<in> S then g r else r) (shard_rows db i)) db = db"
    if "filter (\<lambda>r. r \<in> S) (shard_rows db i) = []" for S g i
  proof -
    have "map (\<lambda>r. if r \<in> S then g r else r) (shard_rows db i) = shard_rows db i"
      using that by (auto simp: filter_empty_conv intro!: map_idI)
    then show ?thesis by (simp add: set_shard_def)
  qed
  show ?thesis
    using assms(2) claim_rows_eq [OF db_ok_unique [OF assms(1) topic_shard_less] refl]
    by (auto simp: claim_batch_for_topic_def Let_def simp del: One_nat_def dest!: hyd
        split: outcome.splits option.splits if_splits sum.splits intro!: nil)
qed

lemma claim_returns:
  fixes flt :: faults and k :: nat
  assumes "db_ok db" "add_std ch now vis = Returned (Some again)" "\<not> flt k"
    "\<forall>r \<in> set (shard_rows db (topic_shard topic)). fj (m_attributes r) \<noteq> None"
  obtains db' ms where
    "claim_batch_for_topic ch fj flt k now lease topic vis limit db = (db', Returned (Inr ms))"
    "\<forall>m \<in> set ms. cm_topic m = topic" "length ms \<le> 128"
    "\<forall>r \<in> set (shard_rows db (topic_shard topic)). ready (to_rfc3339 ch now) r \<longrightarrow> m_topic r = topic \<longrightarrow> ms \<noteq> []"
proof -
  let ?rows = "shard_rows db (topic_shard topic)"
  define C where "C = claim_candidates (to_rfc3339 ch now) topic (min (max limit 1) 128) ?rows"
  obtain ms db' where ms: "claim_batch_for_topic ch fj flt k now lease topic vis limit db =
      (db', Returned (Inr (sort_key (\<lambda>m. (cm_created_at m, cm_id m)) ms)))"
    "list_all2 (is_claimed fj lease) ms (map (claim_update lease (to_rfc3339 ch again)) (filter (\<lambda>r. r \<in> set C) ?rows))"
    by (rule claim_shape [where flt = flt and k = k, OF assms C_def])
  have len: "length ms = length C"
    using is_claimed_length [OF ms(2) db_ok_unique [OF assms(1) topic_shard_less] C_def] .
  have "cm_topic m = topic" if "m \<in> set ms" for m
    using is_claimed_elem [OF ms(2) that] candidates_sub unfolding C_def by metis
  moreover have "ms \<noteq> []" if "r \<in> set ?rows" "ready (to_rfc3339 ch now) r" "m_topic r = topic" for r
  proof -
    have "filter (\<lambda>r. ready (to_rfc3339 ch now) r \<and> m_topic r = topic) ?rows \<noteq> []"
      using that by (auto simp: filter_empty_conv)
    then have "C \<noteq> []" by (simp add: C_def claim_candidates_def)
    with len show ?thesis by auto
  qed
  ultimately show ?thesis using ms(1) len by (intro that) (auto simp: C_def claim_candidates_def)
qed

subsection \<open>The wildcard sweep\<close>

text \<open>What the sweep needs: every addition to the clock is defined, attributes parse, nothing fails.\<close>

definition sweep_ok :: "chrono \<Rightarrow> (string \<Rightarrow> 'j option) \<Rightarrow> (nat \<Rightarrow> int) \<Rightarrow> nat \<Rightarrow> database \<Rightarrow> bool" where
  "sweep_ok ch fj clock vis db \<longleftrightarrow>
     (\<forall>n. \<exists>t. add_std ch (clock n) vis = Returned (Some t)) \<and>
     (\<forall>i < MESSAGE_SHARDS. \<forall>r \<in> set (shard_rows db i). fj (m_attributes r) \<noteq> None)"

lemma claim_topics_sweep:
  assumes "db_ok db" "sweep_ok ch fj clock vis db"
  shows "\<exists>db' k' ms. claim_topics ch fj no_faults k clock leases f vis limit topics db = (db', k', Returned (Inr ms)) \<and>
    (\<forall>m \<in> set ms. filter_matches f (cm_topic m)) \<and> length ms \<le> 128 \<and> (ms = [] \<longrightarrow> db' = db) \<and>
    (\<forall>r t. t \<in> set topics \<longrightarrow> filter_matches f t \<longrightarrow> r \<in> set (shard_rows db (topic_shard t)) \<longrightarrow> m_topic r = t \<longrightarrow>
       (\<forall>n. ready (to_rfc3339 ch (clock n)) r) \<longrightarrow> ms \<noteq> [])"
  using assms
proof (induction topics arbitrary: k)
  case (Cons t ts)
  show ?case
  proof (cases "filter_matches f t")
    case True
    obtain again where "add_std ch (clock k) vis = Returned (Some again)"
      using Cons.prems(2) unfolding sweep_ok_def by blast
    moreover have "\<forall>r \<in> set (shard_rows db (topic_shard t)). fj (m_attributes r) \<noteq> None"
      using Cons.prems(2) topic_shard_less [of t] unfolding sweep_ok_def by blast
    ultimately obtain db' ms where c:
      "claim_batch_for_topic ch fj no_faults k (clock k) (leases k) t vis limit db = (db', Returned (Inr ms))"
      "\<forall>m \<in> set ms. cm_topic m = t" "length ms \<le> 128"
      "\<forall>r \<in> set (shard_rows db (topic_shard t)). ready (to_rfc3339 ch (clock k)) r \<longrightarrow> m_topic r = t \<longrightarrow> ms \<noteq> []"
      using Cons.prems(1) claim_returns [where flt = no_faults] by metis
    show ?thesis
    proof (cases ms)
      case Nil
      then have "db' = db" using claim_empty_same [OF Cons.prems(1)] c(1) by blast
      with Nil True c Cons.IH [OF Cons.prems, of "k + 1"] show ?thesis by fastforce
    next
      case (Cons m ms')
      with True c show ?thesis by auto
    qed
  next
    case False
    with Cons.IH [OF Cons.prems, of k] show ?thesis by fastforce
  qed
qed simp

lemma offset_exists:
  fixes start :: nat
  assumes "i < n"
  shows "\<exists>k \<in> set [0..<n]. (start + k) mod n = i"
proof
  have "start + (i + (n - start mod n)) = i + n * (start div n) + n"
    using assms mult_div_mod_eq [of n start] mod_less_divisor [of n start] by linarith
  then show "(start + (i + (n - start mod n)) mod n) mod n = i" using assms by (simp add: mod_add_right_eq)
qed (use assms in simp)

lemma claim_shards_sweep:
  assumes "db_ok db" "sweep_ok ch fj clock vis db"
  shows "\<exists>db' ms. claim_shards ch fj no_faults k clock leases f vis limit start offsets db = (db', Returned (Inr ms)) \<and>
    (\<forall>m \<in> set ms. filter_matches f (cm_topic m)) \<and> length ms \<le> 128 \<and>
    (\<forall>r o'. o' \<in> set offsets \<longrightarrow> r \<in> set (shard_rows db ((start + o') mod MESSAGE_SHARDS)) \<longrightarrow>
       topic_shard (m_topic r) = (start + o') mod MESSAGE_SHARDS \<longrightarrow> filter_matches f (m_topic r) \<longrightarrow>
       (\<forall>n. ready (to_rfc3339 ch (clock n)) r) \<longrightarrow> ms \<noteq> [])"
  using assms
proof (induction offsets arbitrary: k)
  case (Cons o' os)
  let ?i = "(start + o') mod MESSAGE_SHARDS"
  define ts where "ts = rotate (start div MESSAGE_SHARDS) (ready_topics (to_rfc3339 ch (clock k)) (shard_rows db ?i))"
  obtain db' k' ms where c:
    "claim_topics ch fj no_faults (k + 1) clock leases f vis limit ts db = (db', k', Returned (Inr ms))"
    "\<forall>m \<in> set ms. filter_matches f (cm_topic m)" "length ms \<le> 128" "ms = [] \<longrightarrow> db' = db"
    and live: "\<And>r t. t \<in> set ts \<Longrightarrow> filter_matches f t \<Longrightarrow> r \<in> set (shard_rows db (topic_shard t)) \<Longrightarrow> m_topic r = t \<Longrightarrow>
       \<forall>n. ready (to_rfc3339 ch (clock n)) r \<Longrightarrow> ms \<noteq> []"
    using claim_topics_sweep [OF Cons.prems, of "k + 1" leases f limit ts] by metis
  have here: "ms \<noteq> []" if "r \<in> set (shard_rows db ?i)" "topic_shard (m_topic r) = ?i" "filter_matches f (m_topic r)"
    "\<forall>n. ready (to_rfc3339 ch (clock n)) r" for r
    using that by (intro live [of "m_topic r" r]) (auto simp: ts_def ready_topics_def)
  have step: "claim_shards ch fj no_faults k clock leases f vis limit start (o' # os) db =
    (if ms = [] then claim_shards ch fj no_faults k' clock leases f vis limit start os db'
     else (db', Returned (Inr ms)))"
    using c(1) by (simp add: ts_def Let_def split: list.split)
  show ?case
  proof (cases "ms = []")
    case True
    with c(4) step here Cons.IH [OF Cons.prems, of k'] show ?thesis by fastforce
  next
    case False
    with step c(2,3) show ?thesis by auto
  qed
qed simp

subsection \<open>A claimed message is not handed out again\<close>

definition taken :: "msg_row \<Rightarrow> nat \<Rightarrow> database \<Rightarrow> bool" where
  "taken r i db \<longleftrightarrow> db_ok db \<and> i < MESSAGE_SHARDS \<and> r \<in> set (shard_rows db i) \<and> m_status r = Processing \<and>
     message_id_shard (m_id r) = Some i"

lemma takenD: "taken r i db \<Longrightarrow> db_ok db" "taken r i db \<Longrightarrow> has (owned l r) db i \<or> m_lease r \<noteq> Some l"
  by (auto simp: taken_def owned_def leased_def row_in_iff)

lemma taken_claim:
  assumes "taken r i db"
  shows "taken r i (fst (claim_batch_for_topic ch fj flt k now lease topic vis limit db))"
proof -
  have ok: "db_ok db" "i < MESSAGE_SHARDS" "r \<in> set (shard_rows db i)" "m_status r = Processing"
    using assms by (simp_all add: taken_def)
  then obtain l where "m_lease r = Some l"
    using db_okD [OF ok(1,2)] by (fastforce simp: shard_ok_def msg_ok_def)
  with ok have "has (owned l r) db i" by (auto simp: owned_def leased_def row_in_iff)
  from owned_q.has_claim [OF this, of ch fj flt k now lease topic vis limit] have
    "r \<in> set (shard_rows (fst (claim_batch_for_topic ch fj flt k now lease topic vis limit db)) i)"
    by (auto simp: row_in_iff owned_def)
  with assms claim_batch_ok [OF ok(1)] show ?thesis by (simp add: taken_def)
qed

lemma taken_not_claimed:
  assumes "taken r i db" "claim_batch_for_topic ch fj flt k now lease topic vis limit db = (db', Returned (Inr ms))"
  shows "m_id r \<notin> cm_id ` set ms"
proof
  let ?j = "topic_shard topic"
  assume "m_id r \<in> cm_id ` set ms"
  then obtain m where m: "m \<in> set ms" "cm_id m = m_id r" by auto
  have ok: "db_ok db" "i < MESSAGE_SHARDS" "r \<in> set (shard_rows db i)" "m_status r = Processing"
    "message_id_shard (m_id r) = Some i"
    using assms by (simp_all add: taken_def)
  define C where "C = claim_candidates (to_rfc3339 ch now) topic (min (max limit 1) 128) (shard_rows db ?j)"
  obtain again ms' where
    "hydrate_rows fj lease (map (claim_update lease again) (filter (\<lambda>r. r \<in> set C) (shard_rows db ?j))) = Inr ms'"
    "set ms = set ms'"
    using assms(2) claim_rows_eq [OF db_ok_unique [OF ok(1) topic_shard_less [of topic]] C_def]
    by (auto simp: claim_batch_for_topic_def Let_def simp del: One_nat_def
        split: outcome.splits option.splits if_splits sum.splits)
  from is_claimed_elem [OF hydrate_rows_all2 [OF this(1)], of m] m this(2)
  obtain x where x: "x \<in> set C" "m_id x = m_id r" by metis
  then have x': "x \<in> set (shard_rows db ?j)" "m_status x = Pending"
    using candidates_sub [of x] by (auto simp: C_def ready_def)
  have "msg_ok ?j x" using db_okD [OF ok(1) topic_shard_less [of topic]] x' by (auto simp: shard_ok_def)
  with x ok(5) have "?j = i" by (auto simp: msg_ok_def)
  with x x' ok(3,4) db_ok_unique [OF ok(1,2)] have "x = r"
    by (auto simp: unique_key_def distinct_map dest: inj_onD)
  with x' ok(4) show False by simp
qed

lemma taken_not_claimed_topics:
  "taken r i db \<Longrightarrow> claim_topics ch fj flt k clock leases f vis limit topics db = (db', k', Returned (Inr ms)) \<Longrightarrow>
   taken r i db' \<and> m_id r \<notin> cm_id ` set ms"
proof (induction topics arbitrary: db k)
  case (Cons t ts)
  obtain db1 res where c: "claim_batch_for_topic ch fj flt k (clock k) (leases k) t vis limit db = (db1, res)"
    by fastforce
  have "taken r i db1" using taken_claim [OF Cons.prems(1)] c by (metis fst_conv)
  moreover have "m_id r \<notin> cm_id ` set ms'" if "res = Returned (Inr ms')" for ms'
    using taken_not_claimed [OF Cons.prems(1) c [unfolded that]] .
  ultimately show ?case
    using c Cons.prems Cons.IH [of db1 "k + 1"] Cons.IH [of db k]
    by (cases "filter_matches f t"; cases res) (auto simp del: image_iff split: sum.splits list.splits)
qed simp

lemma taken_not_claimed_shards:
  "taken r i db \<Longrightarrow> claim_shards ch fj flt k clock leases f vis limit start offsets db = (db', Returned (Inr ms)) \<Longrightarrow>
   m_id r \<notin> cm_id ` set ms"
proof (induction offsets arbitrary: db k)
  case (Cons o' os)
  define ts where "ts = rotate (start div MESSAGE_SHARDS) (ready_topics (to_rfc3339 ch (clock k))
    (shard_rows db ((start + o') mod MESSAGE_SHARDS)))"
  obtain db1 k1 res where c: "claim_topics ch fj flt (k + 1) clock leases f vis limit ts db = (db1, k1, res)"
    using prod_cases3 by blast
  have "taken r i db1 \<and> m_id r \<notin> cm_id ` set ms'" if "res = Returned (Inr ms')" for ms'
    using taken_not_claimed_topics [OF Cons.prems(1) c [unfolded that]] .
  with c Cons.prems Cons.IH [of db1 k1] show ?case
    by (cases res) (auto simp: ts_def [symmetric] Let_def simp del: image_iff split: sum.splits list.splits if_splits)
qed simp

lemma taken_not_claimed_filter:
  assumes "taken r i db" "claim_batch_for_filter ch fj flt clock leases f vis limit db = (db', Returned (Inr ms))"
  shows "m_id r \<notin> cm_id ` set ms"
proof (cases "is_wildcard_filter f")
  case True
  have "taken r i (db\<lparr>db_cursor := c\<rparr>)" for c using assms(1) by (simp add: taken_def)
  with True assms(2) show ?thesis
    by (auto simp: claim_batch_for_filter_def Let_def dest: taken_not_claimed_shards)
next
  case False
  with assms show ?thesis by (auto simp: claim_batch_for_filter_def dest: taken_not_claimed)
qed

subsection \<open>Small databases\<close>

definition empty_db :: database where
  "empty_db = \<lparr>db_stats = \<lparr>st_topics = [], st_config = [], st_deltas = [], st_trend_deltas = [], st_trends = []\<rparr>,
     db_shards = replicate MESSAGE_SHARDS [], db_cursor = 0\<rparr>"

definition db_with :: "msg_row \<Rightarrow> database" where
  "db_with r = set_shard (topic_shard (m_topic r)) [r] empty_db"

definition sample_row :: "int \<Rightarrow> msg_row" where
  "sample_row now = new_msg \<lparr>ei_id = new_message_id ''jobs'' ''u'', ei_key = Some ''k'', ei_topic = ''jobs'',
     ei_payload = [1, 2], ei_attributes = []\<rparr> ''{}'' (to_rfc3339 plain_chrono now)"

lemma empty_db_ok [simp]: "db_ok empty_db"
  by (simp add: db_ok_def empty_db_def shard_ok_def unique_idem_def)

lemma db_with_ok: "msg_ok (topic_shard (m_topic r)) r \<Longrightarrow> db_ok (db_with r)"
  unfolding db_with_def
  by (rule db_ok_set_shard) (auto simp: shard_ok_def unique_key_def unique_idem_def)

lemma db_with_rows: "shard_rows (db_with r) (topic_shard (m_topic r)) = [r]"
  using topic_shard_less by (simp add: db_with_def set_shard_def empty_db_def)

lemma db_with_all: "i < MESSAGE_SHARDS \<Longrightarrow> set (shard_rows (db_with r) i) \<subseteq> {r}"
  by (cases "i = topic_shard (m_topic r)") (auto simp: db_with_def set_shard_def empty_db_def)

lemma sample_row_sel [simp]:
  "m_id (sample_row now) = new_message_id ''jobs'' ''u''" "m_topic (sample_row now) = ''jobs''"
  "m_status (sample_row now) = Pending" "m_next (sample_row now) = to_rfc3339 plain_chrono now"
  "m_created (sample_row now) = to_rfc3339 plain_chrono now" "m_attributes (sample_row now) = ''{}''"
  "m_key (sample_row now) = Some ''k''" "m_attempts (sample_row now) = 0" "m_lease (sample_row now) = None"
  by (simp_all add: sample_row_def new_msg_def)

lemma sample_ok [simp]: "msg_ok (topic_shard ''jobs'') (sample_row now)"
  "msg_ok (topic_shard ''jobs'') (claim_update l t (sample_row now))"
  by (simp_all add: msg_ok_def claim_update_def)

lemma claimed_sel [simp]:
  "m_id (claim_update l t r) = m_id r" "m_topic (claim_update l t r) = m_topic r"
  "m_status (claim_update l t r) = Processing" "m_lease (claim_update l t r) = Some l"
  "m_next (claim_update l t r) = t" "m_created (claim_update l t r) = m_created r"
  "m_attempts (claim_update l t r) = m_attempts r + 1"
  by (simp_all add: claim_update_def)

lemma sample_db [simp]:
  "db_ok (db_with (sample_row now))" "db_ok (db_with (claim_update l t (sample_row now)))"
  "shard_rows (db_with (sample_row now)) (topic_shard ''jobs'') = [sample_row now]"
  "shard_rows (db_with (claim_update l t (sample_row now))) (topic_shard ''jobs'') = [claim_update l t (sample_row now)]"
  using db_with_ok [of "sample_row now"] db_with_ok [of "claim_update l t (sample_row now)"]
    db_with_rows [of "sample_row now"] db_with_rows [of "claim_update l t (sample_row now)"] by simp_all

subsection \<open>Properties\<close>

text \<open>C14. The invariant of the message store: over any run of enqueues, claims, settlements,
  reclaims and purges, with any failing statements, clocks and leases, every shard keeps unique
  ids and unique idempotency keys, holds only topics that hash to it, and a row has a lease
  exactly while it is processing.\<close>

theorem queue_invariant:
  assumes "db_ok db" "list_all op_ok ops"
  shows "db_ok (fold (queue_apply ch) ops db)"
  using assms by (rule queue_run_db_ok)

theorem queue_invariant_witness:
  "db_ok (fold (queue_apply plain_chrono)
     [OpEnqueue (\<lambda>_. Some ''{}'') no_faults (\<lambda>_. 1) 1 [\<lparr>ei_id = new_message_id ''a'' ''u'', ei_key = None,
        ei_topic = ''a'', ei_payload = [1], ei_attributes = []\<rparr>],
      OpClaim (\<lambda>_. Some ()) (\<lambda>n. n = 3) (\<lambda>_. 2) (\<lambda>_. ''l'') ''#'' 5 1, OpReclaim no_faults 9] empty_db)"
  by (rule queue_invariant) (simp_all add: item_ok_def)



text \<open>C5. No message is lost: a stored message that is neither acknowledged, dropped nor purged for
  age stays in its shard through any run, with its content, pending, processing or failed; in
  particular claims that run out, releases, failures and faults never delete it.\<close>

theorem no_message_lost:
  assumes "db_ok db" "i < MESSAGE_SHARDS" "r \<in> set (shard_rows db i)"
    and "m_status r \<noteq> Delivered" "m_status r \<noteq> Dropped"
    and "list_all op_ok ops" "list_all (op_retains (content r)) ops"
  shows "\<exists>r' \<in> set (shard_rows (fold (queue_apply ch) ops db) i).
    content r' = content r \<and> m_status r' \<in> {Pending, Processing, Failed}"
proof -
  have "has (alive (content r)) db i" using assms(3-5) by (auto simp: row_in_iff alive_def)
  from alive_run [OF this assms(2,1,6,7)] obtain r' where
    "r' \<in> set (shard_rows (fold (queue_apply ch) ops db) i)" "alive (content r) r'"
    by (auto simp: row_in_iff)
  then show ?thesis by (cases "m_status r'") (auto simp: alive_def)
qed

theorem no_message_lost_witness:
  "\<exists>r' \<in> set (shard_rows (fold (queue_apply plain_chrono)
       [OpClaim (\<lambda>_. Some ()) (\<lambda>n. n = 3) (\<lambda>_. 2) (\<lambda>_. ''l'') ''#'' 5 1, OpReclaim no_faults 9,
        OpFailed no_faults 9 9 9 ''x'' ''l'' ''err'' 1] (db_with (sample_row 1))) (topic_shard ''jobs'')).
     content r' = content (sample_row 1) \<and> m_status r' \<in> {Pending, Processing, Failed}"
  by (rule no_message_lost) (simp_all add: topic_shard_less content_def)

text \<open>C16. What a claim takes: without a failure the claim of a topic returns the first ready messages
  in the order of creation, at most the limit clamped to 1..128, each with one more attempt and
  the new lease, sorted; exactly their rows become processing and invisible until the end of the
  visibility timeout, and no other row changes.\<close>

theorem claim_takes_first_ready:
  fixes flt :: faults and k :: nat
  assumes "db_ok db" "add_std ch now vis = Returned (Some again)" "\<not> flt k"
    and "\<forall>r \<in> set (shard_rows db (topic_shard topic)). fj (m_attributes r) \<noteq> None"
  shows "\<exists>ms. let i = topic_shard topic;
      C = take (min (max limit 1) 128) (sort_key (\<lambda>r. (m_created r, m_next r, m_id r))
            (filter (\<lambda>r. m_status r = Pending \<and> m_next r \<le> to_rfc3339 ch now \<and> m_topic r = topic) (shard_rows db i)))
    in claim_batch_for_topic ch fj flt k now lease topic vis limit db =
         (set_shard i (map (\<lambda>r. if r \<in> set C then r\<lparr>m_status := Processing, m_attempts := m_attempts r + 1,
            m_lease := Some lease, m_next := to_rfc3339 ch again\<rparr> else r) (shard_rows db i)) db, Returned (Inr ms)) \<and>
       sorted (map (\<lambda>m. (cm_created_at m, cm_id m)) ms) \<and>
       mset (map (\<lambda>m. (cm_id m, cm_payload m, cm_attempts m, cm_lease m)) ms) =
         mset (map (\<lambda>r. (m_id r, m_payload r, m_attempts r + 1, lease)) C)"
proof -
  let ?rows = "shard_rows db (topic_shard topic)"
  define C where "C = claim_candidates (to_rfc3339 ch now) topic (min (max limit 1) 128) ?rows"
  obtain ms where ms: "claim_batch_for_topic ch fj flt k now lease topic vis limit db =
      (set_shard (topic_shard topic) (map (\<lambda>r. if r \<in> set C then claim_update lease (to_rfc3339 ch again) r else r)
        ?rows) db, Returned (Inr (sort_key (\<lambda>m. (cm_created_at m, cm_id m)) ms)))"
    "list_all2 (is_claimed fj lease) ms (map (claim_update lease (to_rfc3339 ch again)) (filter (\<lambda>r. r \<in> set C) ?rows))"
    by (rule claim_shape [where flt = flt and k = k, OF assms C_def])
  have "map (\<lambda>m. (cm_id m, cm_payload m, cm_attempts m, cm_lease m)) ms =
      map (\<lambda>r. (m_id r, m_payload r, m_attempts r + 1, lease)) (filter (\<lambda>r. r \<in> set C) ?rows)"
    using ms(2) unfolding list_all2_map2
    by (induction rule: list_all2_induct) (auto simp: is_claimed_def to_claimed_def claim_update_def)
  then have "mset (map (\<lambda>m. (cm_id m, cm_payload m, cm_attempts m, cm_lease m)) ms) =
      image_mset (\<lambda>r. (m_id r, m_payload r, m_attempts r + 1, lease)) (mset C)"
    by (simp only: mset_map claimed_mset [OF db_ok_unique [OF assms(1) topic_shard_less] C_def])
  moreover have "C = take (min (max limit 1) 128) (sort_key (\<lambda>r. (m_created r, m_next r, m_id r))
      (filter (\<lambda>r. m_status r = Pending \<and> m_next r \<le> to_rfc3339 ch now \<and> m_topic r = topic) ?rows))"
    by (simp add: C_def claim_candidates_def ready_def claim_order_def [abs_def])
  ultimately show ?thesis
    using ms(1) unfolding Let_def claim_update_def
    by (intro exI [of _ "sort_key (\<lambda>m. (cm_created_at m, cm_id m)) ms"]) (simp del: One_nat_def)
qed

theorem claim_takes_first_ready_witness:
  "\<exists>ms. claim_batch_for_topic plain_chrono (\<lambda>_. Some ()) no_faults 0 3 ''l'' ''jobs'' 6 1 (db_with (sample_row 1)) =
     (set_shard (topic_shard ''jobs'') [claim_update ''l'' (to_rfc3339 plain_chrono 9) (sample_row 1)]
        (db_with (sample_row 1)), Returned (Inr ms)) \<and>
     mset (map (\<lambda>m. (cm_id m, cm_payload m, cm_attempts m, cm_lease m)) ms) =
       {#(new_message_id ''jobs'' ''u'', [1, 2], 1, ''l'')#}"
proof -
  have le: "to_rfc3339 plain_chrono 1 \<le> to_rfc3339 plain_chrono 3"
    using chrono_okD(4) [OF plain_chrono_ok, of 1 3] by (simp add: in_years_def)
  have p: "m_payload (sample_row 1) = [1, 2]" by (simp add: sample_row_def new_msg_def)
  show ?thesis
    using claim_takes_first_ready [of "db_with (sample_row 1)" plain_chrono 3 6 9 no_faults 0 "''jobs''"
        "\<lambda>_. Some ()" 1 "''l''"] le p
    by (auto simp: claim_update_def)
qed

text \<open>C17. A wildcard claim is live: if some stored message matches the filter and is ready at every
  clock reading, then, without failures, the sweep over the sixteen shards from any cursor
  returns a non-empty batch of at most 128 messages, all of topics that match.\<close>

theorem wildcard_claim_live:
  assumes "db_ok db" "sweep_ok ch fj clock vis db" "is_wildcard_filter f"
    and "i < MESSAGE_SHARDS" "r \<in> set (shard_rows db i)" "filter_matches f (m_topic r)"
    and "\<forall>n. ready (to_rfc3339 ch (clock n)) r"
  shows "\<exists>db' ms. claim_batch_for_filter ch fj no_faults clock leases f vis limit db = (db', Returned (Inr ms)) \<and>
    ms \<noteq> [] \<and> length ms \<le> 128 \<and> (\<forall>m \<in> set ms. filter_matches f (cm_topic m))"
proof -
  define db1 where "db1 = db\<lparr>db_cursor := (db_cursor db + 1) mod 2 ^ 64\<rparr>"
  have 1: "db_ok db1" "sweep_ok ch fj clock vis db1" "r \<in> set (shard_rows db1 i)"
    using assms(1,2,5) by (simp_all add: db1_def sweep_ok_def)
  have shard: "topic_shard (m_topic r) = i"
    using db_okD [OF assms(1,4)] assms(5) by (auto simp: shard_ok_def msg_ok_def)
  obtain o' where o': "o' \<in> set [0..<MESSAGE_SHARDS]" "(db_cursor db + o') mod MESSAGE_SHARDS = i"
    using offset_exists [OF assms(4)] by blast
  obtain db' ms where "claim_shards ch fj no_faults 0 clock leases f vis limit (db_cursor db) [0..<MESSAGE_SHARDS] db1 =
      (db', Returned (Inr ms))" "\<forall>m \<in> set ms. filter_matches f (cm_topic m)" "length ms \<le> 128" "ms \<noteq> []"
    using claim_shards_sweep [OF 1(1,2), of 0 leases f limit "db_cursor db" "[0..<MESSAGE_SHARDS]"]
      o' 1(3) shard assms(6,7) by metis
  then show ?thesis using assms(3) by (simp add: claim_batch_for_filter_def db1_def Let_def)
qed

theorem wildcard_claim_live_witness:
  "\<exists>db' ms. claim_batch_for_filter plain_chrono (\<lambda>_. Some ()) no_faults (\<lambda>_. 3) (\<lambda>_. ''l'') ''#'' 5 1
      (db_with (sample_row 1)) = (db', Returned (Inr ms)) \<and> ms \<noteq> [] \<and> length ms \<le> 128 \<and>
    (\<forall>m \<in> set ms. filter_matches ''#'' (cm_topic m))"
proof (rule wildcard_claim_live [where i = "topic_shard ''jobs''" and r = "sample_row 1"])
  show "is_wildcard_filter ''#''" by code_simp
  show "filter_matches ''#'' (m_topic (sample_row 1))" unfolding sample_row_sel by code_simp
  show "\<forall>n :: nat. ready (to_rfc3339 plain_chrono 3) (sample_row 1)"
    using chrono_okD(4) [OF plain_chrono_ok, of 1 3] by (simp add: ready_def in_years_def)
qed (simp_all add: topic_shard_less sweep_ok_def)

end
