(* ===== verification/Settlement.thy ===== *)
theory Settlement
  imports Queue
begin

text \<open>
  Properties of the settlement of claims and of enqueueing: who may settle a claim and how often,
  what a negative acknowledgement schedules, and idempotent publication. The definitions are those
  of \<open>Messages\<close>.
\<close>

subsection \<open>Without the lease nothing happens\<close>

definition unleased :: "string \<Rightarrow> string \<Rightarrow> database \<Rightarrow> bool" where
  "unleased mid lease db \<longleftrightarrow> list_all (list_all (\<lambda>r. \<not> leased mid lease r)) (db_shards db)"

lemma sql_update_none: "\<forall>r \<in> set rows. \<not> P r \<Longrightarrow> sql_update P f rows = (0, rows)"
  by (auto simp: sql_update_def filter_empty_conv intro!: map_idI)

lemma set_shard_same [simp]: "set_shard i (shard_rows db i) db = db"
  by (simp add: set_shard_def)

lemma unleased_db_with: "\<not> leased mid lease r \<Longrightarrow> unleased mid lease (db_with r)"
  using set_update_subset_insert [of "replicate MESSAGE_SHARDS []" "topic_shard (m_topic r)" "[r]"]
  by (auto simp: unleased_def list_all_iff db_with_def set_shard_def empty_db_def)

lemma unleasedD: "unleased mid lease db \<Longrightarrow> i < length (db_shards db) \<Longrightarrow> \<forall>r \<in> set (shard_rows db i). \<not> leased mid lease r"
  by (auto simp: unleased_def list_all_iff)

lemma shard_index_length:
  "db_ok db \<Longrightarrow> shard_index_for_id flt k mid db = Inr (Some i, k') \<Longrightarrow> i < length (db_shards db)"
  using shard_index_less by (simp add: db_ok_def)

lemma unleased_update:
  assumes "db_ok db" "unleased mid lease db" "shard_index_for_id flt k mid db = Inr (Some i, k')"
  shows "sql_update (leased mid lease) f (shard_rows db i) = (0, shard_rows db i)"
    "sql_update (\<lambda>r. leased mid lease r \<and> P r) f (shard_rows db i) = (0, shard_rows db i)"
    "find (leased mid lease) (shard_rows db i) = None"
  using unleasedD [OF assms(2) shard_index_length [OF assms(1,3)]]
  by (auto intro!: sql_update_none simp: find_None_iff)

lemma deliver_items_none:
  "\<forall>(_, mid, lease) \<in> set items. \<forall>r \<in> set rows. \<not> leased mid lease r \<Longrightarrow>
   deliver_items flt k now items rows acc = Inr x \<Longrightarrow> fst x = rows \<and> fst (snd x) = acc"
proof (induction items arbitrary: k)
  case (Cons y items)
  obtain n mid lease where y: "y = (n, mid, lease)" by (cases y)
  have "\<forall>r \<in> set rows. \<not> leased mid lease r" using Cons.prems(1) by (simp add: y)
  then have "sql_update (leased mid lease) (delivered_update now) rows = (0, rows)"
    "find (leased mid lease) rows = None"
    by (simp_all add: sql_update_none find_None_iff)
  with Cons show ?case by (auto simp: y split: if_splits)
qed auto

lemma deliver_shards_none:
  "\<forall>(i, _, mid, lease) \<in> set routed. \<forall>r \<in> set (shard_rows db i). \<not> leased mid lease r \<Longrightarrow>
   deliver_shards flt k now routed is db acc = (db', res) \<Longrightarrow> db' = db \<and> (res = Inr acc \<or> res = Inl DbSql)"
proof (induction "is" arbitrary: k)
  case (Cons i "is")
  let ?g = "map snd (filter (\<lambda>(j, _). j = i) routed)"
  have "\<forall>(_, mid, lease) \<in> set ?g. \<forall>r \<in> set (shard_rows db i). \<not> leased mid lease r"
    using Cons.prems(1) by fastforce
  note none = deliver_items_none [OF this, of flt "Suc k" now acc]
  have err: "e = DbSql" if "deliver_items flt k now items rows acc = Inl e" for k items rows acc e
    using that by (induction items arbitrary: k rows acc) (auto split: if_splits)
  show ?case
    using Cons.prems(2) Cons.IH [OF Cons.prems(1)] none err
    by (fastforce simp: Let_def split: if_splits sum.splits)
qed simp

lemma delivered_unleased:
  assumes "db_ok db" "unleased mid lease db"
  shows "fst (delivered ch flt now ts mid lease db) = db" "snd (delivered ch flt now ts mid lease db) \<noteq> Inr True"
proof -
  have "fst (delivered ch flt now ts mid lease db) = db \<and> snd (delivered ch flt now ts mid lease db) \<noteq> Inr True"
  proof (cases "shard_index_for_id flt 0 mid db")
    case (Inr x)
    obtain sh k where x: "x = (sh, k)" by (cases x)
    define routed where "routed = (case sh of None \<Rightarrow> [] | Some i \<Rightarrow> [(i, 0 :: nat, mid, lease)])"
    have r: "route_messages flt 0 (enumerate 0 [(mid, lease)]) db = Inr (routed, k)"
      by (simp add: Inr x routed_def split: option.split)
    have none: "\<forall>(i, _, mid, lease) \<in> set routed. \<forall>r \<in> set (shard_rows db i). \<not> leased mid lease r"
    proof (cases sh)
      case (Some i)
      then have "i < length (db_shards db)" using shard_index_length [OF assms(1)] Inr x by simp
      from unleasedD [OF assms(2) this] show ?thesis by (simp add: routed_def Some)
    qed (simp add: routed_def)
    obtain db' res where d: "deliver_shards flt k (to_rfc3339 ch now) routed [0..<MESSAGE_SHARDS] db [] = (db', res)"
      by fastforce
    from deliver_shards_none [OF none d] d
    have "deliver_shards flt k (to_rfc3339 ch now) routed [0..<MESSAGE_SHARDS] db [] = (db, res)"
        "res = Inr [] \<or> res = Inl DbSql"
      by simp_all
    then show ?thesis
      unfolding delivered_def delivered_batch_def r by (auto simp: record_delivered_def)
  qed (simp add: delivered_def delivered_batch_def)
  then show "fst (delivered ch flt now ts mid lease db) = db" "snd (delivered ch flt now ts mid lease db) \<noteq> Inr True"
    by simp_all
qed

lemma settle_unleased:
  assumes "db_ok db" "unleased mid lease db"
  shows "fst (release ch flt now mid lease db) = db \<and> snd (release ch flt now mid lease db) \<noteq> Inr True"
    "fst (renew_claim ch flt now mid lease vis db) = db \<and>
     snd (renew_claim ch flt now mid lease vis db) \<noteq> Returned (Inr True)"
    "fst (failed ch flt now tb tt mid lease error mx db) = db \<and>
     snd (failed ch flt now tb tt mid lease error mx db) \<noteq> Returned (Inr True)"
    "fst (drop_claimed ch flt now mid lease error db) = db \<and>
     snd (drop_claimed ch flt now mid lease error db) \<noteq> Inr True"
  by (auto simp: release_def renew_claim_def failed_def drop_claimed_def Let_def unleased_update [OF assms]
      split: sum.split option.split prod.split outcome.split)

subsection \<open>With the lease the claim is settled once\<close>

text \<open>The settlement of one message whose id carries the number of its shard, without failures.\<close>

lemma deliver_shards_one:
  "distinct is \<Longrightarrow> deliver_shards no_faults k now [(i, 0, mid, lease)] is db acc =
     (if i \<in> set is
      then (set_shard i (snd (sql_update (leased mid lease) (delivered_update now) (shard_rows db i))) db,
            Inr (case find (leased mid lease) (shard_rows db i) of None \<Rightarrow> acc | Some r \<Rightarrow> acc @ [(0, m_topic r)]))
      else (db, Inr acc))"
  by (induction "is" arbitrary: k db acc) (auto split: option.split)

lemma delivered_eq:
  assumes "message_id_shard mid = Some i"
  shows "\<exists>st. delivered ch no_faults now ts mid lease db =
    ((set_shard i (snd (sql_update (leased mid lease) (delivered_update (to_rfc3339 ch now)) (shard_rows db i))) db)
       \<lparr>db_stats := st\<rparr>, Inr (find (leased mid lease) (shard_rows db i) \<noteq> None))"
proof -
  have "route_messages no_faults 0 (enumerate 0 [(mid, lease)]) db = Inr ([(i, 0, mid, lease)], 0)"
    by (simp add: shard_index_for_id_def assms)
  moreover have "i \<in> set [0..<MESSAGE_SHARDS]" using message_id_shard_less [OF assms] by simp
  ultimately show ?thesis
    unfolding delivered_def delivered_batch_def
    by (auto simp: deliver_shards_one split: option.split)
qed

lemma find_leased:
  assumes "unique_key m_id rows" "r \<in> set rows" "leased (m_id r) lease r"
  shows "find (leased (m_id r) lease) rows = Some r"
proof -
  have "x = r" if "x \<in> set rows" "leased (m_id r) lease x" for x
    using that assms by (auto simp: leased_def unique_key_def distinct_map dest: inj_onD)
  moreover have "find (leased (m_id r) lease) rows \<noteq> None" using assms(2,3) by (auto simp: find_None_iff)
  then obtain x where "find (leased (m_id r) lease) rows = Some x" by blast
  moreover from this have "x \<in> set rows" "leased (m_id r) lease x" by (auto simp: find_Some_iff)
  ultimately show ?thesis by blast
qed

text \<open>After the update by the lease, no row of the id is leased any more.\<close>

lemma unleased_after:
  assumes "db_ok db" "message_id_shard mid = Some i" "\<And>r. m_id (f r) = m_id r" "\<And>r. m_status (f r) \<noteq> Processing"
    "r \<in> set (shard_rows db i)" "leased mid lease r"
  shows "unleased mid lease' ((set_shard i (snd (sql_update (leased mid lease) f (shard_rows db i))) db)\<lparr>db_stats := st\<rparr>)"
proof -
  have i: "i < MESSAGE_SHARDS" "length (db_shards db) = MESSAGE_SHARDS"
    using assms(1) message_id_shard_less [OF assms(2)] by (simp_all add: db_ok_def)
  have only: "x = r" if "x \<in> set (shard_rows db i)" "m_id x = mid" for x
    using that assms(5,6) db_ok_unique [OF assms(1) i(1)]
    by (auto simp: leased_def unique_key_def distinct_map dest: inj_onD)
  have other: "m_id x \<noteq> mid" if "x \<in> set (shard_rows db j)" "j < MESSAGE_SHARDS" "j \<noteq> i" for x j
    using that db_okD [OF assms(1) that(2)] assms(2) by (auto simp: shard_ok_def msg_ok_def)
  have here: "\<not> leased mid lease' x" if "x \<in> set (snd (sql_update (leased mid lease) f (shard_rows db i)))" for x
    using that assms(3,4,6) only by (auto simp: sql_update_def leased_def split: if_splits)
  show ?thesis
    unfolding unleased_def
    by (subst list_all_length) (use here other i in \<open>auto simp: list_all_iff set_shard_def nth_list_update leased_def\<close>)
qed

lemma backoff_eq: "0 \<le> a \<Longrightarrow> backoff_secs a = 2 ^ nat (min a 8)"
proof -
  assume "0 \<le> a"
  then have "min a 8 \<in> {0, 1, 2, 3, 4, 5, 6, 7, 8}" by auto
  moreover have "backoff_secs a = (if 62 < min a 8 mod 2 ^ 32 then min i64_max 300 else min (2 ^ nat (min a 8 mod 2 ^ 32)) 300)"
    by (simp add: backoff_secs_def Let_def)
  ultimately show ?thesis by auto
qed

lemma backoff_le: "0 \<le> a \<Longrightarrow> backoff_secs a \<le> 256"
  using power_increasing [of "nat (min a 8)" 8 "2 :: int"] by (simp add: backoff_eq)

lemma failed_eq:
  assumes "db_ok db" "message_id_shard (m_id r) = Some i" "r \<in> set (shard_rows db i)" "leased (m_id r) lease r"
    "add_secs ch now (backoff_secs (m_attempts r)) = Some nxt"
  shows "\<exists>st. failed ch no_faults now tb tt (m_id r) lease error mx db =
    ((set_shard i (snd (sql_update (leased (m_id r) lease)
        (failed_update (if mx \<le> m_attempts r then Failed else Pending) (to_rfc3339 ch nxt) error) (shard_rows db i))) db)
       \<lparr>db_stats := st\<rparr>, Returned (Inr True))"
proof -
  have i: "i < MESSAGE_SHARDS" using message_id_shard_less [OF assms(2)] .
  have f: "find (leased (m_id r) lease) (shard_rows db i) = Some r"
    using find_leased [OF db_ok_unique [OF assms(1) i] assms(3,4)] .
  have n: "fst (sql_update (leased (m_id r) lease) g (shard_rows db i)) \<noteq> 0" for g
    using assms(3,4) by (auto simp: sql_update_def filter_empty_conv)
  have st: "\<exists>st. db' = db'\<lparr>db_stats := st\<rparr>" for db' :: database by (rule exI [of _ "db_stats db'"]) simp
  show ?thesis
    using n st by (auto simp: failed_def shard_index_for_id_def assms(2,5) f Let_def split_beta bump_topic_stat_def sql_err_def)
qed

subsection \<open>Publishing twice\<close>

lemma enqueue_shards_fresh:
  assumes "tj (ei_attributes item) = Some a" "row = new_msg item a (to_rfc3339 ch (clock 0))"
    "\<not> msg_conflict row (shard_rows db (topic_shard (ei_topic item)))" "distinct is"
  shows "enqueue_shards ch tj no_faults clock k [(0, item)] is db acc =
     (if topic_shard (ei_topic item) \<in> set is
      then (set_shard (topic_shard (ei_topic item)) (shard_rows db (topic_shard (ei_topic item)) @ [row]) db,
            Inr (acc @ [(0, ei_topic item, ei_id item, False)]))
      else (db, Inr acc))"
proof -
  have skip: "topic_shard (ei_topic item) \<notin> set is \<Longrightarrow>
      enqueue_shards ch tj no_faults clock k [(0, item)] is db acc = (db, Inr acc)" for "is" k db acc
    by (induction "is" arbitrary: k) auto
  show ?thesis
    using assms(3,4) by (induction "is" arbitrary: k) (auto simp: assms(1,2) skip)
qed

lemma enqueue_shards_dup:
  assumes "tj (ei_attributes item) = Some a" "ei_key item = Some key"
    "find (\<lambda>r. m_key r = Some key) (shard_rows db (topic_shard (ei_topic item))) = Some r" "distinct is"
  shows "enqueue_shards ch tj no_faults clock k [(0, item)] is db acc =
     (db, Inr (if topic_shard (ei_topic item) \<in> set is then acc @ [(0, ei_topic item, m_id r, True)] else acc))"
proof -
  have skip: "topic_shard (ei_topic item) \<notin> set is \<Longrightarrow>
      enqueue_shards ch tj no_faults clock k [(0, item)] is db acc = (db, Inr acc)" for "is" k db acc
    by (induction "is" arbitrary: k) auto
  have "r \<in> set (shard_rows db (topic_shard (ei_topic item)))" "m_key r = Some key"
    using assms(3) by (auto simp: find_Some_iff)
  then have "msg_conflict (new_msg item a now) (shard_rows db (topic_shard (ei_topic item)))" for now
    using assms(2) by (auto simp: msg_conflict_def new_msg_def)
  then show ?thesis
    using assms(4) by (induction "is" arbitrary: k) (auto simp: assms(1-3) skip)
qed

lemma db_enqueue_fresh:
  assumes "tj attributes = Some a" "key \<noteq> []" "r = new_msg \<lparr>ei_id = new_message_id topic uuid, ei_key = Some key,
      ei_topic = topic, ei_payload = payload, ei_attributes = attributes\<rparr> a (to_rfc3339 ch now)"
    "\<not> msg_conflict r (shard_rows db (topic_shard topic))"
  shows "\<exists>st. db_enqueue ch tj no_faults now ts uuid (Some key) topic payload attributes db =
    ((set_shard (topic_shard topic) (shard_rows db (topic_shard topic) @ [r]) db)\<lparr>db_stats := st\<rparr>,
     Inr (new_message_id topic uuid, False))"
proof -
  let ?item = "\<lparr>ei_id = new_message_id topic uuid, ei_key = Some key, ei_topic = topic, ei_payload = payload,
    ei_attributes = attributes\<rparr>"
  have "enqueue_shards ch tj no_faults (\<lambda>_. now) 0 [(0, ?item)] [0..<MESSAGE_SHARDS] db [] =
      (set_shard (topic_shard topic) (shard_rows db (topic_shard topic) @ [r]) db,
       Inr [(0, topic, new_message_id topic uuid, False)])"
    using enqueue_shards_fresh [where item = ?item and clock = "\<lambda>_. now", of tj a r ch db "[0..<MESSAGE_SHARDS]"]
      assms topic_shard_less [of topic] by simp
  then show ?thesis using assms(2) by (auto simp: db_enqueue_def enqueue_batch_def result_at_def)
qed

lemma db_enqueue_dup:
  assumes "tj attributes = Some a" "key \<noteq> []" "find (\<lambda>r. m_key r = Some key) (shard_rows db (topic_shard topic)) = Some r"
  shows "\<exists>st. db_enqueue ch tj no_faults now ts uuid (Some key) topic payload attributes db =
    (db\<lparr>db_stats := st\<rparr>, Inr (m_id r, True))"
proof -
  let ?item = "\<lparr>ei_id = new_message_id topic uuid, ei_key = Some key, ei_topic = topic, ei_payload = payload,
    ei_attributes = attributes\<rparr>"
  have "enqueue_shards ch tj no_faults (\<lambda>_. now) 0 [(0, ?item)] [0..<MESSAGE_SHARDS] db [] =
      (db, Inr [(0, topic, m_id r, True)])"
    using enqueue_shards_dup [where item = ?item and clock = "\<lambda>_. now", of tj a key db r "[0..<MESSAGE_SHARDS]"]
      assms topic_shard_less [of topic] by simp
  then show ?thesis using assms(2) by (auto simp: db_enqueue_def enqueue_batch_def result_at_def)
qed

lemma find_key_appended:
  assumes "\<not> msg_conflict r rows" "m_key r = Some key"
  shows "find (\<lambda>x. m_key x = Some key) (rows @ [r]) = Some r"
  using assms by (induction rows) (auto simp: msg_conflict_def)

subsection \<open>Properties\<close>

text \<open>C11. Settling a claim takes its exact lease: if no processing row has this id with this lease,
  then acknowledging, rejecting, releasing, renewing and dropping all leave the database as it
  is and never report success, whatever statements fail.\<close>

theorem settle_needs_lease:
  assumes "db_ok db" "unleased mid lease db"
  shows "fst (delivered ch flt now ts mid lease db) = db \<and> snd (delivered ch flt now ts mid lease db) \<noteq> Inr True \<and>
    fst (failed ch flt now tb tt mid lease error mx db) = db \<and>
    snd (failed ch flt now tb tt mid lease error mx db) \<noteq> Returned (Inr True) \<and>
    fst (release ch flt now mid lease db) = db \<and> snd (release ch flt now mid lease db) \<noteq> Inr True \<and>
    fst (renew_claim ch flt now mid lease vis db) = db \<and>
    snd (renew_claim ch flt now mid lease vis db) \<noteq> Returned (Inr True) \<and>
    fst (drop_claimed ch flt now mid lease error db) = db \<and> snd (drop_claimed ch flt now mid lease error db) \<noteq> Inr True"
  using settle_unleased [OF assms] delivered_unleased [OF assms] by simp

theorem settle_needs_lease_witness:
  "let db = db_with (claim_update ''l'' ''t'' (sample_row 1)); mid = new_message_id ''jobs'' ''u''
   in fst (delivered plain_chrono no_faults 3 3 mid ''stale'' db) = db \<and>
      snd (delivered plain_chrono no_faults 3 3 mid ''stale'' db) \<noteq> Inr True"
proof -
  have "unleased (new_message_id ''jobs'' ''u'') ''stale'' (db_with (claim_update ''l'' ''t'' (sample_row 1)))"
    by (rule unleased_db_with) (simp add: leased_def)
  with settle_needs_lease [of "db_with (claim_update ''l'' ''t'' (sample_row 1))" "new_message_id ''jobs'' ''u''"
      "''stale''" plain_chrono no_faults 3 3]
  show ?thesis by (simp add: Let_def)
qed

text \<open>C12. An acknowledgement settles once: presenting the lease of a processing message succeeds and
  marks exactly that row delivered; afterwards no acknowledgement, rejection, release or renewal
  of the message succeeds any more, with any lease.\<close>

theorem ack_settles_once:
  assumes "db_ok db" "message_id_shard (m_id r) = Some i" "r \<in> set (shard_rows db i)" "leased (m_id r) lease r"
  shows "\<exists>db'. delivered ch no_faults now ts (m_id r) lease db = (db', Inr True) \<and>
    shard_rows db' i = map (\<lambda>x. if x = r then r\<lparr>m_status := Delivered, m_delivered := Some (to_rfc3339 ch now),
      m_error := None, m_lease := None\<rparr> else x) (shard_rows db i) \<and>
    (\<forall>j. j \<noteq> i \<longrightarrow> shard_rows db' j = shard_rows db j) \<and>
    (\<forall>lease' flt now' ts' tb tt vis error mx.
      snd (delivered ch flt now' ts' (m_id r) lease' db') \<noteq> Inr True \<and>
      snd (failed ch flt now' tb tt (m_id r) lease' error mx db') \<noteq> Returned (Inr True) \<and>
      snd (release ch flt now' (m_id r) lease' db') \<noteq> Inr True \<and>
      snd (renew_claim ch flt now' (m_id r) lease' vis db') \<noteq> Returned (Inr True))"
proof -
  have i: "i < MESSAGE_SHARDS" using message_id_shard_less [OF assms(2)] .
  then have len: "i < length (db_shards db)" using assms(1) by (simp add: db_ok_def)
  define rows where "rows = snd (sql_update (leased (m_id r) lease) (delivered_update (to_rfc3339 ch now)) (shard_rows db i))"
  obtain st where d: "delivered ch no_faults now ts (m_id r) lease db = ((set_shard i rows db)\<lparr>db_stats := st\<rparr>, Inr True)"
    using delivered_eq [OF assms(2), of ch now ts lease db]
      find_leased [OF db_ok_unique [OF assms(1) i] assms(3,4)] by (auto simp: rows_def)
  have iff: "leased (m_id r) lease x \<longleftrightarrow> x = r" if "x \<in> set (shard_rows db i)" for x
    using that assms(3,4) db_ok_unique [OF assms(1) i] by (auto simp: leased_def unique_key_def distinct_map dest: inj_onD)
  have rows: "rows = map (\<lambda>x. if x = r then delivered_update (to_rfc3339 ch now) r else x) (shard_rows db i)"
    unfolding rows_def sql_update_def snd_conv by (rule map_cong) (auto simp: iff)
  have un: "unleased (m_id r) lease' ((set_shard i rows db)\<lparr>db_stats := st\<rparr>)" for lease'
    unfolding rows_def by (rule unleased_after [OF assms(1,2) _ _ assms(3,4)]) (simp_all add: delivered_update_def)
  have ok: "db_ok ((set_shard i rows db)\<lparr>db_stats := st\<rparr>)"
    unfolding rows_def using assms(1) i by (simp add: db_ok_set_shard db_okD delivered_m.shard_ok_update)
  show ?thesis
    using d rows len settle_unleased [OF ok un] delivered_unleased [OF ok un]
    by (auto simp: set_shard_def delivered_update_def cong: map_cong)
qed

theorem ack_settles_once_witness:
  "snd (delivered plain_chrono no_faults 3 3 (new_message_id ''jobs'' ''u'') ''l''
     (db_with (claim_update ''l'' ''t'' (sample_row 1)))) = Inr True"
  using ack_settles_once [of "db_with (claim_update ''l'' ''t'' (sample_row 1))" "claim_update ''l'' ''t'' (sample_row 1)"
      "topic_shard ''jobs''" "''l''" plain_chrono 3 3]
  by (auto simp: leased_def)

text \<open>C18. A rejected delivery is retried with a bounded exponential delay: presenting the lease
  succeeds, the row gives up its lease and becomes failed when the attempts have reached the
  maximum and pending otherwise, and its next attempt is due two to the power of its attempts
  seconds later, at most 256; no other row changes.\<close>

theorem failed_schedules_retry:
  assumes "db_ok db" "message_id_shard (m_id r) = Some i" "r \<in> set (shard_rows db i)" "leased (m_id r) lease r"
    and "chrono_ok ch" "add_secs ch now (2 ^ nat (min (m_attempts r) 8)) = Some nxt"
  shows "nxt = now + 2 ^ nat (min (m_attempts r) 8) * sec \<and> nxt \<le> now + 256 * sec \<and>
    (\<exists>db'. failed ch no_faults now tb tt (m_id r) lease error mx db = (db', Returned (Inr True)) \<and>
      shard_rows db' i = map (\<lambda>x. if x = r then r\<lparr>m_status := (if m_attempts r < mx then Pending else Failed),
        m_next := to_rfc3339 ch nxt, m_error := Some error, m_lease := None\<rparr> else x) (shard_rows db i) \<and>
      (\<forall>j. j \<noteq> i \<longrightarrow> shard_rows db' j = shard_rows db j))"
proof -
  have i: "i < MESSAGE_SHARDS" using message_id_shard_less [OF assms(2)] .
  then have len: "i < length (db_shards db)" using assms(1) by (simp add: db_ok_def)
  have at: "0 \<le> m_attempts r" using db_okD [OF assms(1) i] assms(3) by (auto simp: shard_ok_def msg_ok_def)
  have nxt: "nxt = now + backoff_secs (m_attempts r) * sec"
    using chrono_okD(1) [OF assms(5,6)] by (simp add: backoff_eq at)
  have iff: "leased (m_id r) lease x \<longleftrightarrow> x = r" if "x \<in> set (shard_rows db i)" for x
    using that assms(3,4) db_ok_unique [OF assms(1) i] by (auto simp: leased_def unique_key_def distinct_map dest: inj_onD)
  have upd: "snd (sql_update (leased (m_id r) lease) f (shard_rows db i)) =
      map (\<lambda>x. if x = r then f r else x) (shard_rows db i)" for f
    unfolding sql_update_def snd_conv by (rule map_cong) (auto simp: iff)
  obtain st where "failed ch no_faults now tb tt (m_id r) lease error mx db =
    ((set_shard i (map (\<lambda>x. if x = r then failed_update (if mx \<le> m_attempts r then Failed else Pending)
        (to_rfc3339 ch nxt) error r else x) (shard_rows db i)) db)\<lparr>db_stats := st\<rparr>, Returned (Inr True))"
    using failed_eq [OF assms(1-4), of ch now nxt tb tt error mx] assms(6) at unfolding upd by (auto simp: backoff_eq)
  moreover have "nxt \<le> now + 256 * sec" using nxt backoff_le [OF at] by simp
  ultimately show ?thesis
    using nxt len at by (auto simp: set_shard_def failed_update_def backoff_eq cong: map_cong)
qed

theorem failed_schedules_retry_witness:
  "\<exists>db'. failed plain_chrono no_faults 3 3 3 (new_message_id ''jobs'' ''u'') ''l'' ''boom'' 5
       (db_with (claim_update ''l'' ''t'' (sample_row 1))) = (db', Returned (Inr True)) \<and>
     map m_next (shard_rows db' (topic_shard ''jobs'')) = [to_rfc3339 plain_chrono (3 + 2 * sec)]"
  using failed_schedules_retry [of "db_with (claim_update ''l'' ''t'' (sample_row 1))"
      "claim_update ''l'' ''t'' (sample_row 1)" "topic_shard ''jobs''" "''l''" plain_chrono 3 "3 + 2 * sec" 3 3 "''boom''" 5]
  by (auto simp: leased_def)

text \<open>C15. Publishing is idempotent: without failures, a publication with a key that the shard of the
  topic does not hold stores one new pending message and returns its id; every later publication
  of the topic with the same key, whatever its payload, returns that id as a duplicate and
  stores nothing.\<close>

theorem enqueue_idempotent:
  assumes "key \<noteq> []" "tj attributes = Some a" "tj attributes2 = Some a2"
    and "\<forall>x \<in> set (shard_rows db (topic_shard topic)). m_key x \<noteq> Some key \<and> m_id x \<noteq> new_message_id topic uuid"
    and "topic_shard topic < length (db_shards db)"
  shows "\<exists>db1 r. db_enqueue ch tj no_faults now ts uuid (Some key) topic payload attributes db =
      (db1, Inr (new_message_id topic uuid, False)) \<and>
    shard_rows db1 (topic_shard topic) = shard_rows db (topic_shard topic) @ [r] \<and>
    m_id r = new_message_id topic uuid \<and> m_topic r = topic \<and> m_payload r = payload \<and> m_status r = Pending \<and>
    (\<exists>db2. db_enqueue ch tj no_faults now2 ts2 uuid2 (Some key) topic payload2 attributes2 db1 =
      (db2, Inr (new_message_id topic uuid, True)) \<and> db_shards db2 = db_shards db1)"
proof -
  define r where "r = new_msg \<lparr>ei_id = new_message_id topic uuid, ei_key = Some key,
      ei_topic = topic, ei_payload = payload, ei_attributes = attributes\<rparr> a (to_rfc3339 ch now)"
  have r: "m_id r = new_message_id topic uuid" "m_topic r = topic" "m_payload r = payload" "m_status r = Pending"
    "m_key r = Some key" by (simp_all add: r_def new_msg_def)
  have nc: "\<not> msg_conflict r (shard_rows db (topic_shard topic))" using assms(4) r by (auto simp: msg_conflict_def)
  obtain st where 1: "db_enqueue ch tj no_faults now ts uuid (Some key) topic payload attributes db =
    ((set_shard (topic_shard topic) (shard_rows db (topic_shard topic) @ [r]) db)\<lparr>db_stats := st\<rparr>,
     Inr (new_message_id topic uuid, False))"
    using db_enqueue_fresh [where tj = tj, OF assms(2,1) r_def nc] by blast
  define db1 where "db1 = (set_shard (topic_shard topic) (shard_rows db (topic_shard topic) @ [r]) db)\<lparr>db_stats := st\<rparr>"
  have rows: "shard_rows db1 (topic_shard topic) = shard_rows db (topic_shard topic) @ [r]"
    using assms(5) by (simp add: db1_def set_shard_def)
  have "\<exists>st2. db_enqueue ch tj no_faults now2 ts2 uuid2 (Some key) topic payload2 attributes2 db1 =
      (db1\<lparr>db_stats := st2\<rparr>, Inr (m_id r, True))"
    by (rule db_enqueue_dup [where tj = tj, OF assms(3,1)]) (simp add: rows find_key_appended [OF nc r(5)])
  then show ?thesis using 1 rows r unfolding db1_def [symmetric] by (intro exI [of _ db1] exI [of _ r]) auto
qed

theorem enqueue_idempotent_witness:
  "\<exists>db1 db2. db_enqueue plain_chrono (\<lambda>_. Some ''{}'') no_faults 1 1 ''u'' (Some ''k'') ''a'' [1] [] empty_db =
      (db1, Inr (new_message_id ''a'' ''u'', False)) \<and>
    db_enqueue plain_chrono (\<lambda>_. Some ''{}'') no_faults 2 2 ''v'' (Some ''k'') ''a'' [2] [] db1 =
      (db2, Inr (new_message_id ''a'' ''u'', True))"
  using enqueue_idempotent [of "''k''" "\<lambda>_. Some ''{}''" "[]" "''{}''" "[]" "''{}''" empty_db "''a''" "''u''"
      plain_chrono 1 1 "[1]" 2 2 "''v''" "[2]"] topic_shard_less [of "''a''"]
  by (fastforce simp: empty_db_def)

end
