(* ===== verification/Subscribers.thy ===== *)
theory Subscribers
  imports Topic Sql
begin

text \<open>
  Live subscriptions and pending acknowledgements (\<open>src/src/subscribers.rs\<close>). The registry maps
  a filter to the sessions subscribed with it; both maps are hash maps, so the order of their
  entries stands for the unspecified iteration order. The sending half of a channel is an
  arbitrary value \<open>'tx\<close>. The mutexes serialise the operations: each is one step on the map.
\<close>

subsection \<open>The registry of live subscriptions\<close>

record session_info =
  si_id :: string
  si_topic :: string
  si_peer :: string
  si_connected_at :: string
  si_protocol :: string
  si_version :: string
  si_host :: string

record 'tx live_entry =
  le_info :: session_info
  le_tx :: 'tx

type_synonym 'tx sessions_map = "(string, 'tx live_entry) hmap"
type_synonym 'tx topic_subscribers = "(string, 'tx sessions_map) hmap"

text \<open>\<open>entry(topic).or_default()\<close>.\<close>

definition sessions_of :: "'tx topic_subscribers \<Rightarrow> string \<Rightarrow> 'tx sessions_map" where
  "sessions_of subs topic = (case hget subs topic of None \<Rightarrow> [] | Some s \<Rightarrow> s)"

definition sub_add ::
  "chrono \<Rightarrow> int \<Rightarrow> string \<Rightarrow> string \<Rightarrow> 'tx \<Rightarrow> string \<Rightarrow> string \<Rightarrow> string \<Rightarrow> string
   \<Rightarrow> 'tx topic_subscribers \<Rightarrow> 'tx topic_subscribers" where
  "sub_add ch now topic session tx peer protocol version host subs =
     hput topic
       (hput session
          \<lparr>le_info = \<lparr>si_id = session, si_topic = topic, si_peer = peer, si_connected_at = to_rfc3339 ch now,
             si_protocol = protocol, si_version = version, si_host = host\<rparr>, le_tx = tx\<rparr>
          (sessions_of subs topic)) subs"

definition sub_remove :: "string \<Rightarrow> string \<Rightarrow> 'tx topic_subscribers \<Rightarrow> 'tx topic_subscribers" where
  "sub_remove topic session subs =
     (case hget subs topic of
        None \<Rightarrow> subs
      | Some sessions \<Rightarrow>
          let sessions = hdel session sessions in
          if sessions = [] then hdel topic (hput topic sessions subs) else hput topic sessions subs)"

definition covers :: "string \<Rightarrow> 'tx topic_subscribers \<Rightarrow> bool" where
  "covers published_topic subs =
     list_ex (\<lambda>(flter, sessions). sessions \<noteq> [] \<and> filter_matches flter published_topic) subs"

definition is_live :: "string \<Rightarrow> string \<Rightarrow> 'tx topic_subscribers \<Rightarrow> bool" where
  "is_live topic consumer_id subs =
     (case hget subs topic of None \<Rightarrow> False | Some sessions \<Rightarrow> hget sessions consumer_id \<noteq> None)"

definition sub_topics :: "'tx topic_subscribers \<Rightarrow> string list" where
  "sub_topics subs = map fst subs"

definition sub_sessions :: "'tx topic_subscribers \<Rightarrow> session_info list" where
  "sub_sessions subs =
     sort_key (\<lambda>s. (si_topic s, si_id s)) (concat (map (\<lambda>(_, sessions). map (\<lambda>(_, e). le_info e) sessions) subs))"

text \<open>\<open>entry(id).or_insert_with(tx)\<close>.\<close>

definition first_sender :: "string \<times> 'tx live_entry \<Rightarrow> (string, 'tx) hmap \<Rightarrow> (string, 'tx) hmap" where
  "first_sender = (\<lambda>(sid, entry) seen. if hget seen sid = None then hput sid (le_tx entry) seen else seen)"

definition matching_senders :: "string \<Rightarrow> 'tx topic_subscribers \<Rightarrow> (string \<times> 'tx) list" where
  "matching_senders published_topic subs =
     fold (\<lambda>(flter, sessions) seen.
             if filter_matches flter published_topic then fold first_sender sessions seen else seen) subs []"

definition matching_count :: "string \<Rightarrow> 'tx topic_subscribers \<Rightarrow> nat" where
  "matching_count published_topic subs = length (matching_senders published_topic subs)"

text \<open>A guard adds its session when it is made and removes it, by the names, when it is dropped.\<close>

record guard =
  g_topic :: string
  g_session :: string

definition guard_new ::
  "chrono \<Rightarrow> int \<Rightarrow> string \<Rightarrow> string \<Rightarrow> 'tx \<Rightarrow> string \<Rightarrow> string \<Rightarrow> string \<Rightarrow> string
   \<Rightarrow> 'tx topic_subscribers \<Rightarrow> 'tx topic_subscribers \<times> guard" where
  "guard_new ch now topic session tx peer protocol version host subs =
     (sub_add ch now topic session tx peer protocol version host subs, \<lparr>g_topic = topic, g_session = session\<rparr>)"

definition guard_drop :: "guard \<Rightarrow> 'tx topic_subscribers \<Rightarrow> 'tx topic_subscribers" where
  "guard_drop g subs = sub_remove (g_topic g) (g_session g) subs"

subsection \<open>Pending acknowledgements\<close>

record ack_decision =
  ad_success :: bool
  ad_error :: string

record 'tx pending_ack =
  pa_message_id :: string
  pa_tx :: 'tx

type_synonym 'tx inflight_acks = "(string, 'tx pending_ack) hmap"

text \<open>\<open>tx\<close> is the sending half of the fresh one-shot channel.\<close>

definition ack_register :: "string \<Rightarrow> string \<Rightarrow> 'tx \<Rightarrow> 'tx inflight_acks \<Rightarrow> 'tx inflight_acks" where
  "ack_register message_id lease tx inflight = hput lease \<lparr>pa_message_id = message_id, pa_tx = tx\<rparr> inflight"

text \<open>
  \<open>waiting tx\<close> says whether the receiving half still exists, so that the send succeeds. The
  result is the map, the decision sent and its channel, and the returned flag.
\<close>

definition ack_complete ::
  "('tx \<Rightarrow> bool) \<Rightarrow> string \<Rightarrow> string \<Rightarrow> bool \<Rightarrow> string \<Rightarrow> 'tx inflight_acks
   \<Rightarrow> 'tx inflight_acks \<times> ('tx \<times> ack_decision) option \<times> bool" where
  "ack_complete waiting message_id lease success error inflight =
     (case hget inflight lease of
        None \<Rightarrow> (inflight, None, False)
      | Some pending \<Rightarrow>
          if pa_message_id pending = message_id
          then (hdel lease inflight, Some (pa_tx pending, \<lparr>ad_success = success, ad_error = error\<rparr>),
                waiting (pa_tx pending))
          else (inflight, None, False))"

definition ack_cancel :: "string \<Rightarrow> 'tx inflight_acks \<Rightarrow> 'tx inflight_acks" where
  "ack_cancel lease inflight = hdel lease inflight"

subsection \<open>Invariant\<close>

definition subs_ok :: "'tx topic_subscribers \<Rightarrow> bool" where
  "subs_ok subs \<longleftrightarrow> hmap_ok subs \<and>
     list_all (\<lambda>(topic, sessions). hmap_ok sessions \<and> sessions \<noteq> [] \<and>
       list_all (\<lambda>(sid, e). si_topic (le_info e) = topic \<and> si_id (le_info e) = sid) sessions) subs"

definition sessions_ok :: "string \<Rightarrow> 'tx sessions_map \<Rightarrow> bool" where
  "sessions_ok topic sessions \<longleftrightarrow> hmap_ok sessions \<and>
     (\<forall>(sid, e) \<in> set sessions. si_topic (le_info e) = topic \<and> si_id (le_info e) = sid)"

lemma subs_ok_iff: "subs_ok subs \<longleftrightarrow> hmap_ok subs \<and> (\<forall>(t, s) \<in> set subs. sessions_ok t s \<and> s \<noteq> [])"
  by (fastforce simp: subs_ok_def sessions_ok_def list_all_iff)

lemma set_hput_sub: "set (hput k v m) \<subseteq> insert (k, v) (set m)"
  by (induction m) auto

lemma set_hdel_sub: "set (hdel k m) \<subseteq> set m"
  by (simp add: AList.delete_eq)

lemma hput_not_Nil [simp]: "hput k v m \<noteq> []"
  by (cases m) auto

lemma sessions_ok_put:
  "sessions_ok t s \<Longrightarrow> si_topic (le_info e) = t \<Longrightarrow> si_id (le_info e) = sid \<Longrightarrow> sessions_ok t (hput sid e s)"
  using set_hput_sub [of sid e s] by (fastforce simp: sessions_ok_def)

lemma sessions_ok_del: "sessions_ok t s \<Longrightarrow> sessions_ok t (hdel sid s)"
  using set_hdel_sub [of sid s] by (auto simp: sessions_ok_def)

lemma sessions_of_ok: "subs_ok subs \<Longrightarrow> sessions_ok t (sessions_of subs t)"
  by (auto simp: sessions_of_def subs_ok_iff sessions_ok_def split: option.split dest!: map_of_SomeD)

lemma subs_ok_put: "subs_ok subs \<Longrightarrow> sessions_ok t s \<Longrightarrow> s \<noteq> [] \<Longrightarrow> subs_ok (hput t s subs)"
  using set_hput_sub [of t s subs] by (fastforce simp: subs_ok_iff)

lemma subs_ok_del: "subs_ok subs \<Longrightarrow> subs_ok (hdel t subs)"
  using set_hdel_sub [of t subs] by (auto simp: subs_ok_iff)

lemma hdel_hput [simp]: "hdel k (hput k v m) = hdel k m"
  by (induction m) auto

lemma sub_add_ok: "subs_ok subs \<Longrightarrow> subs_ok (sub_add ch now t s tx peer proto v h subs)"
  by (simp add: sub_add_def subs_ok_put sessions_ok_put sessions_of_ok)

lemma sub_remove_ok: "subs_ok subs \<Longrightarrow> subs_ok (sub_remove t s subs)"
  using sessions_of_ok [of subs t]
  by (auto simp: sub_remove_def sessions_of_def Let_def subs_ok_del subs_ok_put sessions_ok_del split: option.split)

subsection \<open>The registry as a set of subscriptions\<close>

text \<open>What the registry promises is a set of pairs of a filter and a session.\<close>

definition live_set :: "'tx topic_subscribers \<Rightarrow> (string \<times> string) set" where
  "live_set subs = {(t, s). is_live t s subs}"

lemma is_live_sessions_of: "is_live t s subs \<longleftrightarrow> hget (sessions_of subs t) s \<noteq> None"
  by (auto simp: is_live_def sessions_of_def split: option.split)

lemma sessions_of_add:
  "sessions_of (sub_add ch now t s tx peer proto v h subs) t' =
     (if t' = t then hput s \<lparr>le_info = \<lparr>si_id = s, si_topic = t, si_peer = peer, si_connected_at = to_rfc3339 ch now,
        si_protocol = proto, si_version = v, si_host = h\<rparr>, le_tx = tx\<rparr> (sessions_of subs t) else sessions_of subs t')"
  by (simp add: sub_add_def sessions_of_def)

lemma sessions_of_remove: "sessions_of (sub_remove t s subs) t' = (if t' = t then hdel s (sessions_of subs t) else sessions_of subs t')"
  by (auto simp: sub_remove_def sessions_of_def Let_def split: option.split)

lemma live_set_add: "live_set (sub_add ch now t s tx peer proto v h subs) = insert (t, s) (live_set subs)"
  by (auto simp: live_set_def is_live_sessions_of sessions_of_add split: if_splits)

lemma live_set_remove: "live_set (sub_remove t s subs) = live_set subs - {(t, s)}"
  by (auto simp: live_set_def is_live_sessions_of sessions_of_remove split: if_splits)

lemma is_live_iff: "is_live t s subs \<longleftrightarrow> (\<exists>m e. hget subs t = Some m \<and> hget m s = Some e)"
  by (auto simp: is_live_def split: option.split)

lemma hget_dom: "(\<exists>v. hget m k = Some v) \<longleftrightarrow> k \<in> fst ` set m"
  using map_of_eq_None_iff [of m k] by (cases "hget m k") auto

lemma hmap_not_Nil: "m \<noteq> [] \<longleftrightarrow> (\<exists>k. hget m k \<noteq> None)"
  by (cases m) auto

lemma covers_iff:
  assumes "subs_ok subs"
  shows "covers t subs \<longleftrightarrow> (\<exists>(f, s) \<in> live_set subs. filter_matches f t)"
proof -
  have "covers t subs \<longleftrightarrow> (\<exists>(f, s) \<in> set subs. s \<noteq> [] \<and> filter_matches f t)"
    by (simp add: covers_def list_ex_iff)
  also have "\<dots> \<longleftrightarrow> (\<exists>f s. hget subs f = Some s \<and> s \<noteq> [] \<and> filter_matches f t)"
    using assms by (auto simp: subs_ok_iff hget_iff_mem)
  also have "\<dots> \<longleftrightarrow> (\<exists>f sid. is_live f sid subs \<and> filter_matches f t)"
    unfolding hmap_not_Nil is_live_iff by auto
  finally show ?thesis by (simp add: live_set_def)
qed

lemma first_senders:
  "hmap_ok seen \<Longrightarrow> hmap_ok (fold first_sender sessions seen) \<and>
   fst ` set (fold first_sender sessions seen) = fst ` set seen \<union> fst ` set sessions \<and>
   set (fold first_sender sessions seen) \<subseteq> set seen \<union> (\<lambda>(sid, e). (sid, le_tx e)) ` set sessions"
proof (induction sessions arbitrary: seen)
  case (Cons p sessions)
  obtain sid e where p: "p = (sid, e)" by (cases p)
  have ok: "hmap_ok (first_sender p seen)" using Cons.prems by (simp add: first_sender_def p)
  have keys: "fst ` set (first_sender p seen) = insert sid (fst ` set seen)"
    by (auto simp: first_sender_def p update_conv' dom_map_of_conv_image_fst [symmetric])
  have sub: "set (first_sender p seen) \<subseteq> insert (sid, le_tx e) (set seen)"
    using set_hput_sub [of sid "le_tx e" seen] by (auto simp: first_sender_def p)
  from Cons.IH [OF ok] keys sub show ?case by (auto simp: p)
qed simp

lemma matching_senders_fold:
  "fold (\<lambda>(f, sessions) seen. if filter_matches f t then fold first_sender sessions seen else seen) subs seen =
   fold first_sender (concat (map snd (filter (\<lambda>(f, _). filter_matches f t) subs))) seen"
  by (induction subs arbitrary: seen) auto

lemma matching_senders_props:
  assumes "subs_ok subs"
  shows "distinct (map fst (matching_senders t subs))"
    "fst ` set (matching_senders t subs) = {s. \<exists>f. (f, s) \<in> live_set subs \<and> filter_matches f t}"
    "(sid, tx) \<in> set (matching_senders t subs) \<Longrightarrow>
       \<exists>f e. filter_matches f t \<and> hget (sessions_of subs f) sid = Some e \<and> le_tx e = tx"
proof -
  have live: "(f, s) \<in> live_set subs \<longleftrightarrow> (\<exists>sessions. (f, sessions) \<in> set subs \<and> s \<in> fst ` set sessions)" for f s
    using assms unfolding live_set_def is_live_iff hget_dom [symmetric] by (simp add: subs_ok_iff hget_iff_mem)
  note m = first_senders [of "[]" "concat (map snd (filter (\<lambda>(f, _). filter_matches f t) subs))",
      folded matching_senders_fold, folded matching_senders_def, simplified]
  show "distinct (map fst (matching_senders t subs))" using m by (simp add: hmap_ok_def)
  show "fst ` set (matching_senders t subs) = {s. \<exists>f. (f, s) \<in> live_set subs \<and> filter_matches f t}"
    using m unfolding live by force
  show "\<exists>f e. filter_matches f t \<and> hget (sessions_of subs f) sid = Some e \<and> le_tx e = tx"
    if "(sid, tx) \<in> set (matching_senders t subs)"
  proof -
    from m that obtain f sessions e where *: "(f, sessions) \<in> set subs" "filter_matches f t" "(sid, e) \<in> set sessions" "le_tx e = tx"
      by fastforce
    have "hget subs f = Some sessions" "hmap_ok sessions"
      using assms *(1) by (auto simp: subs_ok_iff hget_iff_mem sessions_ok_def)
    then have "hget (sessions_of subs f) sid = Some e" using *(3) by (simp add: sessions_of_def hget_iff_mem)
    with * show ?thesis by blast
  qed
qed

datatype 'tx sub_op =
    SubAdd int string string 'tx string string string string
  | SubRemove string string

fun sub_apply :: "chrono \<Rightarrow> 'tx sub_op \<Rightarrow> 'tx topic_subscribers \<Rightarrow> 'tx topic_subscribers" where
  "sub_apply ch (SubAdd now t s tx peer proto v h) subs = sub_add ch now t s tx peer proto v h subs"
| "sub_apply ch (SubRemove t s) subs = sub_remove t s subs"

fun set_apply :: "'tx sub_op \<Rightarrow> (string \<times> string) set \<Rightarrow> (string \<times> string) set" where
  "set_apply (SubAdd now t s tx peer proto v h) S = insert (t, s) S"
| "set_apply (SubRemove t s) S = S - {(t, s)}"

lemma sub_run:
  "subs_ok subs \<Longrightarrow> subs_ok (fold (sub_apply ch) ops subs) \<and>
   live_set (fold (sub_apply ch) ops subs) = fold set_apply ops (live_set subs)"
proof (induction ops arbitrary: subs)
  case (Cons op ops)
  have "subs_ok (sub_apply ch op subs)" "live_set (sub_apply ch op subs) = set_apply op (live_set subs)"
    using Cons.prems by (cases op; simp add: sub_add_ok sub_remove_ok live_set_add live_set_remove)+
  with Cons.IH show ?case by simp
qed simp

lemma subs_ok_Nil [simp]: "subs_ok []" and live_set_Nil [simp]: "live_set [] = {}"
  by (auto simp: subs_ok_def live_set_def is_live_def)

text \<open>
  A dropped guard removes whatever session has its names. When a session subscribes to a filter
  again before the first guard is dropped, the drop takes the new subscription with it.
\<close>

lemma guard_drop_evicts_newer:
  "\<not> is_live t s (guard_drop (snd (guard_new ch now1 t s tx1 p1 pr1 v1 h1 subs))
     (fst (guard_new ch now2 t s tx2 p2 pr2 v2 h2 (fst (guard_new ch now1 t s tx1 p1 pr1 v1 h1 subs)))))"
  using live_set_remove [of t s] by (auto simp: guard_drop_def guard_new_def live_set_def)

subsection \<open>Runs of the pending acknowledgements\<close>

datatype 'tx ack_op =
    AckRegister string string 'tx
  | AckComplete string string bool string
  | AckCancel string

text \<open>A run yields the decisions sent, in order, each with its channel.\<close>

fun ack_run :: "('tx \<Rightarrow> bool) \<Rightarrow> 'tx ack_op list \<Rightarrow> 'tx inflight_acks \<Rightarrow> ('tx \<times> ack_decision) list" where
  "ack_run waiting [] m = []"
| "ack_run waiting (AckRegister mid lease tx # ops) m = ack_run waiting ops (ack_register mid lease tx m)"
| "ack_run waiting (AckComplete mid lease ok err # ops) m =
     (let (m, sent, _) = ack_complete waiting mid lease ok err m
      in (case sent of None \<Rightarrow> [] | Some d \<Rightarrow> [d]) @ ack_run waiting ops m)"
| "ack_run waiting (AckCancel lease # ops) m = ack_run waiting ops (ack_cancel lease m)"

fun registered :: "'tx ack_op list \<Rightarrow> 'tx list" where
  "registered [] = []"
| "registered (AckRegister mid lease tx # ops) = tx # registered ops"
| "registered (_ # ops) = registered ops"

fun channels :: "'tx inflight_acks \<Rightarrow> 'tx list" where
  "channels [] = []"
| "channels ((_, p) # m) = pa_tx p # channels m"

lemma channels_put: "set (channels (hput k v m)) \<subseteq> insert (pa_tx v) (set (channels m))"
  by (induction m rule: channels.induct) auto

lemma distinct_channels_put:
  "distinct (channels m) \<Longrightarrow> pa_tx v \<notin> set (channels m) \<Longrightarrow> distinct (channels (hput k v m))"
proof (induction m rule: channels.induct)
  case (2 k' p m)
  have "pa_tx p \<notin> set (channels (hput k v m))" using channels_put [of k v m] 2(2,3) by auto
  with 2 show ?case by simp
qed simp

lemma channels_del: "set (channels (hdel k m)) \<subseteq> set (channels m)"
  by (induction m rule: channels.induct) auto

lemma distinct_channels_del: "distinct (channels m) \<Longrightarrow> distinct (channels (hdel k m))"
proof (induction m rule: channels.induct)
  case (2 k' p m)
  then show ?case using channels_del [of k m] by auto
qed simp

lemma channel_of_lease:
  "distinct (channels m) \<Longrightarrow> hget m k = Some v \<Longrightarrow> pa_tx v \<in> set (channels m) \<and> pa_tx v \<notin> set (channels (hdel k m))"
proof (induction m rule: channels.induct)
  case (2 k' p m)
  show ?case
  proof (cases "k' = k")
    case True
    with 2 show ?thesis using channels_del [of k m] by auto
  next
    case False
    with 2 have "pa_tx v \<in> set (channels m) \<and> pa_tx v \<notin> set (channels (hdel k m))" by simp
    with False 2(2) show ?thesis by auto
  qed
qed simp

lemma ack_run_distinct:
  "distinct (channels m) \<Longrightarrow> distinct (registered ops) \<Longrightarrow> set (channels m) \<inter> set (registered ops) = {} \<Longrightarrow>
   distinct (map fst (ack_run waiting ops m)) \<and>
   fst ` set (ack_run waiting ops m) \<subseteq> set (channels m) \<union> set (registered ops)"
proof (induction ops arbitrary: m)
  case (Cons op ops)
  show ?case
  proof (cases op)
    case (AckRegister mid lease tx)
    have sub: "set (channels (ack_register mid lease tx m)) \<subseteq> insert tx (set (channels m))"
      using channels_put [of lease "\<lparr>pa_message_id = mid, pa_tx = tx\<rparr>" m] by (simp add: ack_register_def)
    have "distinct (channels (ack_register mid lease tx m))"
      using Cons.prems AckRegister by (simp add: ack_register_def distinct_channels_put)
    moreover have "set (channels (ack_register mid lease tx m)) \<inter> set (registered ops) = {}"
      using sub Cons.prems AckRegister by auto
    ultimately have "distinct (map fst (ack_run waiting ops (ack_register mid lease tx m)))"
      "fst ` set (ack_run waiting ops (ack_register mid lease tx m)) \<subseteq>
         set (channels (ack_register mid lease tx m)) \<union> set (registered ops)"
      using Cons.IH [of "ack_register mid lease tx m"] Cons.prems AckRegister by simp_all
    with sub AckRegister show ?thesis by simp blast
  next
    case (AckComplete mid lease ok err)
    have IH: "distinct (map fst (ack_run waiting ops m)) \<and>
        fst ` set (ack_run waiting ops m) \<subseteq> set (channels m) \<union> set (registered ops)"
      using Cons.IH [of m] Cons.prems AckComplete by simp
    show ?thesis
    proof (cases "\<exists>p. hget m lease = Some p \<and> pa_message_id p = mid")
      case True
      then obtain p where p: "hget m lease = Some p" "pa_message_id p = mid" by blast
      note ch = channel_of_lease [OF Cons.prems(1) p(1)]
      have "distinct (map fst (ack_run waiting ops (hdel lease m)))"
        "fst ` set (ack_run waiting ops (hdel lease m)) \<subseteq> set (channels (hdel lease m)) \<union> set (registered ops)"
        using Cons.IH [of "hdel lease m"] Cons.prems AckComplete distinct_channels_del [of m lease] channels_del [of lease m]
        by simp_all blast+
      moreover from this(2) have "pa_tx p \<notin> fst ` set (ack_run waiting ops (hdel lease m))"
        using ch Cons.prems(3) AckComplete by simp blast
      ultimately show ?thesis
        using ch channels_del [of lease m] AckComplete p by (auto simp: ack_complete_def)
    next
      case False
      then have "ack_complete waiting mid lease ok err m = (m, None, False)"
        by (auto simp: ack_complete_def split: option.split)
      with IH AckComplete show ?thesis by simp
    qed
  next
    case (AckCancel lease)
    have "distinct (map fst (ack_run waiting ops (hdel lease m)))"
      "fst ` set (ack_run waiting ops (hdel lease m)) \<subseteq> set (channels (hdel lease m)) \<union> set (registered ops)"
      using Cons.IH [of "hdel lease m"] Cons.prems AckCancel distinct_channels_del [of m lease] channels_del [of lease m]
      by simp_all blast+
    with channels_del [of lease m] AckCancel show ?thesis by (auto simp: ack_cancel_def)
  qed
qed simp

subsection \<open>Properties\<close>





end
