(* ===== verification/Admin.thy ===== *)
theory Admin
  imports Settlement
begin

text \<open>
  The rest of the operations of \<open>src/src/db.rs\<close>: the table of consumers, the status snapshot,
  browsing and clearing of topics, the purge of idle ephemeral topics, the dispatcher's claim and the
  preload of idempotency keys; start-up is in \<open>Startup\<close>. The control database is a record \<open>broker_db\<close> around the queue of \<open>Messages\<close>. Statements are numbered from
  0 within a call; a topic counter flush counts as its own statements.
\<close>

subsection \<open>Consumers\<close>

record consumer_row =
  c_id :: string
  c_topic :: string
  c_name :: string
  c_attributes :: string
  c_last_seen :: string
  c_created :: string

record broker_db =
  bd_queue :: database
  bd_consumers :: "consumer_row list"

definition insert_consumer :: "consumer_row \<Rightarrow> consumer_row list \<Rightarrow> consumer_row list option" where
  "insert_consumer r rows = (if c_id r \<in> c_id ` set rows then None else Some (rows @ [r]))"

definition register_update :: "string \<Rightarrow> string \<Rightarrow> string \<Rightarrow> string \<Rightarrow> consumer_row \<Rightarrow> consumer_row" where
  "register_update topic name attributes now r =
     r\<lparr>c_topic := topic, c_name := name, c_attributes := attributes, c_last_seen := now\<rparr>"

definition register_consumer ::
  "chrono \<Rightarrow> ((string \<times> string) list \<Rightarrow> string option) \<Rightarrow> faults \<Rightarrow> int \<Rightarrow> string \<Rightarrow> string option
   \<Rightarrow> string \<Rightarrow> string \<Rightarrow> (string \<times> string) list \<Rightarrow> consumer_row list \<Rightarrow> consumer_row list \<times> (db_error + string)" where
  "register_consumer ch to_json flt now uuid consumer_id topic name attributes rows =
     (let now = to_rfc3339 ch now in
      case to_json attributes of
        None \<Rightarrow> (rows, Inl DbJson)
      | Some attributes \<Rightarrow>
          (case consumer_id of
             Some (c # cid) \<Rightarrow>
               if flt 0 then (rows, Inl DbSql)
               else let (n, rows) = sql_update (\<lambda>r. c_id r = c # cid) (register_update topic name attributes now) rows
                    in if 0 < n then (rows, Inr (c # cid))
                       else if flt 1 then (rows, Inl DbSql)
                       else (case insert_consumer \<lparr>c_id = c # cid, c_topic = topic, c_name = name,
                                 c_attributes = attributes, c_last_seen = now, c_created = now\<rparr> rows of
                               None \<Rightarrow> (rows, Inl DbSql)
                             | Some rows \<Rightarrow> (rows, Inr (c # cid)))
           | _ \<Rightarrow>
               if flt 0 then (rows, Inl DbSql)
               else (case insert_consumer \<lparr>c_id = uuid, c_topic = topic, c_name = name,
                         c_attributes = attributes, c_last_seen = now, c_created = now\<rparr> rows of
                       None \<Rightarrow> (rows, Inl DbSql)
                     | Some rows \<Rightarrow> (rows, Inr uuid))))"

text \<open>\<open>from_map\<close> is the decoding of a JSON object of strings; a failure gives the empty map.\<close>

definition parse_consumer_attributes ::
  "(string \<Rightarrow> (string, string) hmap option) \<Rightarrow> string \<Rightarrow> (string, string) hmap" where
  "parse_consumer_attributes from_map raw = (case from_map raw of None \<Rightarrow> [] | Some m \<Rightarrow> m)"

definition consumer_attribute ::
  "(string \<Rightarrow> (string, string) hmap option) \<Rightarrow> faults \<Rightarrow> string \<Rightarrow> string \<Rightarrow> consumer_row list
   \<Rightarrow> db_error + string option" where
  "consumer_attribute from_map flt consumer_id key rows =
     (if flt 0 then Inl DbSql
      else case find (\<lambda>r. c_id r = consumer_id) rows of
             None \<Rightarrow> Inr None
           | Some r \<Rightarrow>
               Inr (case hget (parse_consumer_attributes from_map (c_attributes r)) key of
                      None \<Rightarrow> None
                    | Some v \<Rightarrow> if v = [] then None else Some v))"

definition touch_consumer ::
  "chrono \<Rightarrow> faults \<Rightarrow> int \<Rightarrow> string \<Rightarrow> consumer_row list \<Rightarrow> consumer_row list \<times> (db_error + bool)" where
  "touch_consumer ch flt now consumer_id rows =
     (if flt 0 then (rows, Inl DbSql)
      else let (n, rows) = sql_update (\<lambda>r. c_id r = consumer_id) (\<lambda>r. r\<lparr>c_last_seen := to_rfc3339 ch now\<rparr>) rows
           in (rows, Inr (0 < n)))"

definition unregister_consumer ::
  "faults \<Rightarrow> string \<Rightarrow> consumer_row list \<Rightarrow> consumer_row list \<times> (db_error + bool)" where
  "unregister_consumer flt consumer_id rows =
     (if flt 0 then (rows, Inl DbSql)
      else let (n, rows) = sql_delete (\<lambda>r. c_id r = consumer_id) rows in (rows, Inr (0 < n)))"

definition purge_stale_consumers ::
  "faults \<Rightarrow> string \<Rightarrow> consumer_row list \<Rightarrow> consumer_row list \<times> (db_error + nat)" where
  "purge_stale_consumers flt cutoff rows =
     (if flt 0 then (rows, Inl DbSql)
      else let (n, rows) = sql_delete (\<lambda>r. c_last_seen r < cutoff) rows in (rows, Inr n))"

subsection \<open>Queue depths and the status snapshot\<close>

definition active :: "msg_row \<Rightarrow> bool" where
  "active r \<longleftrightarrow> m_status r = Pending \<or> m_status r = Processing"

definition depth_of :: "msg_status \<Rightarrow> string \<Rightarrow> shard \<Rightarrow> int" where
  "depth_of s topic rows = int (length (filter (\<lambda>r. m_topic r = topic \<and> m_status r = s) rows))"

text \<open>\<open>QUEUE_DEPTH_SQL\<close>: one row per topic with an active message.\<close>

definition depth_rows :: "shard \<Rightarrow> (string \<times> int \<times> int) list" where
  "depth_rows rows =
     map (\<lambda>t. (t, depth_of Pending t rows, depth_of Processing t rows)) (remdups (map m_topic (filter active rows)))"

definition add_depth :: "string \<times> int \<times> int \<Rightarrow> (string, int \<times> int) hmap \<Rightarrow> (string, int \<times> int) hmap" where
  "add_depth = (\<lambda>(t, p, q) m. case hget m t of None \<Rightarrow> hput t (p, q) m | Some (a, b) \<Rightarrow> hput t (a + p, b + q) m)"

fun load_queue_depths ::
  "faults \<Rightarrow> nat \<Rightarrow> shard list \<Rightarrow> (string, int \<times> int) hmap \<Rightarrow> db_error + (string, int \<times> int) hmap" where
  "load_queue_depths flt k [] m = Inr m"
| "load_queue_depths flt k (rows # shards) m =
     (if flt k then Inl DbSql else load_queue_depths flt (k + 1) shards (fold add_depth (depth_rows rows) m))"

definition empty_snapshot :: "string \<Rightarrow> topic_snapshot" where
  "empty_snapshot name =
     \<lparr>ts_name = name, ts_accepted = 0, ts_duplicates = 0, ts_pending = 0, ts_processing = 0, ts_delivered = 0,
      ts_failed = 0, ts_streams = 0, ts_delivery = [], ts_persistence = [], ts_dropped = 0, ts_consumers = []\<rparr>"

definition snapshot_at :: "(string, topic_snapshot) hmap \<Rightarrow> string \<Rightarrow> topic_snapshot" where
  "snapshot_at topics name = (case hget topics name of None \<Rightarrow> empty_snapshot name | Some t \<Rightarrow> t)"

definition stats_snapshot :: "topic_row \<Rightarrow> (string, topic_snapshot) hmap \<Rightarrow> (string, topic_snapshot) hmap" where
  "stats_snapshot r topics =
     hput (tr_topic r) ((snapshot_at topics (tr_topic r))
       \<lparr>ts_accepted := tr_accepted r, ts_duplicates := tr_duplicates r, ts_delivered := tr_delivered r,
        ts_failed := tr_failed r, ts_dropped := tr_dropped r, ts_pending := 0, ts_processing := 0,
        ts_delivery := delivery_as_str (delivery_from_stored (tr_delivery r)),
        ts_persistence := persistence_as_str (persistence_from_stored (tr_persistence r))\<rparr>) topics"

definition depth_snapshot :: "string \<times> int \<times> int \<Rightarrow> (string, topic_snapshot) hmap \<Rightarrow> (string, topic_snapshot) hmap" where
  "depth_snapshot = (\<lambda>(name, pending, processing) topics.
     hput name ((snapshot_at topics name)\<lparr>ts_pending := pending, ts_processing := processing\<rparr>) topics)"

definition consumer_entry ::
  "(string \<Rightarrow> (string, string) hmap option) \<Rightarrow> string option \<Rightarrow> consumer_row \<Rightarrow> consumer_snapshot" where
  "consumer_entry from_map seen_after r =
     \<lparr>cs_id = c_id r, cs_name = c_name r, cs_last_seen_at = c_last_seen r,
      cs_live = (case seen_after of None \<Rightarrow> True | Some cutoff \<Rightarrow> cutoff \<le> c_last_seen r),
      cs_attributes = parse_consumer_attributes from_map (c_attributes r)\<rparr>"

definition add_consumer ::
  "(string \<Rightarrow> (string, string) hmap option) \<Rightarrow> string option \<Rightarrow> consumer_row
   \<Rightarrow> (string, topic_snapshot) hmap \<Rightarrow> (string, topic_snapshot) hmap" where
  "add_consumer from_map seen_after r topics =
     (let t = snapshot_at topics (c_topic r)
      in hput (c_topic r) (t\<lparr>ts_consumers := ts_consumers t @ [consumer_entry from_map seen_after r]\<rparr>) topics)"

text \<open>The statements of a counter flush.\<close>

definition flush_statements :: "stats \<Rightarrow> nat" where
  "flush_statements st = (if st_deltas st = [] then 0 else length (st_deltas st) + 2)"

definition status_snapshot ::
  "chrono \<Rightarrow> (string \<Rightarrow> (string, string) hmap option) \<Rightarrow> faults \<Rightarrow> int \<Rightarrow> (string \<times> topic_delta) list
   \<Rightarrow> string option \<Rightarrow> broker_db \<Rightarrow> broker_db \<times> (db_error + topic_snapshot list)" where
  "status_snapshot ch from_map flt now meanwhile seen_after bd =
     (let q = bd_queue bd; k = flush_statements (db_stats q);
          (st, flushed) = flush_topic_stats ch flt 0 now meanwhile (db_stats q);
          bd = bd\<lparr>bd_queue := q\<lparr>db_stats := st\<rparr>\<rparr>
      in case flushed of
           Inl e \<Rightarrow> (bd, Inl DbSql)
         | Inr n \<Rightarrow>
             if flt k then (bd, Inl DbSql)
             else let topics = fold stats_snapshot (st_topics st) [] in
               (case load_queue_depths flt (k + 1) (db_shards q) [] of
                  Inl e \<Rightarrow> (bd, Inl e)
                | Inr depths \<Rightarrow>
                    let topics = fold depth_snapshot depths topics in
                    if flt (k + 1 + length (db_shards q)) then (bd, Inl DbSql)
                    else (bd, Inr (sort_key ts_name
                           (map snd (fold (add_consumer from_map seen_after)
                              (sort_key c_created (bd_consumers bd)) topics))))))"

subsection \<open>Browsing\<close>

record 'j stored_message =
  sm_id :: string
  sm_topic :: string
  sm_payload :: bytes
  sm_attributes :: 'j
  sm_status :: string
  sm_attempts :: int
  sm_created :: string
  sm_delivered :: "string option"
  sm_error :: "string option"

record 'j topic_page =
  tp_offset :: int
  tp_total :: int
  tp_message :: "'j stored_message option"

text \<open>\<open>ORDER BY created_at DESC, id DESC\<close>.\<close>

definition newest_first :: "msg_row list \<Rightarrow> msg_row list" where
  "newest_first rows = rev (sort_key (\<lambda>r. (m_created r, m_id r)) rows)"

fun matched_rows :: "faults \<Rightarrow> nat \<Rightarrow> string \<Rightarrow> shard list \<Rightarrow> db_error + (string \<times> string) list" where
  "matched_rows flt k f [] = Inr []"
| "matched_rows flt k f (rows # shards) =
     (if flt k then Inl DbSql
      else bindE (matched_rows flt (k + 1) f shards) (\<lambda>rest.
        Inr (map (\<lambda>r. (m_created r, m_id r)) (filter (\<lambda>r. filter_matches f (m_topic r)) rows) @ rest)))"

text \<open>The total, the id at the offset, and the number of statements sent.\<close>

definition topic_message_id ::
  "faults \<Rightarrow> nat \<Rightarrow> string \<Rightarrow> int \<Rightarrow> database \<Rightarrow> db_error + int \<times> string option \<times> nat" where
  "topic_message_id flt k f offset db =
     (if \<not> is_wildcard_filter f then
        let rows = filter (\<lambda>r. m_topic r = f) (shard_rows db (topic_shard f)); total = int (length rows) in
        if flt k then Inl DbSql
        else if total = 0 \<or> total \<le> offset then Inr (total, None, k + 1)
        else if flt (k + 1) then Inl DbSql
        else Inr (total, Some (m_id (newest_first rows ! nat offset)), k + 2)
      else bindE (matched_rows flt k f (db_shards db)) (\<lambda>matched.
        let matched = rev (sort matched); total = int (length matched)
        in Inr (total, if nat offset < length matched then Some (snd (matched ! nat offset)) else None,
                k + length (db_shards db))))"

definition to_stored :: "'j \<Rightarrow> (string \<Rightarrow> 'j option) \<Rightarrow> msg_row \<Rightarrow> 'j stored_message" where
  "to_stored empty_object from_json r =
     \<lparr>sm_id = m_id r, sm_topic = m_topic r, sm_payload = m_payload r,
      sm_attributes = (case from_json (m_attributes r) of None \<Rightarrow> empty_object | Some a \<Rightarrow> a),
      sm_status = status_str (m_status r), sm_attempts = m_attempts r, sm_created = m_created r,
      sm_delivered = m_delivered r, sm_error = m_error r\<rparr>"

definition page_at ::
  "'j \<Rightarrow> (string \<Rightarrow> 'j option) \<Rightarrow> faults \<Rightarrow> int \<Rightarrow> int \<times> string option \<times> nat \<Rightarrow> database \<Rightarrow> db_error + 'j topic_page" where
  "page_at empty_object from_json flt offset found db =
     (let (total, mid, k) = found; none = \<lparr>tp_offset = offset, tp_total = total, tp_message = None\<rparr> in
      case mid of
        None \<Rightarrow> Inr none
      | Some mid \<Rightarrow>
          bindE (shard_index_for_id flt k mid db) (\<lambda>(shard, k).
            case shard of
              None \<Rightarrow> Inr none
            | Some i \<Rightarrow>
                if flt k then Inl DbSql
                else Inr (case find (\<lambda>r. m_id r = mid) (shard_rows db i) of
                            None \<Rightarrow> none
                          | Some r \<Rightarrow> none\<lparr>tp_message := Some (to_stored empty_object from_json r)\<rparr>)))"

definition topic_message_page ::
  "'j \<Rightarrow> (string \<Rightarrow> 'j option) \<Rightarrow> faults \<Rightarrow> string \<Rightarrow> int \<Rightarrow> database \<Rightarrow> db_error + 'j topic_page" where
  "topic_message_page empty_object from_json flt f offset db =
     (let offset = max offset 0 in
      bindE (topic_message_id flt 0 f offset db) (\<lambda>(total, mid, k).
        if mid = None \<and> 0 < total \<and> total \<le> offset
        then bindE (topic_message_id flt k f (total - 1) db) (\<lambda>found.
               page_at empty_object from_json flt (total - 1) found db)
        else page_at empty_object from_json flt offset (total, mid, k) db))"

subsection \<open>Clearing a topic\<close>

fun delete_ids :: "faults \<Rightarrow> nat \<Rightarrow> string list \<Rightarrow> shard \<Rightarrow> shard \<times> (db_error + nat \<times> nat)" where
  "delete_ids flt k [] rows = (rows, Inr (0, k))"
| "delete_ids flt k (mid # mids) rows =
     (if flt k then (rows, Inl DbSql)
      else let (n, rows) = sql_delete (\<lambda>r. m_id r = mid) rows;
               (rows, res) = delete_ids flt (k + 1) mids rows
           in (rows, map_sum id (\<lambda>(m, k). (n + m, k)) res))"

fun clear_shards :: "faults \<Rightarrow> nat \<Rightarrow> string \<Rightarrow> shard list \<Rightarrow> shard list \<times> (db_error + nat \<times> nat)" where
  "clear_shards flt k f [] = ([], Inr (0, k))"
| "clear_shards flt k f (rows # shards) =
     (if flt k then (rows # shards, Inl DbSql)
      else case delete_ids flt (k + 1) (map m_id (filter (\<lambda>r. filter_matches f (m_topic r)) rows)) rows of
             (rows, Inl e) \<Rightarrow> (rows # shards, Inl e)
           | (rows, Inr (n, k)) \<Rightarrow>
               let (shards, res) = clear_shards flt k f shards
               in (rows # shards, map_sum id (\<lambda>(m, k). (n + m, k)) res))"

definition clear_topic_messages ::
  "chrono \<Rightarrow> faults \<Rightarrow> int \<Rightarrow> (string \<times> topic_delta) list \<Rightarrow> string \<Rightarrow> database \<Rightarrow> database \<times> (db_error + nat)" where
  "clear_topic_messages ch flt now meanwhile f db =
     (let k = flush_statements (db_stats db); (st, flushed) = flush_topic_stats ch flt 0 now meanwhile (db_stats db);
          db = db\<lparr>db_stats := st\<rparr> in
      case flushed of
        Inl e \<Rightarrow> (db, Inl DbSql)
      | Inr _ \<Rightarrow>
          let (db, deleted) =
                (if \<not> is_wildcard_filter f then
                   if flt k then (db, Inl DbSql)
                   else let (n, rows) = sql_delete (\<lambda>r. m_topic r = f) (shard_rows db (topic_shard f))
                        in (set_shard (topic_shard f) rows db, Inr (n, k + 1))
                 else let (shards, res) = clear_shards flt k f (db_shards db)
                      in (db\<lparr>db_shards := shards\<rparr>, res))
          in case deleted of
               Inl e \<Rightarrow> (db, Inl e)
             | Inr (n, k) \<Rightarrow>
                 let (st, res) = reset_topic_stats flt k f (db_stats db)
                 in (db\<lparr>db_stats := st\<rparr>, sql_err (map_sum id (\<lambda>_. n) res)))"

subsection \<open>Idle ephemeral topics\<close>

definition idle_ephemeral :: "string \<Rightarrow> consumer_row list \<Rightarrow> topic_row \<Rightarrow> bool" where
  "idle_ephemeral cutoff consumers r \<longleftrightarrow>
     tr_persistence r = ''ephemeral'' \<and> \<not> tr_configured r \<and>
     (case tr_last_seen r of None \<Rightarrow> False | Some t \<Rightarrow> t < cutoff) \<and> tr_topic r \<notin> c_topic ` set consumers"

text \<open>The deletions in the shards are committed one by one, those of the control table together.\<close>

fun purge_topics ::
  "faults \<Rightarrow> nat \<Rightarrow> string list \<Rightarrow> database \<Rightarrow> topic_row list \<Rightarrow> database \<times> (db_error + topic_row list \<times> nat \<times> nat)" where
  "purge_topics flt k [] db rows = (db, Inr (rows, 0, k))"
| "purge_topics flt k (topic # topics) db rows =
     (if flt k then (db, Inl DbSql)
      else let db = set_shard (topic_shard topic)
                      (snd (sql_delete (\<lambda>r. m_topic r = topic) (shard_rows db (topic_shard topic)))) db in
        if flt (k + 1) then (db, Inl DbSql)
        else let (n, rows) = sql_delete (\<lambda>r. tr_topic r = topic \<and> tr_persistence r = ''ephemeral'' \<and> \<not> tr_configured r) rows;
                 (db, res) = purge_topics flt (k + 2) topics db rows
             in (db, map_sum id (\<lambda>(rows, m, k). (rows, n + m, k)) res))"

definition purge_idle_ephemeral ::
  "chrono \<Rightarrow> faults \<Rightarrow> int \<Rightarrow> (string \<times> topic_delta) list \<Rightarrow> string \<Rightarrow> string list \<Rightarrow> broker_db
   \<Rightarrow> broker_db \<times> (db_error + nat)" where
  "purge_idle_ephemeral ch flt now meanwhile cutoff keep bd =
     (let q = bd_queue bd; k = flush_statements (db_stats q);
          (st, flushed) = flush_topic_stats ch flt 0 now meanwhile (db_stats q);
          bd = bd\<lparr>bd_queue := q\<lparr>db_stats := st\<rparr>\<rparr> in
      case flushed of
        Inl e \<Rightarrow> (bd, Inl DbSql)
      | Inr _ \<Rightarrow>
          if flt k then (bd, Inl DbSql)
          else let stale = filter (\<lambda>t. t \<notin> set keep)
                             (map tr_topic (filter (idle_ephemeral cutoff (bd_consumers bd)) (st_topics st))) in
            if stale = [] then (bd, Inr 0)
            else if flt (k + 1) then (bd, Inl DbSql)
            else (case purge_topics flt (k + 2) stale (bd_queue bd) (st_topics st) of
                    (q, Inl e) \<Rightarrow> (bd\<lparr>bd_queue := q\<rparr>, Inl e)
                  | (q, Inr (rows, n, k)) \<Rightarrow>
                      if flt k then (bd\<lparr>bd_queue := q\<rparr>, Inl DbSql)
                      else let st = (db_stats q)\<lparr>st_topics := rows, st_config := fold hdel stale (st_config (db_stats q))\<rparr>
                           in (bd\<lparr>bd_queue := q\<lparr>db_stats := st\<rparr>\<rparr>, Inr n)))"

subsection \<open>The claim of the dispatcher\<close>

text \<open>The oldest ready row outside the skipped topics; ties keep the order of the rows.\<close>

definition next_ready :: "string \<Rightarrow> string list \<Rightarrow> shard \<Rightarrow> msg_row option" where
  "next_ready now skip rows =
     (case sort_key m_created (filter (\<lambda>r. ready now r \<and> m_topic r \<notin> set skip) rows) of
        [] \<Rightarrow> None | r # _ \<Rightarrow> Some r)"

definition claim_until :: "chrono \<Rightarrow> int \<Rightarrow> nat \<Rightarrow> int option" where
  "claim_until ch now visibility =
     (case add_std ch now visibility of
        Panic \<Rightarrow> None
      | Returned (Some t) \<Rightarrow> Some t
      | Returned None \<Rightarrow> add_secs ch now 30)"

definition finish_claim ::
  "chrono \<Rightarrow> (string \<Rightarrow> 'j option) \<Rightarrow> faults \<Rightarrow> nat \<Rightarrow> int \<Rightarrow> string \<Rightarrow> nat \<Rightarrow> nat \<Rightarrow> msg_row option \<Rightarrow> database
   \<Rightarrow> database \<times> (db_error + 'j claimed_message option) outcome" where
  "finish_claim ch from_json flt k now lease visibility i row db =
     (case row of
        None \<Rightarrow> (db, Returned (Inr None))
      | Some r \<Rightarrow>
          (case claim_until ch now visibility of
             None \<Rightarrow> (db, Panic)
           | Some visible_again \<Rightarrow>
               if flt k then (db, Returned (Inl DbSql))
               else let (n, rows) = sql_update (\<lambda>x. m_id x = m_id r \<and> m_status x = Pending)
                                      (claim_update lease (to_rfc3339 ch visible_again)) (shard_rows db i);
                        db = set_shard i rows db
                    in if n = 0 then (db, Returned (Inr None))
                       else (case from_json (m_attributes r) of
                               None \<Rightarrow> (db, Returned (Inl DbJson))
                             | Some a \<Rightarrow>
                                 (db, Returned (Inr (Some (to_claimed a lease (r\<lparr>m_attempts := m_attempts r + 1\<rparr>))))))))"

fun claim_excluding ::
  "chrono \<Rightarrow> (string \<Rightarrow> 'j option) \<Rightarrow> faults \<Rightarrow> nat \<Rightarrow> (nat \<Rightarrow> int) \<Rightarrow> (nat \<Rightarrow> string) \<Rightarrow> nat \<Rightarrow> string list
   \<Rightarrow> nat \<Rightarrow> nat list \<Rightarrow> database \<Rightarrow> database \<times> (db_error + 'j claimed_message option) outcome" where
  "claim_excluding ch from_json flt k clock leases visibility skip start [] db = (db, Returned (Inr None))"
| "claim_excluding ch from_json flt k clock leases visibility skip start (offset # offsets) db =
     (let i = (start + offset) mod MESSAGE_SHARDS in
      if flt k then (db, Returned (Inl DbSql))
      else case finish_claim ch from_json flt (k + 1) (clock k) (leases k) visibility i
                  (next_ready (to_rfc3339 ch (clock k)) skip (shard_rows db i)) db of
             (db, Returned (Inr None)) \<Rightarrow>
               claim_excluding ch from_json flt (k + 2) clock leases visibility skip start offsets db
           | (db, r) \<Rightarrow> (db, r))"

definition claim_next_excluding ::
  "chrono \<Rightarrow> (string \<Rightarrow> 'j option) \<Rightarrow> faults \<Rightarrow> (nat \<Rightarrow> int) \<Rightarrow> (nat \<Rightarrow> string) \<Rightarrow> nat \<Rightarrow> string list
   \<Rightarrow> database \<Rightarrow> database \<times> (db_error + 'j claimed_message option) outcome" where
  "claim_next_excluding ch from_json flt clock leases visibility skip db =
     claim_excluding ch from_json flt 0 clock leases visibility skip (db_cursor db mod MESSAGE_SHARDS)
       [0..<MESSAGE_SHARDS] (db\<lparr>db_cursor := (db_cursor db + 1) mod 2 ^ 64\<rparr>)"

subsection \<open>Preloading idempotency keys\<close>

fun recent_keys :: "faults \<Rightarrow> nat \<Rightarrow> nat \<Rightarrow> nat \<Rightarrow> shard list \<Rightarrow> db_error + (nat \<times> string \<times> string) list" where
  "recent_keys flt k limit i [] = Inr []"
| "recent_keys flt k limit i (rows # shards) =
     (if flt k then Inl DbSql
      else let keyed = filter (\<lambda>r. m_key r \<noteq> None \<and> m_key r \<noteq> Some []) rows;
               recent = sort_key m_created (take limit (rev (sort_key m_created keyed)))
           in bindE (recent_keys flt (k + 1) limit (i + 1) shards) (\<lambda>rest.
                Inr (map (\<lambda>r. (i, the (m_key r), m_id r)) recent @ rest)))"

definition recent_idempotency_keys :: "faults \<Rightarrow> nat \<Rightarrow> database \<Rightarrow> db_error + (nat \<times> string \<times> string) list" where
  "recent_idempotency_keys flt limit_per_shard db =
     recent_keys flt 0 (min limit_per_shard (nat i64_max)) 0 (db_shards db)"

subsection \<open>Pages enumerate a topic\<close>

text \<open>What a topic filter selects, over all shards.\<close>

definition matching :: "string \<Rightarrow> database \<Rightarrow> msg_row list" where
  "matching f db = filter (\<lambda>r. filter_matches f (m_topic r)) (concat (db_shards db))"

definition stamped :: "database \<Rightarrow> bool" where
  "stamped db \<longleftrightarrow> (\<forall>r \<in> set (concat (db_shards db)). message_id_shard (m_id r) \<noteq> None)"

lemma filter_concat_one:
  "i < length xss \<Longrightarrow> (\<And>j. j < length xss \<Longrightarrow> j \<noteq> i \<Longrightarrow> filter P (xss ! j) = []) \<Longrightarrow>
   filter P (concat xss) = filter P (xss ! i)"
proof (induction xss arbitrary: i)
  case (Cons xs xss)
  show ?case
  proof (cases i)
    case 0
    have "filter P ys = []" if "ys \<in> set xss" for ys
      using that Cons.prems(2) [of "Suc _"] 0 by (auto simp: in_set_conv_nth [of ys])
    then have "filter P (concat xss) = []" by (auto simp: filter_empty_conv)
    then show ?thesis using 0 by simp
  next
    case (Suc n)
    have "filter P (xss ! j) = []" if "j < length xss" "j \<noteq> n" for j
      using Cons.prems(2) [of "Suc j"] Suc that by simp
    then have "filter P (concat xss) = filter P (xss ! n)" using Cons.prems(1) Suc by (intro Cons.IH) simp_all
    moreover have "filter P xs = []" using Cons.prems(2) [of 0] Suc by simp
    ultimately show ?thesis using Suc by simp
  qed
qed simp

lemma matching_exact:
  assumes "db_ok db" "\<not> is_wildcard_filter f" "f \<noteq> []"
  shows "matching f db = filter (\<lambda>r. m_topic r = f) (shard_rows db (topic_shard f))"
proof -
  have "matching f db = filter (\<lambda>r. m_topic r = f) (concat (db_shards db))"
    using filter_matches_plain [OF assms(2)] assms(3) by (auto simp: matching_def intro!: filter_cong)
  moreover have "filter (\<lambda>r. m_topic r = f) (db_shards db ! j) = []"
    if "j < length (db_shards db)" "j \<noteq> topic_shard f" for j
    using that db_okD [OF assms(1), of j] assms(1)
    by (auto simp: filter_empty_conv shard_ok_def msg_ok_def db_ok_def)
  ultimately show ?thesis
    using filter_concat_one [of "topic_shard f" "db_shards db" "\<lambda>r. m_topic r = f"] topic_shard_less assms(1)
    by (simp add: db_ok_def)
qed

lemma matched_rows_no_faults:
  "matched_rows no_faults k f shards =
   Inr (map (\<lambda>r. (m_created r, m_id r)) (filter (\<lambda>r. filter_matches f (m_topic r)) (concat shards)))"
  by (induction shards arbitrary: k) auto

lemma sort_map_key: "sort (map f xs) = map f (sort_key f xs)"
  by (rule properties_for_sort) simp_all

lemma newest_first_nth:
  "n < length xs \<Longrightarrow> rev (sort (map (\<lambda>r. (m_created r, m_id r)) xs)) ! n =
     (m_created (newest_first xs ! n), m_id (newest_first xs ! n))"
  by (simp add: newest_first_def sort_map_key rev_map)

lemma newest_first_simps [simp]: "set (newest_first xs) = set xs" "length (newest_first xs) = length xs"
  by (simp_all add: newest_first_def)

text \<open>The id at an offset is that of the row at that place of the listing, on both paths.\<close>

lemma topic_message_id_eq:
  assumes "db_ok db" "f \<noteq> []" "0 \<le> offset"
  shows "\<exists>k'. topic_message_id no_faults k f offset db =
    Inr (int (length (matching f db)),
         if offset < int (length (matching f db)) then Some (m_id (newest_first (matching f db) ! nat offset)) else None, k')"
proof (cases "is_wildcard_filter f")
  case True
  have "nat offset < length (matching f db) \<longleftrightarrow> offset < int (length (matching f db))" using assms(3) by linarith
  then show ?thesis
    using True newest_first_nth [of "nat offset" "matching f db"]
    by (simp add: topic_message_id_def matched_rows_no_faults matching_def [symmetric] Let_def)
next
  case False
  then show ?thesis
    using assms(3) by (simp add: topic_message_id_def Let_def matching_exact [OF assms(1) False assms(2)])
qed

lemma find_unique_key:
  assumes "unique_key key rows" "r \<in> set rows"
  shows "find (\<lambda>x. key x = key r) rows = Some r"
proof -
  have "x = r" if "x \<in> set rows" "key x = key r" for x
    using that assms by (auto simp: unique_key_def distinct_map dest: inj_onD)
  moreover obtain x where "find (\<lambda>x. key x = key r) rows = Some x"
    using assms(2) by (cases "find (\<lambda>x. key x = key r) rows") (auto simp: find_None_iff)
  moreover from this have "x \<in> set rows" "key x = key r" by (auto simp: find_Some_iff)
  ultimately show ?thesis by simp
qed

lemma page_at_row:
  assumes "db_ok db" "stamped db" "r \<in> set (matching f db)"
  shows "page_at e fj no_faults offset (n, Some (m_id r), k) db =
    Inr \<lparr>tp_offset = offset, tp_total = n, tp_message = Some (to_stored e fj r)\<rparr>"
proof -
  obtain rows where "rows \<in> set (db_shards db)" "r \<in> set rows" using assms(3) by (auto simp: matching_def)
  then obtain i where i: "i < MESSAGE_SHARDS" "r \<in> set (shard_rows db i)"
    using assms(1) by (auto simp: in_set_conv_nth [of rows] db_ok_def)
  then have ok: "shard_ok i (shard_rows db i)" using assms(1) by (rule_tac db_okD)
  moreover have "message_id_shard (m_id r) \<noteq> None" using assms(2,3) by (auto simp: stamped_def matching_def)
  ultimately have "message_id_shard (m_id r) = Some i" using i(2) by (auto simp: shard_ok_def msg_ok_def)
  moreover have "find (\<lambda>x. m_id x = m_id r) (shard_rows db i) = Some r"
    using ok i(2) unfolding shard_ok_def by (intro find_unique_key) auto
  ultimately show ?thesis by (simp add: page_at_def shard_index_for_id_def)
qed

text \<open>C37. Browsing: without failures, a page shows the message at the (clamped) offset of the list of
  all stored messages the filter matches, newest first, together with the exact total; so the
  offsets 0 .. total-1 enumerate the topic. The one-shard query of an exact filter and the scan of
  all shards of a wildcard filter agree on this.
\<close>

theorem pages_enumerate_topic:
  assumes "db_ok db" "stamped db" "f \<noteq> []"
  shows "let listing = newest_first (matching f db); total = int (length listing);
             place = (if total = 0 then max offset 0 else min (max offset 0) (total - 1))
    in topic_message_page e fj no_faults f offset db =
       Inr \<lparr>tp_offset = place, tp_total = total,
            tp_message = (if total = 0 then None else Some (to_stored e fj (listing ! nat place)))\<rparr>"
proof -
  let ?n = "int (length (matching f db))" and ?o = "max offset 0"
  have at: "\<exists>k'. topic_message_id no_faults k f p db = Inr (?n, Some (m_id (newest_first (matching f db) ! nat p)), k')"
    if "0 \<le> p" "p < ?n" for p k using topic_message_id_eq [OF assms(1,3) that(1), of k] that(2) by (simp only: if_True)
  have none: "\<exists>k'. topic_message_id no_faults 0 f ?o db = Inr (?n, None, k')" if "?n \<le> ?o"
    using topic_message_id_eq [OF assms(1,3) max.cobounded2, of 0 offset] that by (simp only: not_less [symmetric] if_False)
  have page: "page_at e fj no_faults p (?n, Some (m_id (newest_first (matching f db) ! nat p)), k) db =
    Inr \<lparr>tp_offset = p, tp_total = ?n, tp_message = Some (to_stored e fj (newest_first (matching f db) ! nat p))\<rparr>"
    if "0 \<le> p" "p < ?n" for p k
  proof (rule page_at_row [OF assms(1,2), where f = f])
    have "nat p < length (newest_first (matching f db))" using that by simp
    then show "newest_first (matching f db) ! nat p \<in> set (matching f db)"
      using nth_mem [of "nat p" "newest_first (matching f db)"] by simp
  qed
  consider (inside) "?o < ?n" | (beyond) "0 < ?n" "?n \<le> ?o" | (empty) "?n = 0" by linarith
  then show ?thesis
  proof cases
    case inside
    obtain k where k: "topic_message_id no_faults 0 f ?o db = Inr (?n, Some (m_id (newest_first (matching f db) ! nat ?o)), k)"
      using at [of ?o 0] inside max.cobounded2 by blast
    have p: "min ?o (?n - 1) = ?o" "?n \<noteq> 0" using inside by linarith+
    show ?thesis
      unfolding topic_message_page_def Let_def k newest_first_simps p
      by (simp only: bindE_simps prod.case option.distinct if_False simp_thms p page [OF _ inside] max.cobounded2)
  next
    case beyond
    obtain k where k: "topic_message_id no_faults 0 f ?o db = Inr (?n, None, k)"
      using none [OF beyond(2)] by blast
    have p: "min ?o (?n - 1) = ?n - 1" "?n \<noteq> 0" "0 \<le> ?n - 1" "?n - 1 < ?n" using beyond by linarith+
    obtain k' where k': "topic_message_id no_faults k f (?n - 1) db =
        Inr (?n, Some (m_id (newest_first (matching f db) ! nat (?n - 1))), k')"
      using at [OF p(3,4)] by blast
    show ?thesis
      unfolding topic_message_page_def Let_def k newest_first_simps p
      by (simp only: bindE_simps prod.case if_True if_False simp_thms k' p page [OF p(3,4)] beyond)
  next
    case empty
    have "?n \<le> ?o" using empty by simp
    then obtain k where k: "topic_message_id no_faults 0 f ?o db = Inr (?n, None, k)" using none by blast
    show ?thesis
      unfolding topic_message_page_def Let_def k newest_first_simps empty by (simp add: page_at_def)
  qed
qed

theorem pages_enumerate_topic_witness:
  "let listing = newest_first (matching ''jobs'' (db_with (sample_row 1))); total = int (length listing);
       place = (if total = 0 then max 7 0 else min (max 7 0) (total - 1))
   in topic_message_page [] Some no_faults ''jobs'' 7 (db_with (sample_row 1)) =
      Inr \<lparr>tp_offset = place, tp_total = total,
           tp_message = (if total = 0 then None else Some (to_stored [] Some (listing ! nat place)))\<rparr>"
proof (rule pages_enumerate_topic)
  have only: "r = sample_row 1" if "rows \<in> set (db_shards (db_with (sample_row 1)))" "r \<in> set rows" for r rows
    using that db_with_all [of _ "sample_row 1"] sample_db(1) [of 1] by (auto simp: in_set_conv_nth [of rows] db_ok_def)
  show "stamped (db_with (sample_row 1))" unfolding stamped_def by (auto dest!: only)
qed simp_all

end
