(* ===== verification/Startup.thy ===== *)
theory Startup
  imports Admin
begin

text \<open>
  Start-up of the broker: what \<open>Database::connect\<close>, \<open>open_message_shards\<close> and
  \<open>migrate_legacy_messages\<close> of \<open>src/src/db.rs\<close> do to the data on disk. Table creation, pragmas and
  the schema upgrades that only add columns change no row and are not modelled.
\<close>

subsection \<open>Start-up\<close>

text \<open>What is on disk when the broker starts; \<open>dk_legacy\<close> is the table \<open>messages\<close> of the control file.\<close>

record disk =
  dk_legacy :: "msg_row list"
  dk_migrated :: bool
  dk_shards :: "shard list"
  dk_consumers :: "consumer_row list"
  dk_topics :: "topic_row list"
  dk_trends :: "trend_row list"

definition migrated_id :: "msg_row \<Rightarrow> string" where
  "migrated_id r =
     (if message_id_shard (m_id r) \<noteq> None then m_id r
      else prefixed_message_id (topic_shard (m_topic r)) (m_id r))"

definition insert_ignore :: "msg_row \<Rightarrow> shard \<Rightarrow> shard" where
  "insert_ignore r rows = (if msg_conflict r rows then rows else rows @ [r])"

fun migrate_rows :: "faults \<Rightarrow> nat \<Rightarrow> msg_row list \<Rightarrow> shard list \<Rightarrow> shard list \<times> (db_error + nat)" where
  "migrate_rows flt k [] shards = (shards, Inr k)"
| "migrate_rows flt k (r # rs) shards =
     (let i = topic_shard (m_topic r); r = r\<lparr>m_id := migrated_id r\<rparr> in
      if flt k then (shards, Inl DbSql)
      else let shards = shards[i := insert_ignore r (shards ! i)] in
        if flt (k + 1) then (shards, Inl DbSql)
        else if m_id r \<notin> m_id ` set (shards ! i) then (shards, Inl DbNotCopied)
        else migrate_rows flt (k + 2) rs shards)"

definition migrate_legacy_messages :: "faults \<Rightarrow> nat \<Rightarrow> disk \<Rightarrow> disk \<times> (db_error + nat)" where
  "migrate_legacy_messages flt k d =
     (if flt k then (d, Inl DbSql)
      else if dk_migrated d then (d, Inr (k + 1))
      else if flt (k + 1) then (d, Inl DbSql)
      else case migrate_rows flt (k + 2) (dk_legacy d) (dk_shards d) of
             (shards, Inl e) \<Rightarrow> (d\<lparr>dk_shards := shards\<rparr>, Inl e)
           | (shards, Inr k) \<Rightarrow>
               if flt k then (d\<lparr>dk_shards := shards\<rparr>, Inl DbSql)
               else (d\<lparr>dk_shards := shards, dk_migrated := True\<rparr>, Inr (k + 1)))"

text \<open>The statements of \<open>connect\<close> on the topic table.\<close>

definition fill_last_seen :: "string \<Rightarrow> topic_row \<Rightarrow> topic_row" where
  "fill_last_seen now r = (if tr_last_seen r = None then r\<lparr>tr_last_seen := Some now\<rparr> else r)"

definition demote :: "topic_row \<Rightarrow> topic_row" where
  "demote r =
     (if \<not> tr_configured r \<and> tr_persistence r = ''persistent'' \<and>
         CHR ''#'' \<notin> set (tr_topic r) \<and> CHR ''+'' \<notin> set (tr_topic r)
      then r\<lparr>tr_persistence := ''ephemeral''\<rparr> else r)"

definition insert_topic :: "topic_row \<Rightarrow> topic_row list \<Rightarrow> topic_row list" where
  "insert_topic r rows = snd (sql_insert_new tr_topic r rows)"

definition legacy_topic :: "msg_row list \<Rightarrow> string \<Rightarrow> topic_row" where
  "legacy_topic rows t =
     (default_row t)\<lparr>tr_accepted := int (length (filter (\<lambda>r. m_topic r = t) rows)),
        tr_delivered := depth_of Delivered t rows, tr_failed := depth_of Failed t rows\<rparr>"

text \<open>Statements on one table in order; a failure stops them and keeps what was done.\<close>

fun run_updates :: "faults \<Rightarrow> nat \<Rightarrow> ('t \<Rightarrow> 't) list \<Rightarrow> 't \<Rightarrow> 't \<times> (db_error + nat)" where
  "run_updates flt k [] t = (t, Inr k)"
| "run_updates flt k (f # fs) t = (if flt k then (t, Inl DbSql) else run_updates flt (k + 1) fs (f t))"

definition catalog_updates :: "string \<Rightarrow> disk \<Rightarrow> (topic_row list \<Rightarrow> topic_row list) list" where
  "catalog_updates now d =
     [map (fill_last_seen now), map demote,
      fold (\<lambda>t. insert_topic (legacy_topic (dk_legacy d) t)) (remdups (map m_topic (dk_legacy d))),
      fold (\<lambda>t. insert_topic (default_row t)) (remdups (map c_topic (dk_consumers d)))]"

definition seed_depth :: "string \<Rightarrow> string \<times> int \<times> int \<Rightarrow> topic_row list \<Rightarrow> topic_row list" where
  "seed_depth now = (\<lambda>(t, pending, processing).
     let upd = (\<lambda>r. r\<lparr>tr_pending := pending, tr_processing := processing\<rparr>)
     in sql_upsert tr_topic ((upd (default_row t))\<lparr>tr_last_seen := Some now\<rparr>) (\<lambda>_. True) upd)"

definition depth_updates :: "string \<Rightarrow> (string, int \<times> int) hmap \<Rightarrow> (topic_row list \<Rightarrow> topic_row list) list" where
  "depth_updates now depths =
     map (\<lambda>r. r\<lparr>tr_pending := 0, tr_processing := 0\<rparr>) # map (seed_depth now) depths"

definition seed_catalog :: "string \<Rightarrow> faults \<Rightarrow> nat \<Rightarrow> disk \<Rightarrow> disk \<times> (db_error + nat)" where
  "seed_catalog now flt k d =
     (case run_updates flt k (catalog_updates now d) (dk_topics d) of
        (rows, Inl e) \<Rightarrow> (d\<lparr>dk_topics := rows\<rparr>, Inl e)
      | (rows, Inr k) \<Rightarrow>
          (case load_queue_depths flt k (dk_shards d) [] of
             Inl e \<Rightarrow> (d\<lparr>dk_topics := rows\<rparr>, Inl e)
           | Inr depths \<Rightarrow>
               let (rows, res) = run_updates flt (k + length (dk_shards d)) (depth_updates now depths) rows
               in (d\<lparr>dk_topics := rows\<rparr>, res)))"

definition load_config :: "topic_row list \<Rightarrow> (string, topic_config) hmap" where
  "load_config rows = map (\<lambda>r. (tr_topic r, row_config r)) rows"

text \<open>
  \<open>connect\<close>: recovery of the control table and of every shard, migration, the topic catalog,
  and then the configuration cache and fresh counters.
\<close>

definition connect_db :: "chrono \<Rightarrow> faults \<Rightarrow> int \<Rightarrow> disk \<Rightarrow> disk \<times> (db_error + broker_db)" where
  "connect_db ch flt now d =
     (if flt 0 then (d, Inl DbSql)
      else let d = d\<lparr>dk_legacy := recover_shard (dk_legacy d)\<rparr>;
               (shards, opened) = each_shard flt 1 (sql_update (\<lambda>r. m_status r = Processing) reclaim_update) (dk_shards d);
               d = d\<lparr>dk_shards := shards\<rparr>
           in case opened of
                Inl e \<Rightarrow> (d, Inl e)
              | Inr _ \<Rightarrow>
                  (case migrate_legacy_messages flt (1 + length (dk_shards d)) d of
                     (d, Inl e) \<Rightarrow> (d, Inl e)
                   | (d, Inr k) \<Rightarrow>
                       (case seed_catalog (to_rfc3339 ch now) flt k d of
                          (d, Inl e) \<Rightarrow> (d, Inl e)
                        | (d, Inr k) \<Rightarrow>
                            if flt k then (d, Inl DbSql)
                            else (d, Inr \<lparr>bd_queue = \<lparr>db_stats = \<lparr>st_topics = dk_topics d, st_config = load_config (dk_topics d),
                                     st_deltas = [], st_trend_deltas = [], st_trends = dk_trends d\<rparr>,
                                     db_shards = dk_shards d, db_cursor = 0\<rparr>,
                                   bd_consumers = dk_consumers d\<rparr>))))"

subsection \<open>Crash recovery\<close>

text \<open>A database as a crash can leave it: legacy ids, if they carry a shard, carry that of their topic.\<close>

definition legacy_ok :: "msg_row \<Rightarrow> bool" where
  "legacy_ok r \<longleftrightarrow> (m_lease r \<noteq> None \<longleftrightarrow> m_status r = Processing) \<and> 0 \<le> m_attempts r \<and>
     (message_id_shard (m_id r) = None \<or> message_id_shard (m_id r) = Some (topic_shard (m_topic r)))"

definition disk_ok :: "disk \<Rightarrow> bool" where
  "disk_ok d \<longleftrightarrow> length (dk_shards d) = MESSAGE_SHARDS \<and> (\<forall>i < MESSAGE_SHARDS. shard_ok i (dk_shards d ! i)) \<and>
     (\<forall>r \<in> set (dk_legacy d). legacy_ok r)"

definition recovered :: "msg_row \<Rightarrow> msg_row" where
  "recovered r = (if m_status r = Processing then reclaim_update r else r)"

lemma recovered_status: "m_status (recovered r) \<noteq> Processing"
  by (simp add: recovered_def reclaim_update_def)

lemma recover_update: "snd (sql_update (\<lambda>r. m_status r = Processing) reclaim_update rows) = map recovered rows"
  by (simp add: sql_update_def recovered_def)

lemma migrated_ok: "legacy_ok r \<Longrightarrow> msg_ok (topic_shard (m_topic r)) (r\<lparr>m_id := migrated_id r\<rparr>)"
  using topic_shard_less [of "m_topic r"]
  by (auto simp: legacy_ok_def msg_ok_def migrated_id_def message_id_shard_prefixed)

lemma shard_ok_ignore: "shard_ok i rows \<Longrightarrow> msg_ok i r \<Longrightarrow> shard_ok i (insert_ignore r rows)"
  by (simp add: insert_ignore_def shard_ok_insert)

lemma insert_ignore_set: "set rows \<subseteq> set (insert_ignore r rows) \<and> set (insert_ignore r rows) \<subseteq> insert r (set rows)"
  by (auto simp: insert_ignore_def)

text \<open>What the migration keeps: the shard invariant, every row that was there, and what it adds.\<close>

lemma migrate_rows_props:
  "\<forall>r \<in> set rs. legacy_ok r \<and> m_status r \<noteq> Processing \<Longrightarrow> length shards = MESSAGE_SHARDS \<Longrightarrow>
   \<forall>i < MESSAGE_SHARDS. shard_ok i (shards ! i) \<and> (\<forall>r \<in> set (shards ! i). m_status r \<noteq> Processing) \<Longrightarrow>
   migrate_rows flt k rs shards = (shards', res) \<Longrightarrow>
   length shards' = MESSAGE_SHARDS \<and>
   (\<forall>i < MESSAGE_SHARDS. shard_ok i (shards' ! i) \<and> (\<forall>r \<in> set (shards' ! i). m_status r \<noteq> Processing)) \<and>
   (\<forall>i < MESSAGE_SHARDS. set (shards ! i) \<subseteq> set (shards' ! i)) \<and>
   (\<forall>n. res = Inr n \<longrightarrow> (\<forall>r \<in> set rs. migrated_id r \<in> m_id ` set (shards' ! topic_shard (m_topic r))))"
proof (induction rs arbitrary: k shards)
  case (Cons r rs)
  let ?i = "topic_shard (m_topic r)" and ?r = "r\<lparr>m_id := migrated_id r\<rparr>"
  let ?s = "shards[?i := insert_ignore ?r (shards ! ?i)]"
  have i: "?i < MESSAGE_SHARDS" by (rule topic_shard_less)
  have ok: "length ?s = MESSAGE_SHARDS"
    "\<forall>j < MESSAGE_SHARDS. shard_ok j (?s ! j) \<and> (\<forall>r \<in> set (?s ! j). m_status r \<noteq> Processing)"
    using Cons.prems i migrated_ok [of r] insert_ignore_set [of "shards ! ?i" ?r]
    by (auto simp: nth_list_update shard_ok_ignore)
  have keep: "\<forall>j < MESSAGE_SHARDS. set (shards ! j) \<subseteq> set (?s ! j)"
    using insert_ignore_set [of "shards ! ?i" ?r] Cons.prems(2) i by (auto simp: nth_list_update)
  consider (fail) "shards' = shards \<or> shards' = ?s" "\<forall>n. res \<noteq> Inr n"
    | (go) "migrate_rows flt (k + 2) rs ?s = (shards', res)" "migrated_id r \<in> m_id ` set (?s ! ?i)"
    using Cons.prems(4) by (auto simp: Let_def split: if_splits)
  then show ?case
  proof cases
    case fail
    with Cons.prems ok keep show ?thesis by auto
  next
    case go
    from Cons.IH [OF _ ok go(1)] Cons.prems(1) have IH:
      "length shards' = MESSAGE_SHARDS"
      "\<forall>i < MESSAGE_SHARDS. shard_ok i (shards' ! i) \<and> (\<forall>r \<in> set (shards' ! i). m_status r \<noteq> Processing)"
      "\<forall>i < MESSAGE_SHARDS. set (?s ! i) \<subseteq> set (shards' ! i)"
      "\<forall>n. res = Inr n \<longrightarrow> (\<forall>r \<in> set rs. migrated_id r \<in> m_id ` set (shards' ! topic_shard (m_topic r)))"
      by auto
    have "migrated_id r \<in> m_id ` set (shards' ! ?i)" using go(2) IH(3) i by blast
    moreover have "\<forall>j < MESSAGE_SHARDS. set (shards ! j) \<subseteq> set (shards' ! j)" using keep IH(3) by blast
    ultimately show ?thesis using IH by auto
  qed
qed simp

text \<open>The catalog statements touch neither the shards nor the legacy table.\<close>

lemma seed_catalog_frame:
  "seed_catalog now flt k d = (d', res) \<Longrightarrow>
   dk_shards d' = dk_shards d \<and> dk_legacy d' = dk_legacy d \<and> dk_migrated d' = dk_migrated d"
  by (auto simp: seed_catalog_def Let_def split: prod.splits sum.splits)

definition idle :: "shard list \<Rightarrow> bool" where
  "idle shards \<longleftrightarrow> (\<forall>i < MESSAGE_SHARDS. \<forall>r \<in> set (shards ! i). m_status r \<noteq> Processing)"

definition legacy_copied :: "disk \<Rightarrow> shard list \<Rightarrow> bool" where
  "legacy_copied d shards \<longleftrightarrow>
     (\<forall>r \<in> set (dk_legacy d). migrated_id r \<in> m_id ` set (shards ! topic_shard (m_topic r)))"

definition rows_kept :: "disk \<Rightarrow> shard list \<Rightarrow> bool" where
  "rows_kept d shards \<longleftrightarrow> (\<forall>i < MESSAGE_SHARDS. \<forall>r \<in> set (dk_shards d ! i). recovered r \<in> set (shards ! i))"

lemma migrate_keeps:
  assumes "migrate_legacy_messages flt k d = (d', Inr k')" "disk_ok d" "idle (dk_shards d)"
    "\<forall>r \<in> set (dk_legacy d). m_status r \<noteq> Processing"
  shows "disk_ok d' \<and> idle (dk_shards d') \<and> (\<not> dk_migrated d \<longrightarrow> legacy_copied d (dk_shards d')) \<and>
     (\<forall>i < MESSAGE_SHARDS. set (dk_shards d ! i) \<subseteq> set (dk_shards d' ! i)) \<and> dk_legacy d' = dk_legacy d"
proof (cases "dk_migrated d")
  case True
  with assms show ?thesis by (auto simp: migrate_legacy_messages_def split: if_splits)
next
  case False
  with assms(1) obtain shards n where m: "migrate_rows flt (k + 2) (dk_legacy d) (dk_shards d) = (shards, Inr n)"
    and d': "d' = d\<lparr>dk_shards := shards, dk_migrated := True\<rparr>"
    by (auto simp: migrate_legacy_messages_def split: if_splits prod.splits sum.splits)
  have "length shards = MESSAGE_SHARDS \<and>
     (\<forall>i < MESSAGE_SHARDS. shard_ok i (shards ! i) \<and> (\<forall>r \<in> set (shards ! i). m_status r \<noteq> Processing)) \<and>
     (\<forall>i < MESSAGE_SHARDS. set (dk_shards d ! i) \<subseteq> set (shards ! i)) \<and>
     (\<forall>n'. Inr n = (Inr n' :: db_error + nat) \<longrightarrow>
        (\<forall>r \<in> set (dk_legacy d). migrated_id r \<in> m_id ` set (shards ! topic_shard (m_topic r))))"
    using assms(2-4) by (intro migrate_rows_props [OF _ _ _ m]) (auto simp: disk_ok_def idle_def)
  with assms(2) d' show ?thesis by (simp add: disk_ok_def idle_def legacy_copied_def)
qed

lemma legacy_ok_recovered: "legacy_ok r \<Longrightarrow> legacy_ok (recovered r)"
  by (auto simp: legacy_ok_def recovered_def reclaim_update_def)

lemma migrated_id_recovered: "migrated_id (recovered r) = migrated_id r" "m_topic (recovered r) = m_topic r"
  by (auto simp: migrated_id_def recovered_def reclaim_update_def)


text \<open>Without failing statements a start goes through, when no legacy row clashes with another message.\<close>

lemma run_updates_no_faults [simp]: "\<exists>t' k'. run_updates no_faults k fs t = (t', Inr k')"
  by (induction fs arbitrary: k t) auto

lemma load_depths_no_faults [simp]: "\<exists>m'. load_queue_depths no_faults k shards m = Inr m'"
  by (induction shards arbitrary: k m) auto

lemma each_shard_no_faults [simp]: "\<exists>n. snd (each_shard no_faults k f shards) = Inr n"
proof (induction shards arbitrary: k)
  case (Cons rows shards)
  obtain n where "snd (each_shard no_faults (k + 1) f shards) = Inr n" using Cons.IH by blast
  then show ?case by (simp add: split_beta)
qed simp

lemma seed_catalog_no_faults: "\<exists>d' k'. seed_catalog now no_faults k d = (d', Inr k')"
proof -
  obtain rows k1 where 1: "run_updates no_faults k (catalog_updates now d) (dk_topics d) = (rows, Inr k1)"
    using run_updates_no_faults by metis
  obtain m where 2: "load_queue_depths no_faults k1 (dk_shards d) [] = Inr m" using load_depths_no_faults by blast
  obtain rows' k2 where "run_updates no_faults (k1 + length (dk_shards d)) (depth_updates now m) rows = (rows', Inr k2)"
    using run_updates_no_faults by metis
  with 1 2 show ?thesis by (simp add: seed_catalog_def)
qed

lemma connect_no_faults:
  assumes "\<And>k. \<exists>shards' k'. migrate_rows no_faults k (map recovered (dk_legacy d))
      (fst (each_shard no_faults 1 (sql_update (\<lambda>r. m_status r = Processing) reclaim_update) (dk_shards d))) =
      (shards', Inr k')"
  shows "\<exists>d' bd. connect_db ch no_faults now d = (d', Inr bd)"
proof -
  let ?f = "sql_update (\<lambda>r. m_status r = Processing) reclaim_update"
  let ?d = "d\<lparr>dk_legacy := recover_shard (dk_legacy d), dk_shards := fst (each_shard no_faults 1 ?f (dk_shards d))\<rparr>"
  obtain n where o: "snd (each_shard no_faults 1 ?f (dk_shards d)) = Inr n" using each_shard_no_faults by blast
  obtain shards k1 where "migrate_rows no_faults (1 + length (dk_shards ?d) + 2) (dk_legacy ?d) (dk_shards ?d) = (shards, Inr k1)"
    using assms [of "1 + length (dk_shards ?d) + 2"] by (simp add: recover_shard_def recover_update) blast
  then have "\<exists>d1 k. migrate_legacy_messages no_faults (1 + length (dk_shards ?d)) ?d = (d1, Inr k)"
    unfolding migrate_legacy_messages_def by simp
  then obtain d1 k where m: "migrate_legacy_messages no_faults (1 + length (dk_shards ?d)) ?d = (d1, Inr k)" by blast
  obtain d2 k2 where "seed_catalog (to_rfc3339 ch now) no_faults k d1 = (d2, Inr k2)"
    using seed_catalog_no_faults by blast
  with o m show ?thesis by (simp add: connect_db_def Let_def split_beta del: One_nat_def)
qed

text \<open>A crash in the middle of the migration: one claimed message, in its shard and in the old table.\<close>

definition crashed_disk :: disk where
  "crashed_disk =
     (let r = claim_update ''l'' ''t'' (sample_row 1)
      in \<lparr>dk_legacy = [r], dk_migrated = False, dk_shards = db_shards (db_with r), dk_consumers = [], dk_topics = [], dk_trends = []\<rparr>)"


end
