(* ===== verification/Writer.thy ===== *)
theory Writer
  imports Admin "HOL-Library.Sublist"
begin

text \<open>
  The write path of \<open>src/src/writer.rs\<close>: the cache of recent idempotency keys, the notifications,
  the admission of commands into one channel per shard, and the loop \<open>run_writer\<close> that commits them
  in batches. Channels hand commands over in order; a full channel only delays the sender, so a
  channel is the list of its waiting commands and a flag. \<open>'r\<close> is the type of reply channels.
\<close>

subsection \<open>Recent idempotency keys\<close>

record recent_ids =
  ri_values :: "(string, string) hmap"
  ri_order :: "string list"
  ri_capacity :: nat

definition recent_new :: "nat \<Rightarrow> recent_ids" where
  "recent_new capacity = \<lparr>ri_values = [], ri_order = [], ri_capacity = capacity\<rparr>"

definition recent_get :: "string \<Rightarrow> recent_ids \<Rightarrow> string option" where
  "recent_get key r = hget (ri_values r) key"

text \<open>The eviction loop; with an empty order and a full map it spins for ever.\<close>

partial_function (option) evict ::
  "nat \<Rightarrow> (string, string) hmap \<Rightarrow> string list \<Rightarrow> ((string, string) hmap \<times> string list) option" where
  "evict capacity values order =
     (if capacity \<le> length values
      then (case order of [] \<Rightarrow> evict capacity values [] | k # ks \<Rightarrow> evict capacity (hdel k values) ks)
      else Some (values, order))"

definition recent_insert :: "string \<Rightarrow> string \<Rightarrow> recent_ids \<Rightarrow> recent_ids option" where
  "recent_insert key mid r =
     (if hget (ri_values r) key \<noteq> None then Some (r\<lparr>ri_values := hput key mid (ri_values r)\<rparr>)
      else case evict (ri_capacity r) (ri_values r) (ri_order r) of
             None \<Rightarrow> None
           | Some (values, order) \<Rightarrow> Some (r\<lparr>ri_values := hput key mid values, ri_order := order @ [key]\<rparr>))"

definition recent_remove :: "string \<Rightarrow> recent_ids \<Rightarrow> recent_ids" where
  "recent_remove key r =
     r\<lparr>ri_values := hdel key (ri_values r), ri_order := filter (\<lambda>candidate. candidate \<noteq> key) (ri_order r)\<rparr>"

subsection \<open>Notifications\<close>

text \<open>One generation counter per subscribed topic and one for all wildcard subscribers.\<close>

record notifications =
  nt_topics :: "(string, 64 word) hmap"
  nt_global :: "64 word option"

datatype slot = Topic_slot string | Global_slot

definition nt_subscribe :: "string \<Rightarrow> notifications \<Rightarrow> notifications \<times> slot" where
  "nt_subscribe topic nt =
     (if is_wildcard_filter topic
      then (case nt_global nt of None \<Rightarrow> nt\<lparr>nt_global := Some 0\<rparr> | Some _ \<Rightarrow> nt, Global_slot)
      else (case hget (nt_topics nt) topic of
              None \<Rightarrow> nt\<lparr>nt_topics := hput topic 0 (nt_topics nt)\<rparr> | Some _ \<Rightarrow> nt, Topic_slot topic))"

definition nt_notify :: "string \<Rightarrow> notifications \<Rightarrow> notifications" where
  "nt_notify topic nt =
     nt\<lparr>nt_topics := (case hget (nt_topics nt) topic of
                        None \<Rightarrow> nt_topics nt | Some g \<Rightarrow> hput topic (g + 1) (nt_topics nt)),
        nt_global := map_option (\<lambda>g. g + 1) (nt_global nt)\<rparr>"

fun generation :: "notifications \<Rightarrow> slot \<Rightarrow> 64 word option" where
  "generation nt (Topic_slot t) = hget (nt_topics nt) t"
| "generation nt Global_slot = nt_global nt"

subsection \<open>Admission\<close>

datatype 'r write_command =
    Enqueue enqueue_input
  | Deliver string string 'r
  | Shutdown 'r

record 'r channel =
  ch_open :: bool
  ch_waiting :: "'r write_command list"

record 'r queue_writer =
  qw_tx :: "'r channel list"
  qw_recent :: "recent_ids list"
  qw_notifications :: notifications
  qw_stats_stopped :: bool

definition send_command :: "'r write_command \<Rightarrow> 'r channel \<Rightarrow> 'r channel option" where
  "send_command c ch = (if ch_open ch then Some (ch\<lparr>ch_waiting := ch_waiting ch @ [c]\<rparr>) else None)"

definition usize_max :: nat where "usize_max = 2 ^ 64 - 1"

definition per_shard_queue :: "nat \<Rightarrow> nat" where
  "per_shard_queue queue_size = max ((queue_size + 15) div 16) 1"

definition recent_ids_per_shard :: "nat \<Rightarrow> nat" where
  "recent_ids_per_shard queue_size = max (min (per_shard_queue queue_size * 4) usize_max) 64"

fun preload :: "(nat \<times> string \<times> string) list \<Rightarrow> recent_ids list \<Rightarrow> recent_ids list option" where
  "preload [] rs = Some rs"
| "preload ((shard, key, mid) # es) rs =
     Option.bind (recent_insert key mid (rs ! shard)) (\<lambda>r. preload es (rs[shard := r]))"

text \<open>\<open>start\<close>: the outer \<open>None\<close> is an endless eviction, \<open>Inl\<close> a failing query.\<close>

definition writer_start :: "faults \<Rightarrow> nat \<Rightarrow> database \<Rightarrow> (db_error + 'r queue_writer) option" where
  "writer_start flt queue_size db =
     (let capacity = recent_ids_per_shard queue_size in
      case recent_idempotency_keys flt capacity db of
        Inl e \<Rightarrow> Some (Inl e)
      | Inr entries \<Rightarrow>
          Option.bind (preload entries (replicate 16 (recent_new capacity))) (\<lambda>recent.
            Some (Inr \<lparr>qw_tx = replicate 16 \<lparr>ch_open = True, ch_waiting = []\<rparr>, qw_recent = recent,
              qw_notifications = \<lparr>nt_topics = [], nt_global = None\<rparr>, qw_stats_stopped = False\<rparr>)))"

datatype write_error = WriterStopped

text \<open>\<open>enqueue\<close>; \<open>uuid\<close> is the fresh part of the message id. \<open>None\<close> is an endless eviction.\<close>

definition writer_enqueue ::
  "string \<Rightarrow> string option \<Rightarrow> string \<Rightarrow> bytes \<Rightarrow> (string \<times> string) list \<Rightarrow> 'r queue_writer
   \<Rightarrow> ('r queue_writer \<times> (write_error + string \<times> bool)) option" where
  "writer_enqueue uuid idempotency_key topic payload attributes w =
     (let shard = topic_shard topic; key = (if idempotency_key = Some [] then None else idempotency_key);
          mid = new_message_id topic uuid;
          command = Enqueue \<lparr>ei_id = mid, ei_key = key, ei_topic = topic, ei_payload = payload, ei_attributes = attributes\<rparr>
      in case Option.bind key (\<lambda>k. recent_get k (qw_recent w ! shard)) of
           Some known \<Rightarrow> Some (w, Inr (known, True))
         | None \<Rightarrow>
             Option.bind (case key of None \<Rightarrow> Some (qw_recent w ! shard) | Some k \<Rightarrow> recent_insert k mid (qw_recent w ! shard))
               (\<lambda>recent.
                 case send_command command (qw_tx w ! shard) of
                   None \<Rightarrow>
                     Some (w\<lparr>qw_recent := (qw_recent w)[shard := (case key of None \<Rightarrow> recent | Some k \<Rightarrow> recent_remove k recent)]\<rparr>,
                           Inl WriterStopped)
                 | Some ch \<Rightarrow>
                     Some (w\<lparr>qw_recent := (qw_recent w)[shard := recent], qw_tx := (qw_tx w)[shard := ch]\<rparr>,
                           Inr (mid, False))))"

definition notify_ready :: "string \<Rightarrow> 'r queue_writer \<Rightarrow> 'r queue_writer" where
  "notify_ready topic w = w\<lparr>qw_notifications := nt_notify topic (qw_notifications w)\<rparr>"

definition writer_subscribe :: "string \<Rightarrow> 'r queue_writer \<Rightarrow> 'r queue_writer \<times> slot" where
  "writer_subscribe topic w =
     (let (nt, s) = nt_subscribe topic (qw_notifications w) in (w\<lparr>qw_notifications := nt\<rparr>, s))"

text \<open>The sending part of \<open>delivered\<close>: the answer arrives at \<open>reply\<close>.\<close>

definition writer_delivered :: "string \<Rightarrow> string \<Rightarrow> 'r \<Rightarrow> 'r queue_writer \<Rightarrow> 'r queue_writer \<times> (write_error + unit)" where
  "writer_delivered mid lease reply w =
     (let shard = (case message_id_shard mid of None \<Rightarrow> 0 | Some i \<Rightarrow> i) in
      case send_command (Deliver mid lease reply) (qw_tx w ! shard) of
        None \<Rightarrow> (w, Inl WriterStopped)
      | Some ch \<Rightarrow> (w\<lparr>qw_tx := (qw_tx w)[shard := ch]\<rparr>, Inr ()))"

text \<open>\<open>shutdown\<close> sends one command to every open channel; the replies are awaited in this order.\<close>

fun send_shutdowns :: "(nat \<Rightarrow> 'r) \<Rightarrow> nat \<Rightarrow> 'r channel list \<Rightarrow> 'r channel list \<times> 'r list" where
  "send_shutdowns replies i [] = ([], [])"
| "send_shutdowns replies i (ch # chs) =
     (let (chs, waits) = send_shutdowns replies (i + 1) chs in
      case send_command (Shutdown (replies i)) ch of
        None \<Rightarrow> (ch # chs, waits)
      | Some ch \<Rightarrow> (ch # chs, replies i # waits))"

definition writer_shutdown :: "(nat \<Rightarrow> 'r) \<Rightarrow> 'r queue_writer \<Rightarrow> 'r queue_writer \<times> 'r list" where
  "writer_shutdown replies w =
     (let (chs, waits) = send_shutdowns replies 0 (qw_tx w) in (w\<lparr>qw_tx := chs, qw_stats_stopped := True\<rparr>, waits))"

subsection \<open>The statistics task\<close>

datatype stats_event =
    Stats_tick faults int "(string \<times> topic_delta) list"
  | Trend_tick faults int "(string \<times> trend_delta) list"

fun stats_step :: "chrono \<Rightarrow> stats_event \<Rightarrow> stats \<Rightarrow> stats" where
  "stats_step ch (Stats_tick flt now meanwhile) st = fst (flush_topic_stats ch flt 0 now meanwhile st)"
| "stats_step ch (Trend_tick flt now meanwhile) st = fst (flush_message_trends ch flt now meanwhile st)"

text \<open>The ticks until the stop, and the two final flushes.\<close>

definition stats_worker ::
  "chrono \<Rightarrow> stats_event list \<Rightarrow> faults \<Rightarrow> int \<Rightarrow> (string \<times> topic_delta) list
   \<Rightarrow> faults \<Rightarrow> int \<Rightarrow> (string \<times> trend_delta) list \<Rightarrow> stats \<Rightarrow> stats" where
  "stats_worker ch ticks flt now meanwhile flt' now' meanwhile' st =
     fold (stats_step ch) (ticks @ [Stats_tick flt now meanwhile, Trend_tick flt' now' meanwhile']) st"

subsection \<open>The writer of a shard\<close>

text \<open>
  What surrounds a writer, indexed by the number of its calls to the database: the statements that
  fail, the clock, and what the other tasks do to the database before the call. \<open>we_window\<close> is the
  number of commands that arrive before the deadline of a batch.
\<close>

record worker_env =
  we_chrono :: chrono
  we_json :: "(string \<times> string) list \<Rightarrow> string option"
  we_faults :: "nat \<Rightarrow> faults"
  we_clock :: "nat \<Rightarrow> nat \<Rightarrow> int"
  we_now :: "nat \<Rightarrow> int"
  we_others :: "nat \<Rightarrow> database \<Rightarrow> database"
  we_window :: "nat \<Rightarrow> nat"
  we_batch_size :: nat

fun collect_batch ::
  "nat \<Rightarrow> nat \<Rightarrow> 'r write_command list \<Rightarrow> 'r write_command list \<times> 'r option \<times> 'r write_command list" where
  "collect_batch room window [] = ([], None, [])"
| "collect_batch room window (c # cs) =
     (if room = 0 \<or> window = 0 then ([], None, c # cs)
      else case c of
             Shutdown r \<Rightarrow> ([], Some r, cs)
           | _ \<Rightarrow> let (batch, stop, rest) = collect_batch (room - 1) (window - 1) cs in (c # batch, stop, rest))"

fun enqueues :: "'r write_command list \<Rightarrow> enqueue_input list" where
  "enqueues [] = []"
| "enqueues (Enqueue input # cs) = input # enqueues cs"
| "enqueues (_ # cs) = enqueues cs"

fun delivers :: "'r write_command list \<Rightarrow> (string \<times> string \<times> 'r) list" where
  "delivers [] = []"
| "delivers (Deliver mid lease r # cs) = (mid, lease, r) # delivers cs"
| "delivers (_ # cs) = delivers cs"

text \<open>
  The retry loop around \<open>enqueue_batch\<close>; it does not give up. The result has the number of calls
  made and the pauses in milliseconds.
\<close>

partial_function (option) persist ::
  "worker_env \<Rightarrow> enqueue_input list \<Rightarrow> nat \<Rightarrow> nat \<Rightarrow> nat list \<Rightarrow> database
   \<Rightarrow> (database \<times> (string \<times> bool) list \<times> nat \<times> nat list) option" where
  "persist env inputs n wait pauses db =
     (case enqueue_batch (we_chrono env) (we_json env) (we_faults env n) (we_clock env n) (we_now env n)
             inputs (we_others env n db) of
        (db, Inr results) \<Rightarrow> Some (db, results, n + 1, pauses)
      | (db, Inl e) \<Rightarrow> persist env inputs (n + 1) (min (wait * 2) 1000) (pauses @ [wait]) db)"

fun notify_new :: "(string \<times> string \<times> bool) list \<Rightarrow> notifications \<Rightarrow> notifications" where
  "notify_new [] nt = nt"
| "notify_new ((topic, _, duplicate) # rs) nt = notify_new rs (if duplicate then nt else nt_notify topic nt)"

datatype 'r reply = Settled 'r "db_error + bool" | Stopped 'r

record 'r worker_state =
  ws_db :: database
  ws_notifications :: notifications
  ws_calls :: nat
  ws_stored :: "(enqueue_input \<times> string \<times> bool) list"
  ws_replies :: "'r reply list"

definition write_enqueues :: "worker_env \<Rightarrow> enqueue_input list \<Rightarrow> 'r worker_state \<Rightarrow> 'r worker_state option" where
  "write_enqueues env inputs s =
     (if inputs = [] then Some s
      else Option.bind (persist env inputs (ws_calls s) 10 [] (ws_db s)) (\<lambda>(db, results, n, _).
        Some (s\<lparr>ws_db := db, ws_calls := n,
                ws_notifications := notify_new (zip (map ei_topic inputs) results) (ws_notifications s),
                ws_stored := ws_stored s @ zip inputs results\<rparr>)))"

definition write_delivers :: "worker_env \<Rightarrow> (string \<times> string \<times> 'r) list \<Rightarrow> 'r worker_state \<Rightarrow> 'r worker_state" where
  "write_delivers env ds s =
     (if ds = [] then s
      else let n = ws_calls s; s = s\<lparr>ws_calls := n + 1\<rparr> in
        case delivered_batch (we_chrono env) (we_faults env n) (we_clock env n 0) (we_now env n)
               (map (\<lambda>(mid, lease, _). (mid, lease)) ds) (we_others env n (ws_db s)) of
          (db, Inr results) \<Rightarrow>
            s\<lparr>ws_db := db, ws_replies := ws_replies s @ map (\<lambda>((_, _, r), ok). Settled r (Inr ok)) (zip ds results)\<rparr>
        | (db, Inl e) \<Rightarrow>
            s\<lparr>ws_db := db, ws_replies := ws_replies s @ map (\<lambda>(_, _, r). Settled r (Inl e)) ds\<rparr>)"

text \<open>The loop over a channel that ends when the commands do; the result has what is left of them.\<close>

partial_function (option) run_writer ::
  "worker_env \<Rightarrow> nat \<Rightarrow> 'r write_command list \<Rightarrow> 'r worker_state \<Rightarrow> ('r worker_state \<times> 'r write_command list) option" where
  "run_writer env b cs s =
     (case cs of
        [] \<Rightarrow> Some (s, [])
      | c # cs \<Rightarrow>
          (case c of
             Shutdown r \<Rightarrow> Some (s\<lparr>ws_replies := ws_replies s @ [Stopped r]\<rparr>, cs)
           | _ \<Rightarrow>
               (case collect_batch (max (we_batch_size env) 1 - 1) (we_window env b) cs of
                  (batch, stop, rest) \<Rightarrow>
                    Option.bind (write_enqueues env (enqueues (c # batch)) s) (\<lambda>s.
                      case stop of
                        Some r \<Rightarrow>
                          Some ((write_delivers env (delivers (c # batch)) s)\<lparr>ws_replies :=
                                  ws_replies (write_delivers env (delivers (c # batch)) s) @ [Stopped r]\<rparr>, rest)
                      | None \<Rightarrow> run_writer env (b + 1) rest (write_delivers env (delivers (c # batch)) s)))))"

subsection \<open>Notifications reach their subscribers\<close>

text \<open>A notification of a topic moves the generation of every subscriber whose filter matches it.\<close>

lemma notify_reaches:
  assumes "nt_subscribe f nt = (nt', s)" "filter_matches f t"
  shows "generation nt' s \<noteq> None \<and>
    (generation nt2 s \<noteq> None \<longrightarrow> generation (nt_notify t nt2) s = map_option (\<lambda>g. g + 1) (generation nt2 s))"
  using assms filter_matches_plain [of f t]
  by (auto simp: nt_subscribe_def nt_notify_def split: if_splits option.splits)

lemma notify_keeps_slots: "generation nt s \<noteq> None \<Longrightarrow> generation (nt_notify t nt) s \<noteq> None"
  by (cases s) (auto simp: nt_notify_def split: option.splits)

subsection \<open>The cache of recent keys\<close>

definition ri_ok :: "recent_ids \<Rightarrow> bool" where
  "ri_ok r \<longleftrightarrow> hmap_ok (ri_values r) \<and> distinct (ri_order r) \<and> set (ri_order r) = fst ` set (ri_values r) \<and>
     length (ri_values r) \<le> ri_capacity r \<and> 0 < ri_capacity r"

lemma ri_ok_new [simp]: "0 < capacity \<Longrightarrow> ri_ok (recent_new capacity)"
  by (simp add: ri_ok_def recent_new_def)

lemma hdel_keys: "fst ` set (hdel k m) = fst ` set m - {k}"
  using delete_keys [of k m] by (metis set_map set_removeAll)

text \<open>The loop ends: every round drops the oldest key of a map that is exactly as long as its order.\<close>

lemma evict_ok:
  assumes "0 < capacity" "hmap_ok vals" "distinct order" "set order = fst ` set vals"
  shows "\<exists>vals' order'. evict capacity vals order = Some (vals', order') \<and> hmap_ok vals' \<and> distinct order' \<and>
    set order' = fst ` set vals' \<and> length vals' < capacity \<and> suffix order' order \<and>
    (\<forall>k. hget vals' k = (if k \<in> set order' then hget vals k else None))"
  using assms(2-4)
proof (induction order arbitrary: vals)
  case Nil
  then have "vals = []" by simp
  then show ?case using assms(1) by (subst evict.simps) simp
next
  case (Cons k ks)
  show ?case
  proof (cases "capacity \<le> length vals")
    case False
    have "hget vals j = None" if "j \<notin> set (k # ks)" for j using that Cons.prems(3) [symmetric] by (simp add: map_of_eq_None_iff)
    with False Cons.prems show ?thesis by (subst evict.simps) auto
  next
    case True
    have "set ks = fst ` set (hdel k vals)" using Cons.prems(2,3) by (auto simp: hdel_keys)
    then obtain vals' order' where *: "evict capacity (hdel k vals) ks = Some (vals', order')" "hmap_ok vals'"
      "distinct order'" "set order' = fst ` set vals'" "length vals' < capacity" "suffix order' ks"
      "\<forall>j. hget vals' j = (if j \<in> set order' then hget (hdel k vals) j else None)"
      using Cons.IH [of "hdel k vals"] Cons.prems(1,2) by auto
    moreover have "k \<notin> set order'" using *(6) Cons.prems(2) set_mono_suffix by fastforce
    ultimately show ?thesis using True by (subst evict.simps) (auto intro: suffix_ConsI)
  qed
qed

lemma recent_insert_ok:
  assumes "ri_ok r"
  shows "\<exists>r'. recent_insert key mid r = Some r' \<and> ri_ok r' \<and> recent_get key r' = Some mid \<and>
    (\<forall>k. k \<noteq> key \<longrightarrow> recent_get k r' = None \<or> recent_get k r' = recent_get k r)"
proof (cases "hget (ri_values r) key")
  case (Some v)
  then have "key \<in> fst ` set (ri_values r)" by (metis map_of_eq_None_iff option.distinct(1))
  with assms Some show ?thesis
    by (auto simp: recent_insert_def ri_ok_def recent_get_def length_hput update_conv' dom_update)
next
  case None
  then obtain vals order where *: "evict (ri_capacity r) (ri_values r) (ri_order r) = Some (vals, order)"
    "hmap_ok vals" "distinct order" "set order = fst ` set vals" "length vals < ri_capacity r"
    "suffix order (ri_order r)" "\<forall>k. hget vals k = (if k \<in> set order then hget (ri_values r) k else None)"
    using evict_ok [of "ri_capacity r" "ri_values r" "ri_order r"] assms by (auto simp: ri_ok_def)
  moreover have "key \<notin> set order"
    using None assms set_mono_suffix [OF *(6)] by (auto simp: ri_ok_def map_of_eq_None_iff)
  ultimately show ?thesis
    using None assms by (auto simp: recent_insert_def ri_ok_def recent_get_def length_hput dom_update)
qed

lemma ri_ok_remove [simp]: "ri_ok r \<Longrightarrow> ri_ok (recent_remove key r)"
  using length_delete_le [of key "ri_values r"] by (auto simp: ri_ok_def recent_remove_def hdel_keys)

text \<open>A channel holds messages of its own shard only.\<close>

fun on_shard :: "nat \<Rightarrow> 'r write_command \<Rightarrow> bool" where
  "on_shard i (Enqueue input) \<longleftrightarrow> topic_shard (ei_topic input) = i"
| "on_shard i _ \<longleftrightarrow> True"

definition writer_ok :: "'r queue_writer \<Rightarrow> bool" where
  "writer_ok w \<longleftrightarrow> length (qw_tx w) = 16 \<and> length (qw_recent w) = 16 \<and> (\<forall>r \<in> set (qw_recent w). ri_ok r) \<and>
     (\<forall>i < 16. list_all (on_shard i) (ch_waiting (qw_tx w ! i)))"

lemma preload_ok:
  "\<forall>(i, _) \<in> set es. i < length rs \<Longrightarrow> \<forall>r \<in> set rs. ri_ok r \<Longrightarrow>
   \<exists>rs'. preload es rs = Some rs' \<and> length rs' = length rs \<and> (\<forall>r \<in> set rs'. ri_ok r)"
proof (induction es arbitrary: rs)
  case (Cons e es)
  obtain i key mid where e: "e = (i, key, mid)" by (cases e)
  with Cons.prems have i: "i < length rs" by simp
  then obtain r where r: "recent_insert key mid (rs ! i) = Some r" "ri_ok r"
    using recent_insert_ok [of "rs ! i" key mid] Cons.prems(2) by auto
  have "\<forall>x \<in> set (rs[i := r]). ri_ok x" using Cons.prems(2) r(2) set_update_subset_insert [of rs i r] by auto
  then show ?case using Cons.IH [of "rs[i := r]"] Cons.prems(1) r e by auto
qed simp

lemma recent_keys_index: "recent_keys flt k limit i shards = Inr es \<Longrightarrow> (j, x) \<in> set es \<Longrightarrow> j < i + length shards"
proof (induction shards arbitrary: k i es)
  case (Cons rows shards)
  then show ?case by (fastforce simp: Let_def bindE_eq_Inr split: if_splits)
qed simp

text \<open>Start-up always gets past the preload.\<close>

lemma writer_start_ok:
  assumes "length (db_shards db) = 16"
  shows "(\<exists>e. writer_start flt queue_size db = Some (Inl e)) \<or>
    (\<exists>w. writer_start flt queue_size db = Some (Inr w) \<and> writer_ok w)"
proof (cases "recent_idempotency_keys flt (recent_ids_per_shard queue_size) db")
  case (Inr es)
  have "0 < recent_ids_per_shard queue_size" by (simp add: recent_ids_per_shard_def)
  moreover have "\<forall>(i, _) \<in> set es. i < 16"
    using Inr assms by (auto simp: recent_idempotency_keys_def dest: recent_keys_index)
  ultimately obtain rs where "preload es (replicate 16 (recent_new (recent_ids_per_shard queue_size))) = Some rs"
    "length rs = 16" "\<forall>r \<in> set rs. ri_ok r"
    using preload_ok [of es "replicate 16 (recent_new (recent_ids_per_shard queue_size))"] by auto
  with Inr show ?thesis by (auto simp: writer_start_def writer_ok_def Let_def)
qed (simp add: writer_start_def)

lemma topic_shard_16: "topic_shard t < 16"
  using topic_shard_less [of t] by (simp add: MESSAGE_SHARDS_def)

lemma writer_ok_step:
  assumes "writer_ok w" "ri_ok r" "send_command c (qw_tx w ! i) = Some ch" "on_shard i c" "i < 16"
  shows "writer_ok (w\<lparr>qw_recent := (qw_recent w)[i := r], qw_tx := (qw_tx w)[i := ch]\<rparr>)"
  using assms set_update_subset_insert [of "qw_recent w" i r]
  by (auto simp: writer_ok_def nth_list_update send_command_def split: if_splits)

lemma writer_enqueue_fresh:
  assumes "writer_ok w" "recent_get key (qw_recent w ! topic_shard topic) = None" "key \<noteq> []"
    "ch_open (qw_tx w ! topic_shard topic)"
  shows "\<exists>r. writer_enqueue uuid (Some key) topic payload attributes w =
      Some (w\<lparr>qw_recent := (qw_recent w)[topic_shard topic := r],
              qw_tx := (qw_tx w)[topic_shard topic := (qw_tx w ! topic_shard topic)\<lparr>ch_waiting :=
                ch_waiting (qw_tx w ! topic_shard topic) @ [Enqueue \<lparr>ei_id = new_message_id topic uuid, ei_key = Some key,
                  ei_topic = topic, ei_payload = payload, ei_attributes = attributes\<rparr>]\<rparr>]\<rparr>,
            Inr (new_message_id topic uuid, False)) \<and> ri_ok r \<and> recent_get key r = Some (new_message_id topic uuid)"
proof -
  have "ri_ok (qw_recent w ! topic_shard topic)" using assms(1) topic_shard_16 by (simp add: writer_ok_def)
  then obtain r where "recent_insert key (new_message_id topic uuid) (qw_recent w ! topic_shard topic) = Some r"
    "ri_ok r" "recent_get key r = Some (new_message_id topic uuid)" using recent_insert_ok by blast
  with assms(2-4) show ?thesis by (intro exI [of _ r]) (simp add: writer_enqueue_def send_command_def Let_def)
qed

subsection \<open>Persisting a batch\<close>

text \<open>What the result of an enqueue says of the stored rows.\<close>

definition stored_as ::
  "((string \<times> string) list \<Rightarrow> string option) \<Rightarrow> enqueue_input \<Rightarrow> string \<times> bool \<Rightarrow> shard \<Rightarrow> bool" where
  "stored_as tj input result rows \<longleftrightarrow>
     (\<exists>r \<in> set rows. m_id r = fst result \<and>
        (if snd result then ei_key input \<noteq> None \<and> m_key r = ei_key input
         else m_id r = ei_id input \<and> m_key r = ei_key input \<and> m_topic r = ei_topic input \<and>
              m_payload r = ei_payload input \<and> tj (ei_attributes input) = Some (m_attributes r)))"

lemma stored_as_mono: "stored_as tj x res rows \<Longrightarrow> set rows \<subseteq> set rows' \<Longrightarrow> stored_as tj x res rows'"
  unfolding stored_as_def by blast

lemma enqueue_items_stored:
  "enqueue_items ch tj flt clock k items rows acc = Inr (rows', acc', k') \<Longrightarrow>
   \<exists>res. acc' = acc @ res \<and> map fst res = map fst items \<and>
     list_all2 (\<lambda>(_, item) (_, _, result). stored_as tj item result rows') items res"
proof (induction items arbitrary: k rows acc)
  case (Cons x items)
  obtain index item where x: "x = (index, item)" by (cases x)
  obtain a where a: "tj (ei_attributes item) = Some a" using Cons.prems x by (auto split: option.splits)
  let ?row = "new_msg item a (to_rfc3339 ch (clock index))"
  have step: ?case
    if e: "enqueue_items ch tj flt clock k2 items rows2 (acc @ [(index, ei_topic item, result)]) = Inr (rows', acc', k')"
      and st: "stored_as tj item result rows2" for k2 rows2 result
  proof -
    have "stored_as tj item result rows'" using stored_as_mono [OF st enqueue_items_sub [OF e]] .
    then show ?thesis using Cons.IH [OF e] x by auto
  qed
  show ?case
  proof (cases "msg_conflict ?row rows")
    case True
    then obtain key r where key: "ei_key item = Some key" "find (\<lambda>r. m_key r = Some key) rows = Some r"
      "enqueue_items ch tj flt clock (k + 2) items rows (acc @ [(index, ei_topic item, m_id r, True)]) = Inr (rows', acc', k')"
      using Cons.prems a by (auto simp: x Let_def split: if_splits option.splits)
    moreover have "r \<in> set rows" "m_key r = Some key" using key(2) by (auto simp: find_Some_iff)
    ultimately show ?thesis by (intro step) (auto simp: stored_as_def)
  next
    case False
    then have "enqueue_items ch tj flt clock (k + 1) items (rows @ [?row]) (acc @ [(index, ei_topic item, ei_id item, False)]) =
        Inr (rows', acc', k')"
      using Cons.prems a by (auto simp: x Let_def split: if_splits)
    then show ?thesis by (rule step) (simp add: stored_as_def new_msg_def a)
  qed
qed simp

lemma enqueue_items_ids:
  "enqueue_items ch tj flt clock k items rows acc = Inr (rows', acc', k') \<Longrightarrow>
   m_id ` set rows' \<subseteq> m_id ` set rows \<union> (ei_id \<circ> snd) ` set items"
proof (induction items arbitrary: k rows acc)
  case (Cons x items)
  obtain index item where x: "x = (index, item)" by (cases x)
  from Cons.prems x obtain k2 rows2 acc2 where
    e: "enqueue_items ch tj flt clock k2 items rows2 acc2 = Inr (rows', acc', k')"
    and "rows2 = rows \<or> (\<exists>a now. rows2 = rows @ [new_msg item a now])"
    by (fastforce simp: Let_def split: if_splits option.splits)
  then have "m_id ` set rows2 \<subseteq> insert (ei_id item) (m_id ` set rows)" by (auto simp: new_msg_def)
  with Cons.IH [OF e] x show ?case by (simp add: comp_def) blast
qed simp

text \<open>Without faults a batch of new ids is accepted.\<close>

definition shard_ids :: "nat \<Rightarrow> database \<Rightarrow> string set" where
  "shard_ids i db = m_id ` set (shard_rows db i)"

definition admissible :: "nat \<Rightarrow> enqueue_input list \<Rightarrow> database \<Rightarrow> bool" where
  "admissible i inputs db \<longleftrightarrow> i < length (db_shards db) \<and> distinct (map ei_id inputs) \<and>
     set (map ei_id inputs) \<inter> shard_ids i db = {}"

lemma enqueue_items_progress:
  "\<forall>a. tj a \<noteq> None \<Longrightarrow> distinct (map (ei_id \<circ> snd) items) \<Longrightarrow>
   set (map (ei_id \<circ> snd) items) \<inter> m_id ` set rows = {} \<Longrightarrow>
   \<exists>r. enqueue_items ch tj no_faults clock k items rows acc = Inr r"
proof (induction items arbitrary: k rows acc)
  case (Cons x items)
  obtain index item where x: "x = (index, item)" by (cases x)
  obtain a where a: "tj (ei_attributes item) = Some a" using Cons.prems(1) by blast
  let ?row = "new_msg item a (to_rfc3339 ch (clock index))"
  show ?case
  proof (cases "msg_conflict ?row rows")
    case True
    then obtain y where y: "y \<in> set rows" "m_id y = ei_id item \<or> (ei_key item \<noteq> None \<and> m_key y = ei_key item)"
      by (auto simp: msg_conflict_def new_msg_def)
    moreover have "m_id y \<noteq> ei_id item" using imageI [OF y(1), of m_id] Cons.prems(3) x by auto
    ultimately obtain key where key: "ei_key item = Some key" "m_key y = Some key" by auto
    then obtain r where "find (\<lambda>r. m_key r = Some key) rows = Some r"
      using y(1) by (cases "find (\<lambda>r. m_key r = Some key) rows") (auto simp: find_None_iff)
    then show ?thesis using Cons.IH [of rows] Cons.prems True key a x by auto
  next
    case False
    have "set (map (ei_id \<circ> snd) items) \<inter> m_id ` set (rows @ [?row]) = {}"
      using Cons.prems(2,3) x by (auto simp: new_msg_def)
    then show ?thesis using Cons.IH [of "rows @ [?row]"] Cons.prems(1,2) False a x by auto
  qed
qed simp

lemma enqueue_shards_skip:
  "\<forall>(_, item) \<in> set items. topic_shard (ei_topic item) = i \<Longrightarrow> i \<notin> set is \<Longrightarrow>
   enqueue_shards ch tj flt clock k items is db acc = (db, Inr acc)"
proof (induction "is")
  case (Cons j "is")
  then have "filter (\<lambda>(_, item). topic_shard (ei_topic item) = j) items = []" by (auto simp: filter_empty_conv)
  with Cons show ?case by simp
qed simp

text \<open>A batch of one shard is one transaction: it is stored as a whole or not at all.\<close>

lemma enqueue_shards_one:
  assumes "\<forall>(_, item) \<in> set items. topic_shard (ei_topic item) = i" "items \<noteq> []"
  shows "distinct is \<Longrightarrow> i \<in> set is \<Longrightarrow> enqueue_shards ch tj flt clock k items is db acc =
    (if flt k then (db, Inl DbSql)
     else case enqueue_items ch tj flt clock (k + 1) items (shard_rows db i) acc of
            Inl e \<Rightarrow> (db, Inl e)
          | Inr (rows, acc, k) \<Rightarrow> if flt k then (db, Inl DbSql) else (set_shard i rows db, Inr acc))"
proof (induction "is")
  case (Cons j "is")
  show ?case
  proof (cases "j = i")
    case True
    moreover have "filter (\<lambda>(_, item). topic_shard (ei_topic item) = i) items = items"
      using assms(1) by (auto simp: filter_id_conv)
    ultimately show ?thesis
      using Cons.prems(1) assms enqueue_shards_skip [OF assms(1)]
      by (auto simp: split: sum.splits prod.splits)
  next
    case False
    then have "filter (\<lambda>(_, item). topic_shard (ei_topic item) = j) items = []"
      using assms(1) by (auto simp: filter_empty_conv)
    with False Cons show ?thesis by simp
  qed
qed simp

lemma result_at_enumerate:
  assumes "map fst res = [0..<n]" "j < n"
  shows "result_at res j = snd (snd (res ! j))"
proof -
  have len: "length res = n" using assms(1) by (metis length_map length_upt minus_nat.diff_0)
  have nth: "fst (res ! x) = x" if "x < n" for x using assms(1) len that by (metis add_0 nth_map nth_upt)
  have "find (\<lambda>(x, _). x = j) res = Some (res ! j)"
    unfolding find_Some_iff using len nth assms(2) by (intro exI [of _ j]) (auto simp: split_beta)
  then show ?thesis by (cases "res ! j") (simp add: result_at_def)
qed

lemma enqueue_batch_one:
  fixes i inputs db
  assumes "\<forall>x \<in> set inputs. topic_shard (ei_topic x) = i" "inputs \<noteq> []"
    "enqueue_batch ch tj flt clock ts inputs db = (db', r)"
  shows "(\<forall>e. r = Inl e \<longrightarrow> db' = db) \<and>
    (\<forall>results. r = Inr results \<longrightarrow> (\<exists>rows st. db' = (set_shard i rows db)\<lparr>db_stats := st\<rparr> \<and> length results = length inputs \<and>
       (\<forall>j < length inputs. stored_as tj (inputs ! j) (results ! j) rows) \<and>
       m_id ` set rows \<subseteq> shard_ids i db \<union> ei_id ` set inputs))"
proof -
  let ?items = "enumerate 0 inputs" and ?res = "\<lambda>results. map (result_at results) [0..<length inputs]"
  have "i < MESSAGE_SHARDS" using assms(1,2) topic_shard_less by (cases inputs) auto
  then have i: "i \<in> set [0..<MESSAGE_SHARDS]" by simp
  have items: "\<forall>(_, item) \<in> set ?items. topic_shard (ei_topic item) = i" "?items \<noteq> []"
    using assms(1,2) by (auto simp: enumerate_eq_zip dest!: set_zip_rightD)
  note one = enqueue_shards_one [OF items distinct_upt i]
  show ?thesis
  proof (cases r)
    case (Inl e)
    then show ?thesis
      using assms(3) unfolding enqueue_batch_def one by (auto split: if_splits sum.splits prod.splits)
  next
    case (Inr results)
    then obtain rows acc k where e: "enqueue_items ch tj flt clock 1 ?items (shard_rows db i) [] = Inr (rows, acc, k)"
      and db': "db' = (set_shard i rows db)\<lparr>db_stats := record_batch ch ts acc (db_stats (set_shard i rows db))\<rparr>"
      and results: "results = ?res acc"
      using assms(3) unfolding enqueue_batch_def one by (auto split: if_splits sum.splits prod.splits)
    from enqueue_items_stored [OF e] have acc: "map fst acc = [0..<length inputs]"
      "list_all2 (\<lambda>(_, item) (_, _, result). stored_as tj item result rows) ?items acc" by auto
    have "stored_as tj (inputs ! j) (results ! j) rows" if "j < length inputs" for j
      using list_all2_nthD [OF acc(2), of j] that result_at_enumerate [OF acc(1) that]
      by (simp add: results nth_enumerate_eq split_beta)
    moreover have "m_id ` set rows \<subseteq> shard_ids i db \<union> ei_id ` set inputs"
      using enqueue_items_ids [OF e] image_comp [of ei_id snd "set ?items"]
      by (simp add: shard_ids_def set_map [symmetric] del: set_map)
    ultimately show ?thesis using Inr db' results by auto
  qed
qed

text \<open>Other tasks claim, settle and purge messages of the shard, but only its writer adds any.\<close>

definition adds_no_ids :: "nat \<Rightarrow> (database \<Rightarrow> database) \<Rightarrow> bool" where
  "adds_no_ids i f \<longleftrightarrow> (\<forall>db. length (db_shards (f db)) = length (db_shards db) \<and>
     shard_ids i (f db) \<subseteq> shard_ids i db)"

lemma adds_no_idsD:
  "\<forall>n. adds_no_ids i (f n) \<Longrightarrow> length (db_shards (f n db)) = length (db_shards db)"
  "\<forall>n. adds_no_ids i (f n) \<Longrightarrow> shard_ids i (f n db) \<subseteq> shard_ids i db"
  by (simp_all add: adds_no_ids_def)

lemma admissible_others: "adds_no_ids i f \<Longrightarrow> admissible i inputs db \<Longrightarrow> admissible i inputs (f db)"
  unfolding admissible_def adds_no_ids_def by (metis (no_types, lifting) disjoint_iff subsetD)

lemma enqueue_batch_progress:
  assumes "\<forall>x \<in> set inputs. topic_shard (ei_topic x) = i" "inputs \<noteq> []" "admissible i inputs db" "\<forall>a. tj a \<noteq> None"
  shows "\<exists>db' results. enqueue_batch ch tj no_faults clock ts inputs db = (db', Inr results)"
proof -
  let ?items = "enumerate 0 inputs"
  have "i < MESSAGE_SHARDS" using assms(1,2) topic_shard_less by (cases inputs) auto
  then have i: "i \<in> set [0..<MESSAGE_SHARDS]" by simp
  have items: "\<forall>(_, item) \<in> set ?items. topic_shard (ei_topic item) = i" "?items \<noteq> []"
    using assms(1,2) by (auto simp: enumerate_eq_zip dest!: set_zip_rightD)
  have ids: "map (ei_id \<circ> snd) ?items = map ei_id inputs" by (simp add: map_map [symmetric] del: map_map)
  obtain r where "enqueue_items ch tj no_faults clock (0 + 1) ?items (shard_rows db i) [] = Inr r"
    using enqueue_items_progress [OF assms(4), of ?items "shard_rows db i" ch clock "0 + 1" "[]"] assms(3)
    unfolding ids admissible_def shard_ids_def by blast
  then show ?thesis
    unfolding enqueue_batch_def enqueue_shards_one [OF items distinct_upt i] by (cases r) simp
qed

lemma batch_outcome:
  assumes "\<forall>x \<in> set inputs. topic_shard (ei_topic x) = i" "inputs \<noteq> []"
    "enqueue_batch ch tj flt clock ts inputs db = (db', Inr results)" "admissible i inputs db"
  shows "length results = length inputs \<and> length (db_shards db') = length (db_shards db) \<and>
    (\<forall>j < length inputs. stored_as tj (inputs ! j) (results ! j) (shard_rows db' i)) \<and>
    shard_ids i db' \<subseteq> shard_ids i db \<union> ei_id ` set inputs"
proof -
  obtain rows st where "db' = (set_shard i rows db)\<lparr>db_stats := st\<rparr>" "length results = length inputs"
    "\<forall>j < length inputs. stored_as tj (inputs ! j) (results ! j) rows"
    "m_id ` set rows \<subseteq> shard_ids i db \<union> ei_id ` set inputs"
    using enqueue_batch_one [OF assms(1-3)] by auto
  then show ?thesis using assms(4) by (simp add: admissible_def set_shard_def shard_ids_def)
qed

lemma persist_stores:
  assumes "\<forall>x \<in> set inputs. topic_shard (ei_topic x) = i" "inputs \<noteq> []" "\<forall>a. we_json env a \<noteq> None"
    "\<forall>n. adds_no_ids i (we_others env n)" "we_faults env m = no_faults"
  shows "n \<le> m \<Longrightarrow> admissible i inputs db \<Longrightarrow> 10 \<le> wait \<Longrightarrow> wait \<le> 1000 \<Longrightarrow> \<forall>p \<in> set pauses. 10 \<le> p \<and> p \<le> 1000 \<Longrightarrow>
    \<exists>db' results n' pauses'. persist env inputs n wait pauses db = Some (db', results, n', pauses') \<and> n < n' \<and> n' \<le> m + 1 \<and>
      length results = length inputs \<and> length (db_shards db') = length (db_shards db) \<and>
      (\<forall>j < length inputs. stored_as (we_json env) (inputs ! j) (results ! j) (shard_rows db' i)) \<and>
      shard_ids i db' \<subseteq> shard_ids i db \<union> ei_id ` set inputs \<and>
      (\<forall>p \<in> set pauses'. 10 \<le> p \<and> p \<le> 1000)"
proof (induction "m - n" arbitrary: n wait pauses db)
  case (0 n)
  then have n: "n = m" by simp
  define db0 where "db0 = we_others env n db"
  have adm: "admissible i inputs db0" using admissible_others 0(3) assms(4) by (simp add: db0_def)
  obtain db' results where e: "enqueue_batch (we_chrono env) (we_json env) (we_faults env n) (we_clock env n) (we_now env n)
      inputs db0 = (db', Inr results)"
    using enqueue_batch_progress [OF assms(1,2) adm assms(3)] assms(5) n by metis
  show ?case
    using batch_outcome [OF assms(1,2) e adm] adds_no_idsD [OF assms(4), of n db] e n 0(6)
    by (subst persist.simps) (simp add: db0_def, blast)
next
  case (Suc d)
  define db0 where "db0 = we_others env n db"
  have adm: "admissible i inputs db0" using admissible_others Suc(4) assms(4) by (simp add: db0_def)
  obtain db' r where e: "enqueue_batch (we_chrono env) (we_json env) (we_faults env n) (we_clock env n) (we_now env n)
      inputs db0 = (db', r)" by (meson surj_pair)
  show ?case
  proof (cases r)
    case (Inl x)
    then have "db' = db0" using enqueue_batch_one [OF assms(1,2) e] by simp
    with e Inl have p: "persist env inputs n wait pauses db =
        persist env inputs (n + 1) (min (wait * 2) 1000) (pauses @ [wait]) db0"
      by (subst persist.simps) (simp add: db0_def)
    have "d = m - (n + 1)" "n + 1 \<le> m" using Suc(2) by auto
    from Suc(1) [OF this adm, of "min (wait * 2) 1000" "pauses @ [wait]"] Suc(5-7)
    obtain db2 results n' pauses' where "persist env inputs n wait pauses db = Some (db2, results, n', pauses')"
      "n < n'" "n' \<le> m + 1" "length results = length inputs" "length (db_shards db2) = length (db_shards db0)"
      "\<forall>j < length inputs. stored_as (we_json env) (inputs ! j) (results ! j) (shard_rows db2 i)"
      "shard_ids i db2 \<subseteq> shard_ids i db0 \<union> ei_id ` set inputs"
      "\<forall>p \<in> set pauses'. 10 \<le> p \<and> p \<le> 1000" unfolding p by auto
    moreover have "length (db_shards db0) = length (db_shards db)" "shard_ids i db0 \<subseteq> shard_ids i db"
      using adds_no_idsD [OF assms(4), of n db] by (simp_all add: db0_def)
    ultimately show ?thesis by (intro exI conjI) (assumption | simp | blast)+
  next
    case (Inr results)
    with e have e': "enqueue_batch (we_chrono env) (we_json env) (we_faults env n) (we_clock env n) (we_now env n)
      inputs db0 = (db', Inr results)" by simp
    show ?thesis
      using batch_outcome [OF assms(1,2) e' adm] adds_no_idsD [OF assms(4), of n db] e' Suc(3,7)
      by (subst persist.simps) (simp add: db0_def, blast)
  qed
qed

subsection \<open>The loop of the writer\<close>

text \<open>Settling changes no content of a stored message.\<close>

definition contents :: "nat \<Rightarrow> database \<Rightarrow> msg_content set" where
  "contents i db = content ` set (shard_rows db i)"

lemma shard_ids_contents: "shard_ids i db = fst ` contents i db"
  by (simp add: shard_ids_def contents_def image_image content_def)

lemma deliver_items_content: "deliver_items flt k now items rows acc = Inr (rows', acc', k') \<Longrightarrow> map content rows' = map content rows"
proof (induction flt k now items rows acc rule: deliver_items.induct)
  case (2 flt k now index mid lease items rows acc)
  have "map content (snd (sql_update (leased mid lease) (delivered_update now) rows)) = map content rows"
    by (simp add: sql_update_def delivered_update_def content_def)
  with 2 show ?case by (auto split: if_splits)
qed simp

lemma deliver_shards_content:
  "contents i (fst (deliver_shards flt k now routed is db acc)) = contents i db \<and>
   length (db_shards (fst (deliver_shards flt k now routed is db acc))) = length (db_shards db)"
proof (induction "is" arbitrary: k db acc)
  case (Cons j "is")
  have "contents i (set_shard j rows db) = contents i db"
    if "deliver_items flt k' now items (shard_rows db j) acc' = Inr (rows, acc'', k'')" for rows acc' acc'' k' k'' items
  proof -
    have "content ` set rows = content ` set (shard_rows db j)" using deliver_items_content [OF that] by (metis set_map)
    then show ?thesis by (cases "j < length (db_shards db)") (simp_all add: contents_def set_shard_def nth_list_update list_update_beyond)
  qed
  then show ?case
    by (auto simp: Let_def Cons.IH set_shard_def [THEN arg_cong [of _ _ "\<lambda>d. length (db_shards d)"]] split: sum.splits prod.splits)
qed simp

lemma delivered_batch_content:
  "contents i (fst (delivered_batch ch flt now ts ms db)) = contents i db \<and>
   length (db_shards (fst (delivered_batch ch flt now ts ms db))) = length (db_shards db)"
proof (cases "route_messages flt 0 (enumerate 0 ms) db")
  case (Inr x)
  obtain routed k where x: "x = (routed, k)" by (cases x)
  show ?thesis
    using deliver_shards_content [of i flt k "to_rfc3339 ch now" routed "[0..<MESSAGE_SHARDS]" db "[]"]
    by (auto simp: delivered_batch_def Inr x contents_def split: prod.splits sum.splits)
qed (simp add: delivered_batch_def)

lemma delivered_batch_ids:
  "shard_ids i (fst (delivered_batch ch flt now ts ms db)) = shard_ids i db \<and>
   length (db_shards (fst (delivered_batch ch flt now ts ms db))) = length (db_shards db)"
  using delivered_batch_content [of i ch flt now ts ms db] by (simp add: shard_ids_contents)

lemma delivered_batch_length: "delivered_batch ch flt now ts ms db = (db', Inr results) \<Longrightarrow> length results = length ms"
  by (auto simp: delivered_batch_def split: sum.splits prod.splits)

text \<open>Who a reply is for.\<close>

fun reply_to :: "'r reply \<Rightarrow> 'r" where
  "reply_to (Settled r _) = r"
| "reply_to (Stopped r) = r"

lemma write_delivers_effect:
  "map reply_to (ws_replies (write_delivers env ds s)) = map reply_to (ws_replies s) @ map (snd \<circ> snd) ds \<and>
   ws_stored (write_delivers env ds s) = ws_stored s"
proof (cases "ds = []")
  case False
  let ?call = "delivered_batch (we_chrono env) (we_faults env (ws_calls s)) (we_clock env (ws_calls s) 0)
    (we_now env (ws_calls s)) (map (\<lambda>(mid, lease, _). (mid, lease)) ds) (we_others env (ws_calls s) (ws_db s))"
  obtain db r where c: "?call = (db, r)" by (meson surj_pair)
  show ?thesis
  proof (cases r)
    case (Inl e)
    then show ?thesis using False c by (auto simp: write_delivers_def Let_def)
  next
    case (Inr results)
    have "length results = length ds" using c Inr by (auto dest: delivered_batch_length)
    then have "map (reply_to \<circ> (\<lambda>((_, _, r), ok). Settled r (Inr ok))) (zip ds results) = map (snd \<circ> snd) ds"
      by (intro nth_equalityI) (auto simp: split_beta)
    then show ?thesis using False c Inr by (simp add: write_delivers_def Let_def)
  qed
qed (simp add: write_delivers_def)

lemma write_delivers_ids:
  assumes "\<forall>n. adds_no_ids i (we_others env n)"
  shows "length (db_shards (ws_db (write_delivers env ds s))) = length (db_shards (ws_db s)) \<and>
    shard_ids i (ws_db (write_delivers env ds s)) \<subseteq> shard_ids i (ws_db s)"
proof -
  let ?n = "ws_calls s"
  let ?db = "we_others env ?n (ws_db s)"
  let ?call = "delivered_batch (we_chrono env) (we_faults env ?n) (we_clock env ?n 0) (we_now env ?n)
    (map (\<lambda>(mid, lease, _). (mid, lease)) ds) ?db"
  have "ws_db (write_delivers env ds s) = ws_db s \<or> ws_db (write_delivers env ds s) = fst ?call"
    by (auto simp: write_delivers_def Let_def split: prod.splits sum.splits)
  moreover have "shard_ids i (fst ?call) = shard_ids i ?db \<and> length (db_shards (fst ?call)) = length (db_shards ?db)"
    by (rule delivered_batch_ids)
  ultimately show ?thesis using adds_no_idsD [OF assms, of ?n "ws_db s"] by auto
qed

fun is_shutdown :: "'r write_command \<Rightarrow> bool" where
  "is_shutdown (Shutdown _) \<longleftrightarrow> True"
| "is_shutdown _ \<longleftrightarrow> False"

lemma collect_batch_split:
  "collect_batch room window cs = (batch, stop, rest) \<Longrightarrow>
   cs = batch @ (case stop of None \<Rightarrow> [] | Some r \<Rightarrow> [Shutdown r]) @ rest \<and> (\<forall>c \<in> set batch. \<not> is_shutdown c)"
proof (induction room window cs arbitrary: batch rule: collect_batch.induct)
  case (2 room window c cs)
  then show ?case by (cases c) (auto split: if_splits prod.splits)
qed simp

lemma enqueues_append [simp]: "enqueues (xs @ ys) = enqueues xs @ enqueues ys"
  by (induction xs rule: enqueues.induct) simp_all

lemma delivers_append [simp]: "delivers (xs @ ys) = delivers xs @ delivers ys"
  by (induction xs rule: delivers.induct) simp_all

lemma enqueues_eq: "enqueues cs = [input. Enqueue input \<leftarrow> cs]"
  by (induction cs rule: enqueues.induct) simp_all

lemma delivers_eq: "map (snd \<circ> snd) (delivers cs) = [r. Deliver mid lease r \<leftarrow> cs]"
  by (induction cs rule: delivers.induct) simp_all

lemma enqueues_on_shard: "list_all (on_shard i) cs \<Longrightarrow> \<forall>x \<in> set (enqueues cs). topic_shard (ei_topic x) = i"
  by (induction cs rule: enqueues.induct) auto

lemma admissible_less: "admissible i inputs db \<Longrightarrow> shard_ids i db' \<subseteq> shard_ids i db \<Longrightarrow>
  length (db_shards db') = length (db_shards db) \<Longrightarrow> admissible i inputs db'"
  unfolding admissible_def by auto

lemma write_enqueues_ok:
  assumes "\<forall>x \<in> set inputs. topic_shard (ei_topic x) = i" "\<forall>a. we_json env a \<noteq> None"
    "\<forall>n. adds_no_ids i (we_others env n)" "\<forall>n. \<exists>m \<ge> n. we_faults env m = no_faults"
    "admissible i (inputs @ later) (ws_db s)"
  shows "\<exists>s'. write_enqueues env inputs s = Some s' \<and> map fst (ws_stored s') = map fst (ws_stored s) @ inputs \<and>
    ws_replies s' = ws_replies s \<and> admissible i later (ws_db s')"
proof (cases "inputs = []")
  case False
  obtain m where m: "ws_calls s \<le> m" "we_faults env m = no_faults" using assms(4) by blast
  have adm: "admissible i inputs (ws_db s)" using assms(5) by (auto simp: admissible_def)
  obtain db' results n' pauses' where p: "persist env inputs (ws_calls s) 10 [] (ws_db s) = Some (db', results, n', pauses')"
    "length results = length inputs" "length (db_shards db') = length (db_shards (ws_db s))"
    "shard_ids i db' \<subseteq> shard_ids i (ws_db s) \<union> ei_id ` set inputs"
    using persist_stores [OF assms(1) False assms(2,3) m(2) m(1) adm, of 10 "[]"] by auto
  have "admissible i later db'"
    using assms(5) p(3,4) unfolding admissible_def map_append set_append distinct_append set_map by (simp only:) blast
  with False p(1,2) show ?thesis by (simp add: write_enqueues_def)
next
  case True
  then show ?thesis using assms(5) by (simp add: write_enqueues_def)
qed

fun stop_reply :: "'r write_command list \<Rightarrow> 'r list" where
  "stop_reply [] = []"
| "stop_reply (Shutdown r # _) = [r]"
| "stop_reply (_ # cs) = stop_reply cs"

abbreviation before_stop :: "'r write_command list \<Rightarrow> 'r write_command list" where
  "before_stop cs \<equiv> takeWhile (\<lambda>c. \<not> is_shutdown c) cs"

lemma stop_reply_append: "\<forall>c \<in> set cs. \<not> is_shutdown c \<Longrightarrow> stop_reply (cs @ ds) = stop_reply ds"
  by (induction cs rule: stop_reply.induct) auto

text \<open>One round of the loop.\<close>

lemma run_writer_round:
  assumes env: "\<forall>a. we_json env a \<noteq> None" "\<forall>n. adds_no_ids i (we_others env n)" "\<forall>n. \<exists>m \<ge> n. we_faults env m = no_faults"
    and c: "\<not> is_shutdown c" "collect_batch (max (we_batch_size env) 1 - 1) (we_window env b) cs = (batch, stop, rest)"
    and on: "list_all (on_shard i) (c # batch)" and adm: "admissible i (enqueues (c # batch) @ enqueues rest) (ws_db s)"
  shows "\<exists>s2. run_writer env b (c # cs) s = (case stop of
        Some r \<Rightarrow> Some (s2\<lparr>ws_replies := ws_replies s2 @ [Stopped r]\<rparr>, rest) | None \<Rightarrow> run_writer env (b + 1) rest s2) \<and>
    map fst (ws_stored s2) = map fst (ws_stored s) @ enqueues (c # batch) \<and>
    map reply_to (ws_replies s2) = map reply_to (ws_replies s) @ map (snd \<circ> snd) (delivers (c # batch)) \<and>
    admissible i (enqueues rest) (ws_db s2)"
proof -
  let ?e = "enqueues (c # batch)" and ?d = "delivers (c # batch)"
  from write_enqueues_ok [OF enqueues_on_shard [OF on] env adm]
  obtain s1 where s1: "write_enqueues env ?e s = Some s1" "map fst (ws_stored s1) = map fst (ws_stored s) @ ?e"
    "ws_replies s1 = ws_replies s" "admissible i (enqueues rest) (ws_db s1)" by blast
  define s2 where "s2 = write_delivers env ?d s1"
  have "run_writer env b (c # cs) s = (case stop of
      Some r \<Rightarrow> Some (s2\<lparr>ws_replies := ws_replies s2 @ [Stopped r]\<rparr>, rest) | None \<Rightarrow> run_writer env (b + 1) rest s2)"
    using c s1(1) by (subst run_writer.simps) (cases c; cases stop; simp add: s2_def)
  moreover have "admissible i (enqueues rest) (ws_db s2)"
    using admissible_less [OF s1(4)] write_delivers_ids [OF env(2), of ?d s1] by (simp add: s2_def)
  moreover have "map reply_to (ws_replies s2) = map reply_to (ws_replies s) @ map (snd \<circ> snd) ?d" "ws_stored s2 = ws_stored s1"
    using write_delivers_effect [of env ?d s1] s1(3) by (simp_all add: s2_def)
  ultimately show ?thesis using s1(2) by auto
qed

lemma run_writer_drains:
  assumes env: "\<forall>a. we_json env a \<noteq> None" "\<forall>n. adds_no_ids i (we_others env n)" "\<forall>n. \<exists>m \<ge> n. we_faults env m = no_faults"
  shows "list_all (on_shard i) cs \<Longrightarrow> admissible i (enqueues cs) (ws_db s) \<Longrightarrow>
    \<exists>s'. run_writer env b cs s = Some (s', drop (Suc (length (before_stop cs))) cs) \<and>
      map fst (ws_stored s') = map fst (ws_stored s) @ enqueues (before_stop cs) \<and>
      map reply_to (ws_replies s') = map reply_to (ws_replies s) @ map (snd \<circ> snd) (delivers (before_stop cs)) @ stop_reply cs"
proof (induction cs arbitrary: b s rule: length_induct)
  case (1 cs)
  consider "cs = []" | r cs' where "cs = Shutdown r # cs'" | c cs' where "cs = c # cs'" "\<not> is_shutdown c"
    by (metis is_shutdown.elims(2) neq_Nil_conv)
  then show ?case
  proof cases
    case 1
    then show ?thesis by (subst run_writer.simps) simp
  next
    case 2
    then show ?thesis by (subst run_writer.simps) simp
  next
    case (3 c cs')
    obtain batch stop rest where col: "collect_batch (max (we_batch_size env) 1 - 1) (we_window env b) cs' = (batch, stop, rest)"
      by (metis prod_cases3)
    let ?stop = "case stop of None \<Rightarrow> [] | Some r \<Rightarrow> [Shutdown r]"
    from collect_batch_split [OF col] have cs: "cs = (c # batch) @ ?stop @ rest" and nb: "\<forall>x \<in> set (c # batch). \<not> is_shutdown x"
      using 3 by auto
    have "enqueues cs = enqueues (c # batch) @ enqueues rest" unfolding cs enqueues_append by (cases stop) simp_all
    then obtain s2 where s2: "run_writer env b cs s = (case stop of
        Some r \<Rightarrow> Some (s2\<lparr>ws_replies := ws_replies s2 @ [Stopped r]\<rparr>, rest) | None \<Rightarrow> run_writer env (b + 1) rest s2)"
      "map fst (ws_stored s2) = map fst (ws_stored s) @ enqueues (c # batch)"
      "map reply_to (ws_replies s2) = map reply_to (ws_replies s) @ map (snd \<circ> snd) (delivers (c # batch))"
      "admissible i (enqueues rest) (ws_db s2)"
      using run_writer_round [OF env 3(2) col, of s] "1.prems" 3(1) cs by auto
    have before: "before_stop cs = (c # batch) @ before_stop (?stop @ rest)"
      unfolding cs using nb by (intro takeWhile_append2) auto
    have reply: "stop_reply cs = stop_reply (?stop @ rest)" unfolding cs by (rule stop_reply_append [OF nb])
    show ?thesis
    proof (cases stop)
      case (Some r)
      then show ?thesis using s2 unfolding before reply enqueues_append delivers_append by (simp add: cs)
    next
      case None
      have "length rest < length cs" "list_all (on_shard i) rest" using "1.prems"(1) unfolding cs by auto
      then obtain s3 where "run_writer env (b + 1) rest s2 = Some (s3, drop (Suc (length (before_stop rest))) rest)"
        "map fst (ws_stored s3) = map fst (ws_stored s2) @ enqueues (before_stop rest)"
        "map reply_to (ws_replies s3) = map reply_to (ws_replies s2) @ map (snd \<circ> snd) (delivers (before_stop rest)) @ stop_reply rest"
        using "1.IH" s2(4) by blast
      then show ?thesis
        using s2 None unfolding before reply enqueues_append delivers_append by (simp add: cs)
    qed
  qed
qed

subsection \<open>Properties\<close>

text \<open>C13. Admission is total and idempotent: with a running writer, publishing under a key returns, and
  either reports the id already known for that key, or appends exactly one message to the channel of
  the topic's shard; publishing again under the key reports the same id as a duplicate and changes
  nothing. The cache of recent keys keeps its bound and its eviction loop ends.\<close>

theorem admission_idempotent:
  assumes "writer_ok w" "ch_open (qw_tx w ! topic_shard topic)" "key \<noteq> []"
  shows "\<exists>w1 mid dup. writer_enqueue uuid (Some key) topic payload attributes w = Some (w1, Inr (mid, dup)) \<and> writer_ok w1 \<and>
    (if dup then w1 = w
     else mid = new_message_id topic uuid \<and>
       ch_waiting (qw_tx w1 ! topic_shard topic) = ch_waiting (qw_tx w ! topic_shard topic) @
         [Enqueue \<lparr>ei_id = mid, ei_key = Some key, ei_topic = topic, ei_payload = payload, ei_attributes = attributes\<rparr>]) \<and>
    writer_enqueue uuid' (Some key) topic payload' attributes' w1 = Some (w1, Inr (mid, True))"
proof (cases "recent_get key (qw_recent w ! topic_shard topic)")
  case (Some known)
  then show ?thesis using assms by (auto simp: writer_enqueue_def Let_def)
next
  case None
  let ?i = "topic_shard topic"
  let ?in = "\<lparr>ei_id = new_message_id topic uuid, ei_key = Some key, ei_topic = topic, ei_payload = payload, ei_attributes = attributes\<rparr>"
  let ?ch = "(qw_tx w ! ?i)\<lparr>ch_waiting := ch_waiting (qw_tx w ! ?i) @ [Enqueue ?in]\<rparr>"
  obtain r where e: "writer_enqueue uuid (Some key) topic payload attributes w =
      Some (w\<lparr>qw_recent := (qw_recent w)[?i := r], qw_tx := (qw_tx w)[?i := ?ch]\<rparr>, Inr (new_message_id topic uuid, False))"
    and r: "ri_ok r" "recent_get key r = Some (new_message_id topic uuid)"
    using writer_enqueue_fresh [OF assms(1) None assms(3,2)] by blast
  have ok: "writer_ok (w\<lparr>qw_recent := (qw_recent w)[?i := r], qw_tx := (qw_tx w)[?i := ?ch]\<rparr>)"
    using assms(2) by (intro writer_ok_step [OF assms(1) r(1), where c = "Enqueue ?in"] topic_shard_16) (simp_all add: send_command_def)
  have len: "?i < length (qw_recent w)" "?i < length (qw_tx w)" using assms(1) topic_shard_16 by (simp_all add: writer_ok_def)
  have "writer_enqueue uuid' (Some key) topic payload' attributes' (w\<lparr>qw_recent := (qw_recent w)[?i := r], qw_tx := (qw_tx w)[?i := ?ch]\<rparr>) =
      Some (w\<lparr>qw_recent := (qw_recent w)[?i := r], qw_tx := (qw_tx w)[?i := ?ch]\<rparr>, Inr (new_message_id topic uuid, True))"
    using r(2) assms(3) len by (simp add: writer_enqueue_def Let_def)
  with e ok len show ?thesis by auto
qed

definition idle_writer :: "nat queue_writer" where
  "idle_writer = \<lparr>qw_tx = replicate 16 \<lparr>ch_open = True, ch_waiting = []\<rparr>, qw_recent = replicate 16 (recent_new 64),
     qw_notifications = \<lparr>nt_topics = [], nt_global = None\<rparr>, qw_stats_stopped = False\<rparr>"

theorem admission_idempotent_witness:
  "\<exists>w1 mid dup. writer_enqueue ''u'' (Some ''k'') ''jobs'' [1] [] idle_writer = Some (w1, Inr (mid, dup)) \<and> writer_ok w1 \<and>
    (if dup then w1 = idle_writer
     else mid = new_message_id ''jobs'' ''u'' \<and>
       ch_waiting (qw_tx w1 ! topic_shard ''jobs'') = ch_waiting (qw_tx idle_writer ! topic_shard ''jobs'') @
         [Enqueue \<lparr>ei_id = mid, ei_key = Some ''k'', ei_topic = ''jobs'', ei_payload = [1], ei_attributes = []\<rparr>]) \<and>
    writer_enqueue ''v'' (Some ''k'') ''jobs'' [2] [] w1 = Some (w1, Inr (mid, True))"
  by (rule admission_idempotent) (simp_all add: idle_writer_def writer_ok_def topic_shard_16)

text \<open>Admitted messages reach the database: whatever statements fail and whatever other tasks do to
  the database meanwhile, as soon as one attempt meets no failure the retry loop ends, every message of the
  batch is stored under the id reported for it (its own, or that of the message with its key), and no
  pause between the attempts is shorter than 10 or longer than 1000 milliseconds.\<close>

theorem batch_persisted:
  assumes "\<forall>x \<in> set inputs. topic_shard (ei_topic x) = i" "inputs \<noteq> []" "\<forall>a. we_json env a \<noteq> None"
    "\<forall>n. adds_no_ids i (we_others env n)" "we_faults env m = no_faults" "n \<le> m" "admissible i inputs db"
  shows "\<exists>db' results n' pauses. persist env inputs n 10 [] db = Some (db', results, n', pauses) \<and> n' \<le> m + 1 \<and>
    length results = length inputs \<and>
    (\<forall>j < length inputs. stored_as (we_json env) (inputs ! j) (results ! j) (shard_rows db' i)) \<and>
    (\<forall>p \<in> set pauses. 10 \<le> p \<and> p \<le> 1000)"
  using persist_stores [OF assms, of 10 "[]"] by auto

definition flaky_env :: worker_env where
  "flaky_env = \<lparr>we_chrono = plain_chrono, we_json = (\<lambda>_. Some ''{}''), we_faults = (\<lambda>n k. even n \<and> k = 1),
     we_clock = (\<lambda>_ _. 5), we_now = (\<lambda>_. 5), we_others = (\<lambda>_ db. db), we_window = (\<lambda>_. 3), we_batch_size = 2\<rparr>"

definition sample_input :: "string \<Rightarrow> enqueue_input" where
  "sample_input uuid = \<lparr>ei_id = uuid, ei_key = None, ei_topic = ''jobs'', ei_payload = [7], ei_attributes = []\<rparr>"

lemma flaky_env_ok:
  "\<forall>a. we_json flaky_env a \<noteq> None" "\<forall>n. adds_no_ids i (we_others flaky_env n)"
  "odd m \<Longrightarrow> we_faults flaky_env m = no_faults"
  by (simp_all add: flaky_env_def adds_no_ids_def fun_eq_iff)

lemma flaky_env_recovers: "\<forall>n. \<exists>m \<ge> n. we_faults flaky_env m = no_faults"
proof
  fix n show "\<exists>m \<ge> n. we_faults flaky_env m = no_faults" using flaky_env_ok(3) [of "2 * n + 1"] by (intro exI [of _ "2 * n + 1"]) simp
qed

lemma sample_admissible:
  "distinct uuids \<Longrightarrow> admissible (topic_shard ''jobs'') (map sample_input uuids) empty_db"
  using topic_shard_less [of "''jobs''"] by (simp add: admissible_def shard_ids_def empty_db_def sample_input_def comp_def)

theorem batch_persisted_witness:
  "\<exists>db' results n' pauses. persist flaky_env (map sample_input [''a'', ''b'']) 0 10 [] empty_db = Some (db', results, n', pauses) \<and>
    n' \<le> 1 + 1 \<and> length results = length (map sample_input [''a'', ''b'']) \<and>
    (\<forall>j < length (map sample_input [''a'', ''b'']).
       stored_as (we_json flaky_env) (map sample_input [''a'', ''b''] ! j) (results ! j) (shard_rows db' (topic_shard ''jobs''))) \<and>
    (\<forall>p \<in> set pauses. 10 \<le> p \<and> p \<le> 1000)"
  by (rule batch_persisted) (use flaky_env_ok sample_admissible [of "[''a'', ''b'']"] in \<open>simp_all add: sample_input_def\<close>)


definition sample_commands :: "nat write_command list" where
  "sample_commands = [Enqueue (sample_input ''a''), Deliver ''x'' ''l'' 1, Enqueue (sample_input ''b''), Shutdown 2,
     Enqueue (sample_input ''c'')]"

definition fresh_worker :: "nat worker_state" where
  "fresh_worker = \<lparr>ws_db = empty_db, ws_notifications = \<lparr>nt_topics = [], nt_global = None\<rparr>, ws_calls = 0, ws_stored = [], ws_replies = []\<rparr>"


end
