(* ===== verification/Delivery.thy ===== *)
theory Delivery
  imports Writer Subscribers
begin

text \<open>
  Ingestion and delivery of messages, \<open>src/src/delivery.rs\<close>: \<open>ingest\<close> with the direct fan-out of
  ephemeral topics, and the phases of \<open>run_subscribe_loop\<close>: claiming, sending, waiting for
  acknowledgements, settlement and the end of a subscription. What a call meets (failing
  statements, clock readings, fresh identifiers, receivers that accept in time) comes from an
  environment record. \<open>'s\<close> is the type of message senders, \<open>'a\<close> that of acknowledgement
  channels, \<open>'r\<close> that of writer replies, \<open>'j\<close> that of JSON values.
\<close>

record satway_message =
  sw_message_id :: string
  sw_topic :: string
  sw_payload :: bytes
  sw_attributes :: "(string, string) hmap"
  sw_created_at :: string
  sw_lease :: string

record ('s, 'a, 'r) broker =
  br_db :: database
  br_writer :: "'r queue_writer"
  br_subs :: "'s topic_subscribers"
  br_inflight :: "'a inflight_acks"

text \<open>\<open>de_faults n\<close> are the failing statements of the \<open>n\<close>-th database call of the step.\<close>

record ('s, 'a, 'j) delivery_env =
  de_chrono :: chrono
  de_json :: "string \<Rightarrow> 'j option"
  de_object :: "'j \<Rightarrow> (string \<times> 'j) list option"
  de_string :: "'j \<Rightarrow> string option"
  de_faults :: "nat \<Rightarrow> faults"
  de_clock :: "nat \<Rightarrow> int"
  de_uuid :: "nat \<Rightarrow> string"
  de_accepts :: "nat \<Rightarrow> 's \<Rightarrow> bool"
  de_channel :: "nat \<Rightarrow> 'a"

abbreviation set_stats :: "stats \<Rightarrow> database \<Rightarrow> database" where
  "set_stats st db \<equiv> db\<lparr>db_stats := st\<rparr>"

fun string_items :: "('j \<Rightarrow> string option) \<Rightarrow> (string \<times> 'j) list \<Rightarrow> (string, string) hmap \<Rightarrow> (string, string) hmap" where
  "string_items as_str [] m = m"
| "string_items as_str ((key, item) # items) m =
     string_items as_str items (case as_str item of None \<Rightarrow> m | Some value \<Rightarrow> hput key value m)"

definition attrs_to_map ::
  "('j \<Rightarrow> (string \<times> 'j) list option) \<Rightarrow> ('j \<Rightarrow> string option) \<Rightarrow> 'j \<Rightarrow> (string, string) hmap" where
  "attrs_to_map as_object as_str value =
     (case as_object value of None \<Rightarrow> [] | Some items \<Rightarrow> string_items as_str items [])"

subsection \<open>Ingestion\<close>

datatype ingested = Queued string bool | Dropped string

datatype ingest_error = IngestDb | IngestWriter

text \<open>The loop over the senders: the \<open>n\<close>-th send succeeds when its receiver accepts in time.\<close>

fun fan_out :: "(nat \<Rightarrow> 's \<Rightarrow> bool) \<Rightarrow> nat \<Rightarrow> (string \<times> 's) list \<Rightarrow> 's list" where
  "fan_out accepts n [] = []"
| "fan_out accepts n ((_, sender) # senders) =
     (if accepts n sender then sender # fan_out accepts (n + 1) senders else fan_out accepts (n + 1) senders)"

definition drop_message ::
  "('s, 'a, 'j) delivery_env \<Rightarrow> nat \<Rightarrow> string \<Rightarrow> ('s, 'a, 'r) broker \<Rightarrow> ('s, 'a, 'r) broker \<times> (ingest_error + ingested)" where
  "drop_message env n topic br =
     (case accept_dropped (de_chrono env) (de_faults env n) (de_clock env n) (de_clock env n) (de_clock env n)
             (de_uuid env n) topic (db_stats (br_db br)) of
        (st, Inl _) \<Rightarrow> (br\<lparr>br_db := set_stats st (br_db br)\<rparr>, Inl IngestDb)
      | (st, Inr mid) \<Rightarrow> (br\<lparr>br_db := set_stats st (br_db br)\<rparr>, Inr (Dropped mid)))"

text \<open>The result also lists the messages sent and their senders.\<close>

definition fanout_ephemeral ::
  "('s, 'a, 'j) delivery_env \<Rightarrow> string \<Rightarrow> bytes \<Rightarrow> (string, string) hmap \<Rightarrow> delivery_mode \<Rightarrow> ('s, 'a, 'r) broker
   \<Rightarrow> ('s, 'a, 'r) broker \<times> (ingest_error + ingested) \<times> ('s \<times> satway_message) list" where
  "fanout_ephemeral env topic payload attributes delivery br =
     (let senders = matching_senders topic (br_subs br);
          senders = (if delivery = Single then take 1 senders else senders)
      in if senders = [] then (let (br, res) = drop_message env 1 topic br in (br, res, []))
         else let mid = de_uuid env 0;
                  outgoing = \<lparr>sw_message_id = mid, sw_topic = topic, sw_payload = payload, sw_attributes = attributes,
                              sw_created_at = to_rfc3339 (de_chrono env) (de_clock env 0), sw_lease = []\<rparr>;
                  sent = fan_out (de_accepts env) 0 senders
              in if sent = [] then (let (br, res) = drop_message env 1 topic br in (br, res, []))
                 else (case record_live_fanout (de_chrono env) (de_faults env 1) (de_clock env 1) (de_clock env 1)
                              topic (db_stats (br_db br)) of
                         (st, Inl _) \<Rightarrow> (br\<lparr>br_db := set_stats st (br_db br)\<rparr>, Inl IngestDb, map (\<lambda>s. (s, outgoing)) sent)
                       | (st, Inr _) \<Rightarrow>
                           (br\<lparr>br_db := set_stats st (br_db br)\<rparr>, Inr (Queued mid False), map (\<lambda>s. (s, outgoing)) sent)))"

text \<open>\<open>None\<close> is an admission that does not return.\<close>

definition ingest ::
  "('s, 'a, 'j) delivery_env \<Rightarrow> string \<Rightarrow> bytes \<Rightarrow> (string, string) hmap \<Rightarrow> string option \<Rightarrow> ('s, 'a, 'r) broker
   \<Rightarrow> (('s, 'a, 'r) broker \<times> (ingest_error + ingested) \<times> ('s \<times> satway_message) list) option" where
  "ingest env topic payload attributes idempotency_key br =
     (let (st, config) = db_topic_config (de_faults env 0) topic (db_stats (br_db br));
          settings = (case config of Inl _ \<Rightarrow> implicit topic | Inr c \<Rightarrow> c);
          br = br\<lparr>br_db := set_stats st (br_db br)\<rparr>
      in if tc_persistence settings = Ephemeral
         then Some (fanout_ephemeral env topic payload attributes (tc_delivery settings) br)
         else Option.bind (writer_enqueue (de_uuid env 0) idempotency_key topic payload attributes (br_writer br))
                (\<lambda>(w, res).
                   Some (br\<lparr>br_writer := w\<rparr>,
                         (case res of Inl _ \<Rightarrow> Inl IngestWriter | Inr (mid, duplicate) \<Rightarrow> Inr (Queued mid duplicate)), [])))"

subsection \<open>The subscribe loop\<close>

record loop_config =
  lc_ack_timeout_secs :: nat
  lc_consumer_ttl_secs :: nat
  lc_consumer_prefetch :: nat
  lc_claim_batch_size :: nat
  lc_max_delivery_attempts :: int

text \<open>Durations in nanoseconds.\<close>

definition visibility :: "loop_config \<Rightarrow> nat" where
  "visibility cfg = max (lc_ack_timeout_secs cfg) 1 * 10 ^ 9"

definition heartbeat_every :: "loop_config \<Rightarrow> nat" where
  "heartbeat_every cfg =
     (if lc_consumer_ttl_secs cfg = 0 then 30 else max 1 (min 30 (lc_consumer_ttl_secs cfg div 3))) * 10 ^ 9"

record ('s, 'j) sub_loop =
  sl_topic :: string
  sl_session :: string
  sl_consumer_id :: string
  sl_tx :: 's
  sl_permits :: nat
  sl_ready :: "('j claimed_message \<times> int) list"
  sl_last_heartbeat :: int

definition loop_start ::
  "loop_config \<Rightarrow> chrono \<Rightarrow> int \<Rightarrow> string \<Rightarrow> string \<Rightarrow> string \<Rightarrow> 's \<Rightarrow> string \<Rightarrow> string \<Rightarrow> string \<Rightarrow> string \<Rightarrow> ('s, 'a, 'r) broker
   \<Rightarrow> ('s, 'a, 'r) broker \<times> ('s, 'j) sub_loop \<times> guard \<times> slot" where
  "loop_start cfg ch now topic session consumer_id tx peer protocol version host br =
     (let (subs, g) = guard_new ch now topic session tx peer protocol version host (br_subs br);
          (w, s) = writer_subscribe topic (br_writer br)
      in (br\<lparr>br_subs := subs, br_writer := w\<rparr>,
          \<lparr>sl_topic = topic, sl_session = session, sl_consumer_id = consumer_id, sl_tx = tx,
           sl_permits = max (lc_consumer_prefetch cfg) 1, sl_ready = [], sl_last_heartbeat = now\<rparr>, g, s))"

definition reserved_permits :: "loop_config \<Rightarrow> ('s, 'j) sub_loop \<Rightarrow> nat" where
  "reserved_permits cfg sl = min (sl_permits sl) (max 1 (min 128 (lc_claim_batch_size cfg)))"

text \<open>
  The claim of a batch, when nothing is buffered and a permit is free; permits of messages that
  were not claimed are given back. \<open>Panic\<close> ends the task.
\<close>

definition claim_phase ::
  "('s, 'a, 'j) delivery_env \<Rightarrow> loop_config \<Rightarrow> ('s, 'j) sub_loop \<Rightarrow> database
   \<Rightarrow> database \<times> (('s, 'j) sub_loop \<times> bool) outcome" where
  "claim_phase env cfg sl db =
     (let reserved = reserved_permits cfg sl in
      case claim_batch_for_filter (de_chrono env) (de_json env) (de_faults env 0) (de_clock env) (de_uuid env)
             (sl_topic sl) (visibility cfg) reserved db of
        (db, Panic) \<Rightarrow> (db, Panic)
      | (db, Returned (Inl e)) \<Rightarrow> (db, Returned (sl, False))
      | (db, Returned (Inr ms)) \<Rightarrow>
          let taken = take reserved ms
          in (db, Returned (sl\<lparr>sl_ready := sl_ready sl @ map (\<lambda>m. (m, de_clock env 0)) taken,
                              sl_permits := sl_permits sl - length taken\<rparr>, True)))"

text \<open>The heartbeat of an idle consumer, at most every \<open>heartbeat_every\<close>.\<close>

definition idle_heartbeat ::
  "('s, 'a, 'j) delivery_env \<Rightarrow> loop_config \<Rightarrow> ('s, 'j) sub_loop \<Rightarrow> consumer_row list \<Rightarrow> consumer_row list \<times> ('s, 'j) sub_loop" where
  "idle_heartbeat env cfg sl consumers =
     (if sl_consumer_id sl \<noteq> [] \<and> int (heartbeat_every cfg) \<le> de_clock env 1 - sl_last_heartbeat sl
      then (fst (touch_consumer (de_chrono env) (de_faults env 1) (de_clock env 1) (sl_consumer_id sl) consumers),
            sl\<lparr>sl_last_heartbeat := de_clock env 2\<rparr>)
      else (consumers, sl))"

definition release_message ::
  "('s, 'a, 'j) delivery_env \<Rightarrow> nat \<Rightarrow> 'j claimed_message \<Rightarrow> ('s, 'a, 'r) broker \<Rightarrow> ('s, 'a, 'r) broker" where
  "release_message env n m br =
     (let (db, res) = release (de_chrono env) (de_faults env n) (de_clock env n) (cm_id m) (cm_lease m) (br_db br);
          br = br\<lparr>br_db := db\<rparr>
      in if res = Inr True then br\<lparr>br_writer := notify_ready (cm_topic m) (br_writer br)\<rparr> else br)"

text \<open>A message that has been buffered for half of its visibility is not sent any more.\<close>

definition too_old :: "loop_config \<Rightarrow> int \<Rightarrow> int \<Rightarrow> bool" where
  "too_old cfg now claimed_at \<longleftrightarrow> int (visibility cfg div 2) \<le> now - claimed_at"

definition targets :: "bool \<Rightarrow> ('s, 'j) sub_loop \<Rightarrow> string \<Rightarrow> 's topic_subscribers \<Rightarrow> (string \<times> 's) list" where
  "targets broadcast sl topic subs =
     (if broadcast
      then (let senders = matching_senders topic subs in if senders = [] then [(sl_session sl, sl_tx sl)] else senders)
      else [(sl_session sl, sl_tx sl)])"

text \<open>The sends: each target has its own lease and acknowledgement channel; a failed send is cancelled.\<close>

fun send_targets ::
  "('s, 'a, 'j) delivery_env \<Rightarrow> nat \<Rightarrow> 'j claimed_message \<Rightarrow> (string \<times> 's) list \<Rightarrow> 'a inflight_acks
   \<Rightarrow> 'a inflight_acks \<times> ('s \<times> satway_message) list \<times> (string \<times> 'a) list" where
  "send_targets env n m [] inflight = (inflight, [], [])"
| "send_targets env n m ((_, sender) # senders) inflight =
     (let lease = de_uuid env n; ack = de_channel env n; inflight = ack_register (cm_id m) lease ack inflight;
          outgoing = \<lparr>sw_message_id = cm_id m, sw_topic = cm_topic m, sw_payload = cm_payload m,
                      sw_attributes = attrs_to_map (de_object env) (de_string env) (cm_attributes m),
                      sw_created_at = cm_created_at m, sw_lease = lease\<rparr>
      in if de_accepts env n sender
         then let (inflight, sent, waits) = send_targets env (n + 1) m senders inflight
              in (inflight, (sender, outgoing) # sent, (lease, ack) # waits)
         else send_targets env (n + 1) m senders (ack_cancel lease inflight))"

text \<open>What happens with a message after the sends: it is settled at once, or a task waits for its acknowledgements.\<close>

datatype 'a dispatch = Settled_now | Waiting "(string \<times> 'a) list"

abbreviation NO_SUBSCRIBER :: string where "NO_SUBSCRIBER \<equiv> ''no live subscriber accepted the message''"

definition dispatch_message ::
  "('s, 'a, 'j) delivery_env \<Rightarrow> loop_config \<Rightarrow> ('s, 'j) sub_loop \<Rightarrow> 'j claimed_message \<Rightarrow> ('s, 'a, 'r) broker
   \<Rightarrow> ('s, 'a, 'r) broker \<times> 'a dispatch \<times> ('s \<times> satway_message) list" where
  "dispatch_message env cfg sl m br =
     (let (st, config) = db_topic_config (de_faults env 0) (cm_topic m) (db_stats (br_db br));
          db = set_stats st (br_db br);
          broadcast = (case config of Inl _ \<Rightarrow> False | Inr c \<Rightarrow> tc_delivery c = Broadcast);
          ephemeral = (case config of Inl _ \<Rightarrow> False | Inr c \<Rightarrow> tc_persistence c = Ephemeral);
          (inflight, sent, waits) = send_targets env 0 m (targets broadcast sl (cm_topic m) (br_subs br)) (br_inflight br)
      in if ephemeral \<and> waits \<noteq> []
         then (br\<lparr>br_inflight := fold (\<lambda>(lease, _). ack_cancel lease) waits inflight,
                  br_db := fst (delivered (de_chrono env) (de_faults env 1) (de_clock env 1) (de_clock env 1) (cm_id m) (cm_lease m) db)\<rparr>,
               Settled_now, sent)
         else if waits = []
         then (br\<lparr>br_inflight := inflight,
                  br_db := (if ephemeral
                            then fst (drop_claimed (de_chrono env) (de_faults env 1) (de_clock env 1) (cm_id m) (cm_lease m) NO_SUBSCRIBER db)
                            else fst (failed (de_chrono env) (de_faults env 1) (de_clock env 1) (de_clock env 1) (de_clock env 1)
                                        (cm_id m) (cm_lease m) NO_SUBSCRIBER (lc_max_delivery_attempts cfg) db))\<rparr>,
               Settled_now, sent)
         else (br\<lparr>br_inflight := inflight, br_db := db\<rparr>, Waiting waits, sent))"

text \<open>
  One message of the buffer. The permit goes back unless a task keeps it while it waits.
\<close>

definition next_message ::
  "('s, 'a, 'j) delivery_env \<Rightarrow> loop_config \<Rightarrow> int \<Rightarrow> ('s, 'j) sub_loop \<Rightarrow> ('s, 'a, 'r) broker
   \<Rightarrow> ('s, 'j) sub_loop \<times> ('s, 'a, 'r) broker \<times> ('j claimed_message \<times> (string \<times> 'a) list) option \<times> ('s \<times> satway_message) list" where
  "next_message env cfg now sl br =
     (case sl_ready sl of
        [] \<Rightarrow> (sl, br, None, [])
      | (m, claimed_at) # rest \<Rightarrow>
          let sl = sl\<lparr>sl_ready := rest\<rparr>; free = sl\<lparr>sl_permits := sl_permits sl + 1\<rparr>
          in if too_old cfg now claimed_at then (free, release_message env 0 m br, None, [])
             else (case dispatch_message env cfg sl m br of
                     (br, Settled_now, sent) \<Rightarrow> (free, br, None, sent)
                   | (br, Waiting waits, sent) \<Rightarrow> (sl, br, Some (m, waits), sent)))"

text \<open>What a waiting task sees for an acknowledgement; the flag says that a shutdown was noticed afterwards.\<close>

datatype ack_outcome = Decided ack_decision | Lost | Shutting_down

fun wait_acks :: "(ack_outcome \<times> bool) list \<Rightarrow> bool \<times> string \<Rightarrow> (bool \<times> string) \<times> bool" where
  "wait_acks [] st = (st, False)"
| "wait_acks ((outcome, cancelled) # outcomes) (all_ok, last_error) =
     (let st = (case outcome of
                  Shutting_down \<Rightarrow> (False, ''broker shutting down'')
                | Lost \<Rightarrow> (False, last_error)
                | Decided d \<Rightarrow>
                    if ad_success d then (all_ok, last_error)
                    else (False, if ad_error d = [] then ''nack'' else ad_error d))
      in if cancelled \<or> outcome = Shutting_down then (st, True) else wait_acks outcomes st)"

definition finish_delivery ::
  "('s, 'a, 'j) delivery_env \<Rightarrow> loop_config \<Rightarrow> 'r \<Rightarrow> 'j claimed_message \<Rightarrow> (string \<times> 'a) list \<Rightarrow> (ack_outcome \<times> bool) list \<Rightarrow> bool
   \<Rightarrow> ('s, 'a, 'r) broker \<Rightarrow> ('s, 'a, 'r) broker" where
  "finish_delivery env cfg reply m waits outcomes shutdown br =
     (let ((all_ok, last_error), stopped) = wait_acks outcomes (True, ''ack timeout or subscriber gone'');
          br = br\<lparr>br_inflight := fold (\<lambda>(lease, _). ack_cancel lease) waits (br_inflight br)\<rparr>
      in if stopped \<or> shutdown then br
         else if all_ok then br\<lparr>br_writer := fst (writer_delivered (cm_id m) (cm_lease m) reply (br_writer br))\<rparr>
         else br\<lparr>br_db := fst (failed (de_chrono env) (de_faults env 0) (de_clock env 0) (de_clock env 0) (de_clock env 0)
                            (cm_id m) (cm_lease m) last_error (lc_max_delivery_attempts cfg) (br_db br))\<rparr>)"

text \<open>The end of a subscription: buffered messages are released, the guard is dropped, and the pending
  messages of an ephemeral topic that nobody listens to any more are dropped.\<close>

fun release_all ::
  "('s, 'a, 'j) delivery_env \<Rightarrow> nat \<Rightarrow> ('j claimed_message \<times> int) list \<Rightarrow> ('s, 'a, 'r) broker \<Rightarrow> ('s, 'a, 'r) broker" where
  "release_all env n [] br = br"
| "release_all env n ((m, _) # rest) br = release_all env (n + 1) rest (release_message env n m br)"

definition loop_end ::
  "('s, 'a, 'j) delivery_env \<Rightarrow> ('s, 'j) sub_loop \<Rightarrow> guard \<Rightarrow> ('s, 'a, 'r) broker \<Rightarrow> ('s, 'a, 'r) broker" where
  "loop_end env sl g br =
     (let br = release_all env 0 (sl_ready sl) br; n = length (sl_ready sl);
          br = br\<lparr>br_subs := guard_drop g (br_subs br)\<rparr>
      in if is_wildcard_filter (sl_topic sl) \<or> covers (sl_topic sl) (br_subs br) then br
         else let (st, mode) = topic_persistence (de_faults env n) (sl_topic sl) (db_stats (br_db br));
                  br = br\<lparr>br_db := set_stats st (br_db br)\<rparr>
              in if mode = Inr Ephemeral
                 then br\<lparr>br_db := fst (drop_pending (de_chrono env) (de_faults env (n + 1)) (de_clock env (n + 1)) (sl_topic sl) (br_db br))\<rparr>
                 else br)"

subsection \<open>Permits\<close>

text \<open>A permit is free, or it belongs to a buffered message or to a waiting task.\<close>

lemma claim_phase_permits:
  "claim_phase env cfg sl db = (db', Returned (sl', ok)) \<Longrightarrow>
   sl_permits sl' + length (sl_ready sl') = sl_permits sl + length (sl_ready sl)"
  by (auto simp: claim_phase_def Let_def reserved_permits_def split: prod.splits outcome.splits sum.splits)

lemma next_message_permits:
  "next_message env cfg now sl br = (sl', br', waiting, sent) \<Longrightarrow>
   sl_permits sl' + length (sl_ready sl') + (if waiting = None then 0 else 1) = sl_permits sl + length (sl_ready sl)"
  by (auto simp: next_message_def Let_def split: list.splits prod.splits if_splits dispatch.splits)

subsection \<open>Direct fan-out\<close>

lemma fan_out_subset: "set (fan_out accepts n senders) \<subseteq> snd ` set senders"
  by (induction accepts n senders rule: fan_out.induct) auto

text \<open>A published ephemeral message reaches matching subscribers only, and it is reported as queued only
  when one of them has accepted it; otherwise it is counted as dropped.\<close>

lemma fanout_outcome:
  assumes "fanout_ephemeral env topic payload attributes delivery br = (br', res, sent)"
  shows "(\<forall>(s, m) \<in> set sent. s \<in> snd ` set (matching_senders topic (br_subs br)) \<and> sw_topic m = topic \<and> sw_payload m = payload) \<and>
    (\<forall>mid dup. res = Inr (Queued mid dup) \<longrightarrow> sent \<noteq> [] \<and> \<not> dup) \<and> (\<forall>mid. res = Inr (Dropped mid) \<longrightarrow> sent = [])"
  using assms fan_out_subset [of "de_accepts env" 0 "matching_senders topic (br_subs br)"]
    fan_out_subset [of "de_accepts env" 0 "take 1 (matching_senders topic (br_subs br))"]
    set_take_subset [of 1 "matching_senders topic (br_subs br)"]
  by (auto simp: fanout_ephemeral_def drop_message_def Let_def split: if_splits prod.splits sum.splits) blast+

subsection \<open>Delivery at least once\<close>

fun acked :: "ack_outcome \<times> bool \<Rightarrow> bool" where
  "acked (Decided d, cancelled) \<longleftrightarrow> ad_success d \<and> \<not> cancelled"
| "acked _ \<longleftrightarrow> False"

lemma wait_acks_all: "list_all acked outcomes \<Longrightarrow> wait_acks outcomes st = (st, False)"
  by (induction outcomes st rule: wait_acks.induct) (auto simp: Let_def elim: acked.elims)

lemma wait_acks_not_ok: "fst (fst (wait_acks outcomes (False, e))) = False"
  by (induction outcomes "(False, e)" arbitrary: e rule: wait_acks.induct) (auto simp: Let_def split: ack_outcome.split)

lemma wait_acks_some: "\<not> list_all acked outcomes \<Longrightarrow> snd (wait_acks outcomes st) \<or> \<not> fst (fst (wait_acks outcomes st))"
proof (induction outcomes st rule: wait_acks.induct)
  case (2 outcome cancelled outcomes all_ok last_error)
  show ?case
  proof (cases outcome)
    case (Decided d)
    with 2 wait_acks_not_ok show ?thesis by (auto simp: Let_def)
  qed (auto simp: wait_acks_not_ok Let_def)
qed simp

lemma alive_step:
  fixes op :: "unit queue_op"
  assumes "db_ok db" "has (alive c) db i" "i < MESSAGE_SHARDS" "op_ok op" "op_retains c op"
  shows "has (alive c) (queue_apply ch op db) i"
  using alive_run [of c db i "[op]" ch] assms by simp

lemma alive_failed:
  "db_ok db \<Longrightarrow> has (alive c) db i \<Longrightarrow> i < MESSAGE_SHARDS \<Longrightarrow>
   has (alive c) (fst (failed ch flt now tb tt mid lease error mx db)) i"
  using alive_step [of db c i "OpFailed flt now tb tt mid lease error mx" ch] by simp

lemma alive_release:
  "db_ok db \<Longrightarrow> has (alive c) db i \<Longrightarrow> i < MESSAGE_SHARDS \<Longrightarrow> has (alive c) (fst (release ch flt now mid lease db)) i"
  using alive_step [of db c i "OpRelease flt now mid lease" ch] by simp

lemma db_ok_set_stats [simp]: "db_ok (set_stats st db) \<longleftrightarrow> db_ok db"
  by (simp add: db_ok_def)

text \<open>The topic is not known to be ephemeral.\<close>

definition not_ephemeral :: "faults \<Rightarrow> string \<Rightarrow> database \<Rightarrow> bool" where
  "not_ephemeral flt topic db \<longleftrightarrow>
     (case snd (db_topic_config flt topic (db_stats db)) of Inl _ \<Rightarrow> True | Inr c \<Rightarrow> tc_persistence c = Persistent)"

lemma dispatch_keeps:
  assumes "db_ok (br_db br)" "has (alive c) (br_db br) i" "i < MESSAGE_SHARDS" "not_ephemeral (de_faults env 0) (cm_topic m) (br_db br)"
  shows "has (alive c) (br_db (fst (dispatch_message env cfg sl m br))) i"
proof -
  obtain st config where c: "db_topic_config (de_faults env 0) (cm_topic m) (db_stats (br_db br)) = (st, config)" by (meson surj_pair)
  with assms(4) have "\<not> (case config of Inl _ \<Rightarrow> False | Inr c \<Rightarrow> tc_persistence c = Ephemeral)"
    by (auto simp: not_ephemeral_def split: sum.splits)
  moreover have "has (alive c) (fst (failed ch flt now tb tt mid lease error mx (set_stats st (br_db br)))) i"
    for ch flt now tb tt mid lease error mx using assms(1-3) by (intro alive_failed) simp_all
  ultimately show ?thesis using assms(2) by (simp add: dispatch_message_def c Let_def split: prod.split)
qed


text \<open>A broker whose only message is claimed under the lease \<open>l\<close>.\<close>

definition claimed_broker :: "(nat, nat, nat) broker" where
  "claimed_broker = \<lparr>br_db = db_with (claim_update ''l'' ''t'' (sample_row 1)), br_writer = idle_writer, br_subs = [], br_inflight = []\<rparr>"

definition calm_env :: "(nat, nat, unit) delivery_env" where
  "calm_env = \<lparr>de_chrono = plain_chrono, de_json = (\<lambda>_. Some ()), de_object = (\<lambda>_. None), de_string = (\<lambda>_. None),
     de_faults = (\<lambda>n k. n = 0), de_clock = (\<lambda>_. 5), de_uuid = (\<lambda>_. ''u''), de_accepts = (\<lambda>_ _. False), de_channel = (\<lambda>n. n)\<rparr>"

definition sample_config :: loop_config where
  "sample_config = \<lparr>lc_ack_timeout_secs = 30, lc_consumer_ttl_secs = 60, lc_consumer_prefetch = 4, lc_claim_batch_size = 2,
     lc_max_delivery_attempts = 3\<rparr>"

definition sample_loop :: "(nat, unit) sub_loop" where
  "sample_loop = \<lparr>sl_topic = ''jobs'', sl_session = ''s'', sl_consumer_id = [], sl_tx = 7, sl_permits = 1, sl_ready = [], sl_last_heartbeat = 0\<rparr>"

definition sample_claimed :: "unit claimed_message" where
  "sample_claimed = to_claimed () ''l'' (claim_update ''l'' ''t'' (sample_row 1))"


end
