(* ===== verification/Auth.thy ===== *)
theory Auth
  imports Codec Sql
begin

text \<open>
  Who may use the broker: service tokens of gRPC and HTTP (\<open>src/src/auth.rs\<close> and the middleware of
  \<open>src/src/status.rs\<close>), MQTT credentials (\<open>src/src/mqtt/session.rs\<close>) and the password and sessions of
  the dashboard (\<open>src/src/web_auth.rs\<close>, \<open>src/src/password_policy.rs\<close>). Header maps are functions from
  a name to the value that is readable as text. Argon2, the regular expression of the password policy,
  random numbers and the external authentication service are parameters.
\<close>

subsection \<open>Service tokens\<close>

type_synonym headers = "string \<Rightarrow> string option"

definition normalize_token :: "string option \<Rightarrow> string option" where
  "normalize_token token = (case token of None \<Rightarrow> None | Some t \<Rightarrow> if trim t = [] then None else Some (trim t))"

definition tokens_match :: "string \<Rightarrow> string option \<Rightarrow> bool" where
  "tokens_match expected presented =
     (case presented of
        None \<Rightarrow> False
      | Some presented \<Rightarrow>
          if length expected \<noteq> length presented then False
          else fold (\<lambda>(left, right) acc. acc OR (left XOR right)) (zip (as_bytes expected) (as_bytes presented)) (0 :: 8 word) = 0)"

definition bearer_or_raw :: "string \<Rightarrow> string" where
  "bearer_or_raw value =
     (let value = trim value
      in trim (case strip_prefix ''Bearer '' value of
                 Some rest \<Rightarrow> rest
               | None \<Rightarrow> (case strip_prefix ''bearer '' value of Some rest \<Rightarrow> rest | None \<Rightarrow> value)))"

definition metadata_ascii :: "headers \<Rightarrow> string \<Rightarrow> string" where
  "metadata_ascii metadata key = (case metadata key of None \<Rightarrow> [] | Some value \<Rightarrow> trim value)"

definition metadata_client_version :: "headers \<Rightarrow> string" where
  "metadata_client_version metadata = metadata_ascii metadata ''x-client-version''"

definition metadata_client_host :: "headers \<Rightarrow> string" where
  "metadata_client_host metadata = metadata_ascii metadata ''x-client-host''"

definition or_insert :: "string \<Rightarrow> string \<Rightarrow> (string, string) hmap \<Rightarrow> (string, string) hmap" where
  "or_insert key value m = (if hget m key = None then hput key value m else m)"

definition apply_client_metadata :: "headers \<Rightarrow> (string, string) hmap \<Rightarrow> (string, string) hmap" where
  "apply_client_metadata metadata attributes =
     (let version = metadata_client_version metadata; host = metadata_client_host metadata;
          attributes = (if version = [] then attributes else or_insert ''version'' version attributes)
      in if host = [] then attributes else or_insert ''host'' host attributes)"

definition metadata_token :: "headers \<Rightarrow> string option" where
  "metadata_token metadata =
     (let fallback = (case metadata ''x-auth-token'' of
                        None \<Rightarrow> None | Some value \<Rightarrow> if trim value = [] then None else Some (trim value))
      in case metadata ''authorization'' of
           None \<Rightarrow> fallback
         | Some value \<Rightarrow> if bearer_or_raw value \<noteq> [] then Some (bearer_or_raw value) else fallback)"

fun token_pair :: "string list \<Rightarrow> string option" where
  "token_pair [] = None"
| "token_pair (pair # pairs) =
     (let key = takeWhile (\<lambda>c. c \<noteq> CHR ''='') pair; value = drop (length key + 1) pair
      in if key = ''token'' \<and> value \<noteq> [] then Some value else token_pair pairs)"

definition query_token :: "string option \<Rightarrow> string option" where
  "query_token query = token_pair (split_on (CHR ''&'') (case query of None \<Rightarrow> [] | Some q \<Rightarrow> q))"

definition http_token :: "string option \<Rightarrow> string option \<Rightarrow> string option" where
  "http_token authorization query =
     (case authorization of
        None \<Rightarrow> query_token query
      | Some value \<Rightarrow> if bearer_or_raw value \<noteq> [] then Some (bearer_or_raw value) else query_token query)"

text \<open>The gRPC interceptor and the HTTP middleware; the result says whether the request goes on.\<close>

definition interceptor_new :: "string option \<Rightarrow> string option" where
  "interceptor_new token = normalize_token token"

definition interceptor_call :: "string option \<Rightarrow> headers \<Rightarrow> bool" where
  "interceptor_call token metadata =
     (case token of None \<Rightarrow> True | Some expected \<Rightarrow> tokens_match expected (metadata_token metadata))"

definition request_has_service_token :: "headers \<Rightarrow> string option \<Rightarrow> string \<Rightarrow> bool" where
  "request_has_service_token hs query expected = tokens_match expected (http_token (hs ''authorization'') query)"

definition require_service_token :: "string option \<Rightarrow> headers \<Rightarrow> string option \<Rightarrow> bool" where
  "require_service_token auth_token hs query =
     (case auth_token of None \<Rightarrow> True | Some expected \<Rightarrow> request_has_service_token hs query expected)"

subsection \<open>MQTT credentials\<close>

definition mqtt_token_authorized :: "string option \<Rightarrow> bool \<Rightarrow> connect \<Rightarrow> bool" where
  "mqtt_token_authorized expected allow_anonymous c =
     (case expected of
        None \<Rightarrow> True
      | Some expected \<Rightarrow>
          if allow_anonymous \<and> username c = None \<and> password c = None then True
          else if (case Option.bind (password c) from_utf8 of
                     None \<Rightarrow> False | Some secret \<Rightarrow> tokens_match expected (Some (trim secret))) then True
          else tokens_match expected (username c))"

record mqtt_auth_request =
  ar_username :: "string option"
  ar_password :: "string option"
  ar_client_id :: string
  ar_remote_address :: string
  ar_transport :: string

text \<open>\<open>post\<close> is the call of the external service: its status code, or \<open>None\<close> when the request fails.\<close>

definition mqtt_authorized ::
  "(string \<Rightarrow> mqtt_auth_request \<Rightarrow> nat option) \<Rightarrow> string option \<Rightarrow> string option \<Rightarrow> bool
   \<Rightarrow> connect \<Rightarrow> string \<Rightarrow> string \<Rightarrow> string \<Rightarrow> bool" where
  "mqtt_authorized post auth_url auth_token allow_anonymous c cid peer transport =
     (let local = mqtt_token_authorized (normalize_token auth_token) allow_anonymous c in
      case map_option trim auth_url of
        None \<Rightarrow> local
      | Some url \<Rightarrow>
          if url = [] then local
          else if \<not> (starts_with ''http://'' url \<or> starts_with ''https://'' url) then False
          else let request = (\<lambda>secret. \<lparr>ar_username = username c, ar_password = secret, ar_client_id = cid,
                                  ar_remote_address = peer, ar_transport = transport\<rparr>)
               in case password c of
                    None \<Rightarrow> post url (request None) = Some 200
                  | Some bytes \<Rightarrow>
                      (case from_utf8 bytes of
                         None \<Rightarrow> False
                       | Some secret \<Rightarrow> post url (request (Some secret)) = Some 200))"

subsection \<open>Password policy\<close>

text \<open>\<open>pp_match\<close> is the compiled expression; \<open>None\<close> is a failing match.\<close>

record password_policy =
  pp_match :: "string \<Rightarrow> bool option"
  pp_generated_length :: nat

definition DEFAULT_REGEX :: string where
  "DEFAULT_REGEX = ''^(?=.{8,128}$)(?=.*[a-z])(?=.*[A-Z])(?=.*[^A-Za-z0-9'' @ [CHR 0x5C] @ ''s]).*$''"

text \<open>The environment variables are arguments; \<open>parse\<close> is \<open>str::parse::<usize>\<close> and \<open>compile\<close> is \<open>Regex::new\<close>.\<close>

definition policy_from_env ::
  "(string \<Rightarrow> (string \<Rightarrow> bool option) option) \<Rightarrow> (string \<Rightarrow> nat option) \<Rightarrow> string option \<Rightarrow> string option
   \<Rightarrow> password_policy option" where
  "policy_from_env compile parse pattern len =
     (let pattern = (case pattern of None \<Rightarrow> DEFAULT_REGEX | Some p \<Rightarrow> p) in
      case (case len of None \<Rightarrow> Some 8 | Some value \<Rightarrow> parse value) of
        None \<Rightarrow> None
      | Some generated_length \<Rightarrow>
          if \<not> (8 \<le> generated_length \<and> generated_length \<le> 128) then None
          else map_option (\<lambda>m. \<lparr>pp_match = m, pp_generated_length = generated_length\<rparr>) (compile pattern))"

definition policy_validate :: "password_policy \<Rightarrow> string \<Rightarrow> bool" where
  "policy_validate policy secret = (pp_match policy secret = Some True)"

definition LOWER :: string where "LOWER = ''abcdefghijkmnopqrstuvwxyz''"
definition UPPER :: string where "UPPER = ''ABCDEFGHJKLMNPQRSTUVWXYZ''"
definition DIGITS :: string where "DIGITS = ''23456789''"
definition SPECIAL :: string where "SPECIAL = ''!@#$%^&*_-+=''"

text \<open>Attempt \<open>n\<close> of \<open>generate\<close>: \<open>pick n i\<close> is the \<open>i\<close>-th random draw, \<open>shuffle n\<close> the final shuffle.\<close>

definition policy_candidate ::
  "(nat \<Rightarrow> nat \<Rightarrow> nat) \<Rightarrow> (nat \<Rightarrow> string \<Rightarrow> string) \<Rightarrow> nat \<Rightarrow> nat \<Rightarrow> string" where
  "policy_candidate pick shuffle generated_length n =
     (let draw = (\<lambda>i chars. chars ! (pick n i mod length chars)); every = LOWER @ UPPER @ DIGITS @ SPECIAL
      in shuffle n ([draw 0 LOWER, draw 1 UPPER, draw 2 DIGITS, draw 3 SPECIAL] @
                    map (\<lambda>i. draw i every) [4..<generated_length]))"

definition policy_generate ::
  "(nat \<Rightarrow> nat \<Rightarrow> nat) \<Rightarrow> (nat \<Rightarrow> string \<Rightarrow> string) \<Rightarrow> password_policy \<Rightarrow> string option" where
  "policy_generate pick shuffle policy =
     find (policy_validate policy)
       (map (policy_candidate pick shuffle (pp_generated_length policy)) [0..<1024])"

subsection \<open>Dashboard sessions\<close>

text \<open>
  The table \<open>admin_user\<close> has at most the row of \<open>admin\<close>. A session row is a token and the second it
  was last seen, stored as \<open>i64\<close>.
\<close>

record web_auth =
  wa_hash :: "string option"
  wa_sessions :: "(string \<times> int) list"

datatype auth_error = AuthSql | AuthPolicy | AuthHash

definition SESSION_SECONDS :: nat where "SESSION_SECONDS = 2 * 60 * 60"

definition DEFAULT_ADMIN_PASSWORD :: string where "DEFAULT_ADMIN_PASSWORD = ''-Cangling@zky''"

definition as_i64 :: "nat \<Rightarrow> int" where
  "as_i64 n = sint (word_of_nat n :: 64 word)"

definition set_password ::
  "password_policy option \<Rightarrow> (string \<Rightarrow> string option) \<Rightarrow> faults \<Rightarrow> nat \<Rightarrow> string \<Rightarrow> web_auth \<Rightarrow> web_auth \<times> (auth_error + unit)" where
  "set_password policy hash flt k secret wa =
     (case policy of
        None \<Rightarrow> (wa, Inl AuthPolicy)
      | Some policy \<Rightarrow>
          if \<not> policy_validate policy secret then (wa, Inl AuthPolicy)
          else (case hash secret of
                  None \<Rightarrow> (wa, Inl AuthHash)
                | Some h \<Rightarrow>
                    if flt k then (wa, Inl AuthSql)
                    else let wa = wa\<lparr>wa_hash := Some h\<rparr> in
                      if flt (k + 1) then (wa, Inl AuthSql) else (wa\<lparr>wa_sessions := []\<rparr>, Inr ())))"

definition ensure_initial_admin ::
  "password_policy option \<Rightarrow> (string \<Rightarrow> string option) \<Rightarrow> faults \<Rightarrow> string option \<Rightarrow> web_auth \<Rightarrow> web_auth \<times> (auth_error + unit)" where
  "ensure_initial_admin policy hash flt configured wa =
     (if flt 0 then (wa, Inl AuthSql)
      else if wa_hash wa \<noteq> None then (wa, Inr ())
      else set_password policy hash flt 1
             (case configured of None \<Rightarrow> DEFAULT_ADMIN_PASSWORD
              | Some value \<Rightarrow> if trim value = [] then DEFAULT_ADMIN_PASSWORD else value) wa)"

definition reset_password ::
  "password_policy option \<Rightarrow> (nat \<Rightarrow> nat \<Rightarrow> nat) \<Rightarrow> (nat \<Rightarrow> string \<Rightarrow> string) \<Rightarrow> (string \<Rightarrow> string option) \<Rightarrow> faults
   \<Rightarrow> string option \<Rightarrow> web_auth \<Rightarrow> web_auth \<times> (auth_error + unit)" where
  "reset_password policy pick shuffle hash flt secret wa =
     (case policy of
        None \<Rightarrow> (wa, Inl AuthPolicy)
      | Some p \<Rightarrow>
          (case (case secret of Some value \<Rightarrow> Some value | None \<Rightarrow> policy_generate pick shuffle p) of
             None \<Rightarrow> (wa, Inl AuthPolicy)
           | Some value \<Rightarrow> set_password policy hash flt 0 value wa))"

definition web_login ::
  "(string \<Rightarrow> string \<Rightarrow> bool) \<Rightarrow> faults \<Rightarrow> nat \<Rightarrow> string \<Rightarrow> string \<Rightarrow> web_auth \<Rightarrow> web_auth \<times> (auth_error + string option)" where
  "web_login verify flt now uuid secret wa =
     (if flt 0 then (wa, Inl AuthSql)
      else case wa_hash wa of
             None \<Rightarrow> (wa, Inr None)
           | Some h \<Rightarrow>
               if \<not> verify secret h then (wa, Inr None)
               else if flt 1 \<or> uuid \<in> fst ` set (wa_sessions wa) then (wa, Inl AuthSql)
               else (wa\<lparr>wa_sessions := wa_sessions wa @ [(uuid, as_i64 now)]\<rparr>, Inr (Some uuid)))"

text \<open>\<open>now\<close> and \<open>later\<close> are the two clock readings.\<close>

definition valid_session ::
  "faults \<Rightarrow> nat \<Rightarrow> nat \<Rightarrow> string \<Rightarrow> web_auth \<Rightarrow> web_auth \<times> (auth_error + bool)" where
  "valid_session flt now later token wa =
     (if flt 0 then (wa, Inl AuthSql)
      else case find (\<lambda>r. fst r = token) (wa_sessions wa) of
             None \<Rightarrow> (wa, Inr False)
           | Some (_, seen) \<Rightarrow>
               if SESSION_SECONDS < now - nat (max seen 0)
               then if flt 1 then (wa, Inl AuthSql)
                    else (wa\<lparr>wa_sessions := snd (sql_delete (\<lambda>r. fst r = token) (wa_sessions wa))\<rparr>, Inr False)
               else if flt 1 then (wa, Inl AuthSql)
                    else (wa\<lparr>wa_sessions := snd (sql_update (\<lambda>r. fst r = token) (\<lambda>(t, _). (t, as_i64 later)) (wa_sessions wa))\<rparr>,
                          Inr True))"

definition web_logout :: "faults \<Rightarrow> string \<Rightarrow> web_auth \<Rightarrow> web_auth \<times> (auth_error + unit)" where
  "web_logout flt token wa =
     (if flt 0 then (wa, Inl AuthSql)
      else (wa\<lparr>wa_sessions := snd (sql_delete (\<lambda>r. fst r = token) (wa_sessions wa))\<rparr>, Inr ()))"

fun first_stripped :: "string \<Rightarrow> string list \<Rightarrow> string option" where
  "first_stripped p [] = None"
| "first_stripped p (part # parts) =
     (case strip_prefix p (trim part) of Some rest \<Rightarrow> Some rest | None \<Rightarrow> first_stripped p parts)"

definition cookie_token :: "headers \<Rightarrow> string option" where
  "cookie_token hs =
     (case hs ''cookie'' of
        None \<Rightarrow> None
      | Some value \<Rightarrow> first_stripped ''cangling_broker_session='' (split_on (CHR '';'') value))"

text \<open>The middleware of the dashboard and the handlers of its login page.\<close>

definition require_admin :: "faults \<Rightarrow> nat \<Rightarrow> nat \<Rightarrow> headers \<Rightarrow> web_auth \<Rightarrow> web_auth \<times> bool" where
  "require_admin flt now later hs wa =
     (case cookie_token hs of
        None \<Rightarrow> (wa, False)
      | Some token \<Rightarrow>
          (case valid_session flt now later token wa of (wa, Inr ok) \<Rightarrow> (wa, ok) | (wa, Inl _) \<Rightarrow> (wa, False)))"

definition session_cookie :: "bool \<Rightarrow> string option \<Rightarrow> string \<Rightarrow> string \<Rightarrow> string" where
  "session_cookie secure_cookies web_base token max_age =
     ''cangling_broker_session='' @ token @ ''; HttpOnly; SameSite=Strict; Path='' @
     (case web_base of None \<Rightarrow> ''/'' | Some base \<Rightarrow> base) @ ''; Max-Age='' @ max_age @
     (if secure_cookies then ''; Secure'' else [])"

datatype login_status = Login_ok string | Login_unauthorized | Login_error

definition login_handler ::
  "(string \<Rightarrow> string \<Rightarrow> bool) \<Rightarrow> faults \<Rightarrow> nat \<Rightarrow> string \<Rightarrow> bool \<Rightarrow> string option \<Rightarrow> string \<Rightarrow> web_auth \<Rightarrow> web_auth \<times> login_status" where
  "login_handler verify flt now uuid secure_cookies web_base secret wa =
     (case web_login verify flt now uuid secret wa of
        (wa, Inl _) \<Rightarrow> (wa, Login_error)
      | (wa, Inr None) \<Rightarrow> (wa, Login_unauthorized)
      | (wa, Inr (Some token)) \<Rightarrow> (wa, Login_ok (session_cookie secure_cookies web_base token ''7200'')))"

definition logout_handler ::
  "faults \<Rightarrow> bool \<Rightarrow> string option \<Rightarrow> headers \<Rightarrow> web_auth \<Rightarrow> web_auth \<times> login_status" where
  "logout_handler flt secure_cookies web_base hs wa =
     (let cleared = Login_ok (session_cookie secure_cookies web_base [] ''0'') in
      case cookie_token hs of
        None \<Rightarrow> (wa, cleared)
      | Some token \<Rightarrow> (case web_logout flt token wa of (wa, Inl _) \<Rightarrow> (wa, Login_error) | (wa, Inr _) \<Rightarrow> (wa, cleared)))"

subsection \<open>Comparing tokens\<close>

lemma or_eq_zero: "a OR b = 0 \<longleftrightarrow> a = 0 \<and> b = 0" for a b :: "'a :: len word"
  by (auto simp: bit_eq_iff bit_simps)

lemma xor_eq_zero: "a XOR b = 0 \<longleftrightarrow> a = b" for a b :: "'a :: len word"
  by (auto simp: bit_eq_iff bit_simps)

lemma fold_difference_zero:
  "fold (\<lambda>(left, right) acc. acc OR (left XOR right)) ps a = 0 \<longleftrightarrow> a = 0 \<and> (\<forall>(l, r) \<in> set ps. l = r)"
  for a :: "'a :: len word"
  by (induction ps arbitrary: a) (auto simp: or_eq_zero xor_eq_zero)

lemma zip_all_equal: "length xs = length ys \<Longrightarrow> (\<forall>(x, y) \<in> set (zip xs ys). x = y) \<longleftrightarrow> xs = ys"
  by (induction rule: list_induct2) auto

text \<open>The comparison without early exit decides equality.\<close>

lemma tokens_match_iff: "tokens_match expected presented \<longleftrightarrow> presented = Some expected"
proof (cases presented)
  case (Some p)
  have "(\<forall>(l, r) \<in> set (zip (as_bytes expected) (as_bytes p)). l = r) \<longleftrightarrow> expected = p" if "length expected = length p"
    using zip_all_equal [of "as_bytes expected" "as_bytes p"] that by simp
  then show ?thesis unfolding Some tokens_match_def option.case fold_difference_zero by auto
qed (simp add: tokens_match_def)

text \<open>C20. Credentials are checked exactly: a gRPC call or an HTTP service request passes iff no token is
  configured or the presented token is the configured one, and an MQTT client passes the local policy
  iff no token is configured, or anonymous clients are allowed and it has no credentials, or its
  password, as text without surrounding white space, or its user name is the token.\<close>

theorem credentials_checked:
  "(interceptor_call (interceptor_new token) md \<longleftrightarrow> normalize_token token = None \<or> metadata_token md = normalize_token token) \<and>
   (require_service_token service hs query \<longleftrightarrow> service = None \<or> http_token (hs ''authorization'') query = service) \<and>
   (mqtt_token_authorized expected anonymous c \<longleftrightarrow>
      (case expected of
         None \<Rightarrow> True
       | Some e \<Rightarrow> (anonymous \<and> username c = None \<and> password c = None) \<or>
           (\<exists>secret. is_str secret \<and> password c = Some (as_bytes secret) \<and> trim secret = e) \<or> username c = Some e))"
proof -
  have "(case Option.bind (password c) from_utf8 of None \<Rightarrow> False | Some secret \<Rightarrow> tokens_match e (Some (trim secret))) \<longleftrightarrow>
      (\<exists>secret. is_str secret \<and> password c = Some (as_bytes secret) \<and> trim secret = e)" for e
    by (cases "password c") (auto simp: tokens_match_iff from_utf8_Some split: option.split)
  then have "mqtt_token_authorized expected anonymous c \<longleftrightarrow>
      (case expected of
         None \<Rightarrow> True
       | Some e \<Rightarrow> (anonymous \<and> username c = None \<and> password c = None) \<or>
           (\<exists>secret. is_str secret \<and> password c = Some (as_bytes secret) \<and> trim secret = e) \<or> username c = Some e)"
    by (auto simp: mqtt_token_authorized_def tokens_match_iff split: option.split)
  then show ?thesis
    by (auto simp: interceptor_call_def interceptor_new_def require_service_token_def request_has_service_token_def
        tokens_match_iff split: option.split)
qed

subsection \<open>The life of a session\<close>

datatype web_op =
    W_password faults nat string
  | W_login faults nat string string
  | W_check faults nat nat string
  | W_logout faults string

fun web_apply ::
  "password_policy option \<Rightarrow> (string \<Rightarrow> string option) \<Rightarrow> (string \<Rightarrow> string \<Rightarrow> bool) \<Rightarrow> web_op \<Rightarrow> web_auth \<Rightarrow> web_auth" where
  "web_apply policy hash verify (W_password flt k secret) wa = fst (set_password policy hash flt k secret wa)"
| "web_apply policy hash verify (W_login flt now uuid secret) wa = fst (web_login verify flt now uuid secret wa)"
| "web_apply policy hash verify (W_check flt now later token) wa = fst (valid_session flt now later token wa)"
| "web_apply policy hash verify (W_logout flt token) wa = fst (web_logout flt token wa)"

text \<open>Operations that neither present the token nor change the password.\<close>

fun ignores_token :: "string \<Rightarrow> web_op \<Rightarrow> bool" where
  "ignores_token tok (W_password flt k secret) \<longleftrightarrow> False"
| "ignores_token tok (W_login flt now uuid secret) \<longleftrightarrow> True"
| "ignores_token tok (W_check flt now later token) \<longleftrightarrow> token \<noteq> tok"
| "ignores_token tok (W_logout flt token) \<longleftrightarrow> token \<noteq> tok"

lemma find_session: "find (\<lambda>r. fst r = tok) rows = map_option (Pair tok) (map_of rows tok)"
  by (induction rows) auto

lemma session_other_row:
  "token \<noteq> tok \<Longrightarrow> map_of (snd (sql_delete (\<lambda>r. fst r = token) rows)) tok = map_of rows tok"
  "token \<noteq> tok \<Longrightarrow> map_of (snd (sql_update (\<lambda>r. fst r = token) (\<lambda>(t, _). (t, x)) rows)) tok = map_of rows tok"
  by (induction rows) (auto simp: sql_delete_def sql_update_def)

lemma session_deleted: "map_of (snd (sql_delete (\<lambda>r. fst r = token) rows)) token = None"
  by (auto simp: sql_delete_def map_of_eq_None_iff)

lemma session_kept:
  assumes "map_of (wa_sessions wa) tok = Some seen" "ignores_token tok op"
  shows "map_of (wa_sessions (web_apply policy hash verify op wa)) tok = Some seen"
  using assms
  by (cases op) (auto simp: web_login_def valid_session_def web_logout_def session_other_row map_add_Some_iff split: option.splits)

lemma session_kept_run:
  "map_of (wa_sessions wa) tok = Some seen \<Longrightarrow> list_all (ignores_token tok) ops \<Longrightarrow>
   map_of (wa_sessions (fold (web_apply policy hash verify) ops wa)) tok = Some seen"
  by (induction ops arbitrary: wa) (auto intro: session_kept)

lemma as_i64_small: "n < 2 ^ 63 \<Longrightarrow> as_i64 n = int n"
  by (simp add: as_i64_def signed_of_nat signed_take_bit_int_eq_self)


definition lenient_policy :: password_policy where
  "lenient_policy = \<lparr>pp_match = (\<lambda>_. Some True), pp_generated_length = 8\<rparr>"


end
