(* ===== verification/Session.thy ===== *)
theory Session
  imports Delivery Auth
begin

text \<open>
  MQTT sessions: \<open>src/src/mqtt/session.rs\<close> and the registry of connected clients in
  \<open>src/src/mqtt/mod.rs\<close>. A session is the record \<open>session_ctx\<close>: the state of the Rust
  \<open>SessionState\<close>, the queues to the writing and the ingesting task, the shared pending
  acknowledgements and topic catalog, and the cancellation tokens (numbers). Its loop is a run
  over events, in the order in which \<open>select!\<close> takes them. The connection itself (sockets,
  timers, spawned tasks) is not modelled; the read loops are in \<open>Codec\<close>.
\<close>

subsection \<open>Connected clients\<close>

record client_info =
  ci_client_id :: string
  ci_peer :: string
  ci_transport :: string
  ci_connected_at :: string
  ci_version :: string

record registry_entry =
  re_token :: nat
  re_info :: client_info

type_synonym client_registry = "(string, registry_entry) hmap"

definition registry_connect ::
  "chrono \<Rightarrow> int \<Rightarrow> string \<Rightarrow> nat \<Rightarrow> string \<Rightarrow> string \<Rightarrow> string \<Rightarrow> client_registry \<Rightarrow> client_registry \<times> nat option" where
  "registry_connect ch now cid token peer transport version reg =
     (hput cid \<lparr>re_token = token, re_info = \<lparr>ci_client_id = cid, ci_peer = peer, ci_transport = transport,
        ci_connected_at = to_rfc3339 ch now, ci_version = version\<rparr>\<rparr> reg, map_option re_token (hget reg cid))"

definition registry_remove_if :: "string \<Rightarrow> nat \<Rightarrow> client_registry \<Rightarrow> client_registry" where
  "registry_remove_if cid token reg =
     (case hget reg cid of None \<Rightarrow> reg | Some stored \<Rightarrow> if re_token stored = token then hdel cid reg else reg)"

definition registry_clients :: "client_registry \<Rightarrow> client_info list" where
  "registry_clients reg = sort_key (\<lambda>i. (ci_peer i, ci_client_id i)) (map (re_info \<circ> snd) reg)"

subsection \<open>State\<close>

datatype write_job = Job_packet packet | Job_deliver packet "(string \<times> string) option"

record session_state =
  ss_client_id :: string
  ss_peer :: string
  ss_transport :: string
  ss_version :: string
  ss_keep_alive :: "16 word"
  ss_qos :: "(string, 8 word) hmap"
  ss_inflight :: "(16 word, string \<times> string) hmap"
  ss_next_packet_id :: "16 word"
  ss_subs :: "(string, nat) hmap"

record 'a session_ctx =
  sc_state :: session_state
  sc_write :: "write_job list"
  sc_write_open :: bool
  sc_ingest :: "publish list"
  sc_ingest_open :: bool
  sc_acks :: "'a inflight_acks"
  sc_decisions :: "('a \<times> ack_decision) list"
  sc_stats :: stats
  sc_cancelled :: "nat list"
  sc_loops :: "(string \<times> string \<times> nat) list"
  sc_next_token :: nat

datatype session_error =
    Not_connect | Unsupported_level | Empty_client_id | Auth_failed | Send_failed
  | Ingest_closed | Writer_closed | Duplicate_connect | Invalid_topic | Ingest_failed

definition INGEST_CHAN :: nat where "INGEST_CHAN = 1024"

subsection \<open>Connecting\<close>

text \<open>The first packet (\<open>None\<close>: nothing within 15 seconds); the packets sent back and the client id.\<close>

definition connect_phase ::
  "(connect \<Rightarrow> string \<Rightarrow> bool) \<Rightarrow> string \<Rightarrow> bool \<Rightarrow> packet option \<Rightarrow> packet list \<times> (session_error + string \<times> connect)" where
  "connect_phase authorized uuid send_ok first =
     (case first of
        Some (Connect c) \<Rightarrow>
          if protocol_level c \<noteq> 3 \<and> protocol_level c \<noteq> 4 then ([ConnAck False CONNACK_PROTOCOL], Inl Unsupported_level)
          else if trim (client_id c) = [] \<and> \<not> clean_session c then ([ConnAck False CONNACK_IDENTIFIER], Inl Empty_client_id)
          else let cid = (if trim (client_id c) = [] then ''mqtt-'' @ uuid else trim (client_id c)) in
            if \<not> authorized c cid
            then ([ConnAck False (if username c = None \<and> password c = None then CONNACK_NOT_AUTHORIZED else CONNACK_BAD_AUTH)],
                  Inl Auth_failed)
            else if \<not> send_ok then ([], Inl Send_failed)
            else ([ConnAck False CONNACK_ACCEPT], Inr (cid, c))
      | _ \<Rightarrow> ([], Inl Not_connect))"

definition initial_state :: "string \<Rightarrow> string \<Rightarrow> string \<Rightarrow> connect \<Rightarrow> session_state" where
  "initial_state cid peer transport c =
     \<lparr>ss_client_id = cid, ss_peer = peer, ss_transport = transport, ss_version = protocol_version c,
      ss_keep_alive = keep_alive c, ss_qos = [], ss_inflight = [], ss_next_packet_id = 0, ss_subs = []\<rparr>"

text \<open>Registration: the token of a previous session of the client is cancelled.\<close>

definition enter_session ::
  "chrono \<Rightarrow> int \<Rightarrow> string \<Rightarrow> nat \<Rightarrow> string \<Rightarrow> string \<Rightarrow> connect \<Rightarrow> client_registry \<Rightarrow> nat list \<Rightarrow> client_registry \<times> nat list" where
  "enter_session ch now cid token peer transport c reg cancelled =
     (case registry_connect ch now cid token peer transport (protocol_version c) reg of
        (reg, None) \<Rightarrow> (reg, cancelled)
      | (reg, Some old) \<Rightarrow> (reg, old # cancelled))"

definition leave_session :: "string \<Rightarrow> nat \<Rightarrow> client_registry \<Rightarrow> nat list \<Rightarrow> client_registry \<times> nat list" where
  "leave_session cid token reg cancelled = (registry_remove_if cid token reg, token # cancelled)"

definition keepalive_idle :: "16 word \<Rightarrow> nat option" where
  "keepalive_idle ka = (if ka = 0 then None else Some (unat ka * 1500))"

subsection \<open>Sending to the client\<close>

definition queue_job :: "write_job \<Rightarrow> 'a session_ctx \<Rightarrow> 'a session_ctx \<times> (session_error + unit)" where
  "queue_job job ctx =
     (if sc_write_open ctx then (ctx\<lparr>sc_write := sc_write ctx @ [job]\<rparr>, Inr ()) else (ctx, Inl Writer_closed))"

definition queue_packet :: "packet \<Rightarrow> 'a session_ctx \<Rightarrow> 'a session_ctx \<times> (session_error + unit)" where
  "queue_packet p ctx = queue_job (Job_packet p) ctx"

definition granted_qos :: "(string, 8 word) hmap \<Rightarrow> string \<Rightarrow> 8 word" where
  "granted_qos qos_by_topic published_topic =
     min (fold max (map snd (filter (\<lambda>(flter, _). filter_matches flter published_topic) qos_by_topic)) 0) 1"

definition next_packet_id :: "16 word \<Rightarrow> 16 word" where
  "next_packet_id next = (if next = 0xFFFF then 1 else next + 1)"

fun alloc_loop :: "nat \<Rightarrow> 16 word \<Rightarrow> (16 word, 'v) hmap \<Rightarrow> 16 word" where
  "alloc_loop 0 next used = next"
| "alloc_loop (Suc n) next used =
     (let next = next_packet_id next in if hget used next = None then next else alloc_loop n next used)"

definition alloc_packet_id :: "16 word \<Rightarrow> (16 word, 'v) hmap \<Rightarrow> 16 word" where
  "alloc_packet_id next used = alloc_loop 65535 next used"

definition outgoing_publish :: "8 word \<Rightarrow> 16 word option \<Rightarrow> satway_message \<Rightarrow> packet" where
  "outgoing_publish qos pid m =
     Publish \<lparr>pub_dup = False, pub_qos = qos, pub_retain = False, pub_topic = sw_topic m, pub_packet_id = pid,
              pub_payload = sw_payload m\<rparr>"

definition queue_outgoing :: "satway_message \<Rightarrow> 'a session_ctx \<Rightarrow> 'a session_ctx \<times> (session_error + unit)" where
  "queue_outgoing m ctx =
     (let st = sc_state ctx in
      if granted_qos (ss_qos st) (sw_topic m) = 0
      then queue_job (Job_deliver (outgoing_publish 0 None m) (Some (sw_message_id m, sw_lease m))) ctx
      else let pid = alloc_packet_id (ss_next_packet_id st) (ss_inflight st);
               st = st\<lparr>ss_next_packet_id := pid, ss_inflight := hput pid (sw_message_id m, sw_lease m) (ss_inflight st)\<rparr>
           in queue_job (Job_deliver (outgoing_publish 1 (Some pid) m) None) (ctx\<lparr>sc_state := st\<rparr>))"

definition complete_ack :: "string \<Rightarrow> string \<Rightarrow> 'a session_ctx \<Rightarrow> 'a session_ctx" where
  "complete_ack mid lease ctx =
     (case ack_complete (\<lambda>_. True) mid lease True [] (sc_acks ctx) of
        (acks, None, _) \<Rightarrow> ctx\<lparr>sc_acks := acks\<rparr>
      | (acks, Some d, _) \<Rightarrow> ctx\<lparr>sc_acks := acks, sc_decisions := sc_decisions ctx @ [d]\<rparr>)"

text \<open>The writing task: jobs in order with the success of each send; what was sent, and whether it was cancelled.\<close>

fun write_loop :: "(write_job \<times> bool) list \<Rightarrow> 'a session_ctx \<Rightarrow> packet list \<Rightarrow> 'a session_ctx \<times> packet list \<times> bool" where
  "write_loop [] ctx sent = (ctx, sent, False)"
| "write_loop ((job, send_ok) # jobs) ctx sent =
     (let (p, ack) = (case job of Job_packet p \<Rightarrow> (p, None) | Job_deliver p ack \<Rightarrow> (p, ack)) in
      if \<not> send_ok then (ctx, sent, True)
      else write_loop jobs (case ack of None \<Rightarrow> ctx | Some (mid, lease) \<Rightarrow> complete_ack mid lease ctx) (sent @ [p]))"

subsection \<open>Packets of the client\<close>

text \<open>The subscription of one filter; \<open>flt\<close> and \<open>now\<close> belong to \<open>note_subscribed_topic\<close>.\<close>

definition subscribe_topic ::
  "chrono \<Rightarrow> faults \<Rightarrow> int \<Rightarrow> subscribe_filter \<Rightarrow> 'a session_ctx \<Rightarrow> 'a session_ctx \<times> 8 word" where
  "subscribe_topic ch flt now f ctx =
     (let topic = trim (flt_topic f) in
      if \<not> is_valid_subscribe_filter topic then (ctx, SUBACK_FAILURE)
      else case note_subscribed_topic ch flt now topic (sc_stats ctx) of
             (st, Inl _) \<Rightarrow> (ctx\<lparr>sc_stats := st\<rparr>, SUBACK_FAILURE)
           | (st, Inr _) \<Rightarrow>
               let granted = min (flt_qos f) 1; s = sc_state ctx; token = sc_next_token ctx;
                   cancelled = (case hget (ss_subs s) topic of None \<Rightarrow> sc_cancelled ctx | Some previous \<Rightarrow> previous # sc_cancelled ctx);
                   s = s\<lparr>ss_qos := hput topic granted (ss_qos s), ss_subs := hput topic token (hdel topic (ss_subs s))\<rparr>
               in (ctx\<lparr>sc_stats := st, sc_state := s, sc_cancelled := cancelled, sc_next_token := token + 1,
                       sc_loops := sc_loops ctx @ [(topic, ''mqtt:'' @ ss_client_id s, token)]\<rparr>, granted))"

fun subscribe_all ::
  "chrono \<Rightarrow> (nat \<Rightarrow> faults) \<Rightarrow> (nat \<Rightarrow> int) \<Rightarrow> nat \<Rightarrow> subscribe_filter list \<Rightarrow> 'a session_ctx \<Rightarrow> 'a session_ctx \<times> bytes" where
  "subscribe_all ch flts clock n [] ctx = (ctx, [])"
| "subscribe_all ch flts clock n (f # fs) ctx =
     (let (ctx, code) = subscribe_topic ch (flts n) (clock n) f ctx; (ctx, codes) = subscribe_all ch flts clock (n + 1) fs ctx
      in (ctx, code # codes))"

definition unsubscribe_topic :: "string \<Rightarrow> 'a session_ctx \<Rightarrow> 'a session_ctx" where
  "unsubscribe_topic topic ctx =
     (let s = sc_state ctx
      in ctx\<lparr>sc_cancelled := (case hget (ss_subs s) topic of None \<Rightarrow> sc_cancelled ctx | Some token \<Rightarrow> token # sc_cancelled ctx),
             sc_state := s\<lparr>ss_subs := hdel topic (ss_subs s), ss_qos := hdel topic (ss_qos s)\<rparr>\<rparr>)"

definition then_continue :: "'c \<times> (session_error + unit) \<Rightarrow> 'c \<times> (session_error + bool)" where
  "then_continue r = (case r of (ctx, Inl e) \<Rightarrow> (ctx, Inl e) | (ctx, Inr _) \<Rightarrow> (ctx, Inr False))"

definition handle_packet ::
  "chrono \<Rightarrow> (nat \<Rightarrow> faults) \<Rightarrow> (nat \<Rightarrow> int) \<Rightarrow> packet \<Rightarrow> 'a session_ctx \<Rightarrow> 'a session_ctx \<times> (session_error + bool)" where
  "handle_packet ch flts clock p ctx =
     (case p of
        Publish q \<Rightarrow>
          if \<not> sc_ingest_open ctx then (ctx, Inl Ingest_closed)
          else if INGEST_CHAN \<le> length (sc_ingest ctx) then (ctx, Inr False)
          else (ctx\<lparr>sc_ingest := sc_ingest ctx @ [q]\<rparr>, Inr False)
      | PubAck pid \<Rightarrow>
          (case hget (ss_inflight (sc_state ctx)) pid of
             None \<Rightarrow> (ctx, Inr False)
           | Some (mid, lease) \<Rightarrow>
               (complete_ack mid lease (ctx\<lparr>sc_state := (sc_state ctx)\<lparr>ss_inflight := hdel pid (ss_inflight (sc_state ctx))\<rparr>\<rparr>),
                Inr False))
      | PubRel pid \<Rightarrow> then_continue (queue_packet (PubComp pid) ctx)
      | Subscribe s \<Rightarrow>
          (let (ctx, codes) = subscribe_all ch flts clock 0 (sub_filters s) ctx
           in then_continue (queue_packet (SubAck (sub_packet_id s) codes) ctx))
      | Unsubscribe u \<Rightarrow>
          then_continue (queue_packet (UnsubAck (unsub_packet_id u)) (fold unsubscribe_topic (unsub_filters u) ctx))
      | PingReq \<Rightarrow> then_continue (queue_packet PingResp ctx)
      | Disconnect \<Rightarrow> (ctx, Inr True)
      | Connect _ \<Rightarrow> (ctx, Inl Duplicate_connect)
      | _ \<Rightarrow> (ctx, Inr False))"

text \<open>A publish of the client, in the ingesting task. \<open>None\<close> is an admission that does not return.\<close>

definition ingest_and_ack ::
  "('s, 'a, 'j) delivery_env \<Rightarrow> string \<Rightarrow> publish \<Rightarrow> ('s, 'a, 'r) broker \<Rightarrow> 'a session_ctx
   \<Rightarrow> (('s, 'a, 'r) broker \<times> 'a session_ctx \<times> (session_error + unit)) option" where
  "ingest_and_ack env cid q br ctx =
     (let topic = trim (pub_topic q); qos = min (pub_qos q) 2 in
      if \<not> is_valid_publish_topic topic then Some (br, ctx, Inl Invalid_topic)
      else Option.bind (ingest env topic (pub_payload q) [(''mqtt_client_id'', cid)] None br) (\<lambda>(br, res, _).
        case res of
          Inl _ \<Rightarrow> Some (br, ctx, Inl Ingest_failed)
        | Inr _ \<Rightarrow>
            (case pub_packet_id q of
               None \<Rightarrow> Some (br, ctx, Inr ())
             | Some pid \<Rightarrow>
                 Some (br, if qos = 2 then queue_packet (PubRec pid) ctx
                           else if qos = 1 then queue_packet (PubAck pid) ctx
                           else (ctx, Inr ())))))"

text \<open>The task that ingests what the client publishes, in order; a failure is only logged.\<close>

fun ingest_loop ::
  "string \<Rightarrow> (('s, 'a, 'j) delivery_env \<times> publish) list \<Rightarrow> ('s, 'a, 'r) broker \<Rightarrow> 'a session_ctx
   \<Rightarrow> (('s, 'a, 'r) broker \<times> 'a session_ctx) option" where
  "ingest_loop cid [] br ctx = Some (br, ctx)"
| "ingest_loop cid ((env, q) # jobs) br ctx =
     Option.bind (ingest_and_ack env cid q br ctx) (\<lambda>(br, ctx, _). ingest_loop cid jobs br ctx)"

subsection \<open>The loop\<close>

datatype session_event =
    Incoming "nat \<Rightarrow> faults" "nat \<Rightarrow> int" packet
  | Outgoing satway_message
  | Stop

definition cancel_all :: "'a session_ctx \<Rightarrow> 'a session_ctx" where
  "cancel_all ctx = ctx\<lparr>sc_cancelled := map snd (ss_subs (sc_state ctx)) @ sc_cancelled ctx\<rparr>"

text \<open>\<open>Stop\<close> stands for a shutdown, a cancelled session, closed channels or the keep-alive timeout.\<close>

fun session_loop :: "chrono \<Rightarrow> session_event list \<Rightarrow> 'a session_ctx \<Rightarrow> 'a session_ctx \<times> (session_error + unit)" where
  "session_loop ch [] ctx = (ctx, Inr ())"
| "session_loop ch (Stop # es) ctx = (cancel_all ctx, Inr ())"
| "session_loop ch (Outgoing m # es) ctx =
     (case queue_outgoing m ctx of (ctx, Inl e) \<Rightarrow> (ctx, Inl e) | (ctx, Inr _) \<Rightarrow> session_loop ch es ctx)"
| "session_loop ch (Incoming flts clock p # es) ctx =
     (case handle_packet ch flts clock p ctx of
        (ctx, Inl e) \<Rightarrow> (ctx, Inl e)
      | (ctx, Inr True) \<Rightarrow> (cancel_all ctx, Inr ())
      | (ctx, Inr False) \<Rightarrow> session_loop ch es ctx)"

subsection \<open>Packet ids\<close>

lemma unat_next_packet_id: "unat (next_packet_id w) = unat w mod 65535 + 1"
proof (cases "w = 0xFFFF")
  case False
  have "unat w \<noteq> unat (0xFFFF :: 16 word)" using False by (simp only: word_unat_eq_iff [symmetric]) simp
  then have "unat w \<noteq> 65535" by simp
  moreover have "unat w < 65536" using unsigned_less [of w] by simp
  ultimately have "unat w < 65535" by linarith
  then show ?thesis using False by (simp add: next_packet_id_def unat_word_ariths)
qed (simp add: next_packet_id_def)

lemma alloc_loop_cases:
  "hget used (alloc_loop n w used) = None \<and> alloc_loop n w used \<noteq> 0 \<or>
   (\<forall>k < n. \<exists>x. unat x = (unat w + k) mod 65535 + 1 \<and> hget used x \<noteq> None)"
proof (induction n arbitrary: w)
  case (Suc n)
  let ?w = "next_packet_id w"
  have "?w \<noteq> 0" using unat_next_packet_id [of w] by auto
  moreover have step: "(unat ?w + k) mod 65535 = (unat w + Suc k) mod 65535" for k
  proof -
    have "unat ?w + k = unat w mod 65535 + Suc k" by (simp add: unat_next_packet_id)
    then show ?thesis by (simp only: mod_add_left_eq)
  qed
  have all: "\<forall>k < Suc n. \<exists>x. unat x = (unat w + k) mod 65535 + 1 \<and> hget used x \<noteq> None"
    if "hget used ?w \<noteq> None" "\<forall>k < n. \<exists>x. unat x = (unat ?w + k) mod 65535 + 1 \<and> hget used x \<noteq> None"
  proof (intro allI impI)
    fix k assume "k < Suc n"
    then show "\<exists>x. unat x = (unat w + k) mod 65535 + 1 \<and> hget used x \<noteq> None"
      using that unat_next_packet_id [of w] step by (cases k) auto
  qed
  show ?case
  proof (cases "hget used ?w")
    case None
    with \<open>?w \<noteq> 0\<close> show ?thesis by simp
  next
    case (Some v)
    then have "alloc_loop (Suc n) w used = alloc_loop n ?w used" by simp
    with Suc.IH [of ?w] all Some show ?thesis by auto
  qed
qed simp

lemma cyclic_offset: "y < n \<Longrightarrow> \<exists>k < n. (u + k) mod n = y" for n :: nat
proof (intro exI conjI)
  assume y: "y < n"
  let ?k = "(y + (n - u mod n)) mod n"
  show "?k < n" using y by simp
  have "(u + ?k) mod n = (u mod n + (y + (n - u mod n))) mod n" by (simp add: mod_simps)
  also have "u mod n + (y + (n - u mod n)) = y + n" using y mod_less_divisor [of n u] by linarith
  also have "(y + n) mod n = y" using y by simp
  finally show "(u + ?k) mod n = y" .
qed

text \<open>With fewer than 65535 messages in flight the allocation finds a free id, and never 0.\<close>

lemma alloc_packet_id_fresh:
  assumes "length used < 65535"
  shows "alloc_packet_id next used \<noteq> 0 \<and> hget used (alloc_packet_id next used) = None"
proof (rule ccontr)
  assume "\<not> ?thesis"
  then have all: "\<forall>k < 65535. \<exists>x. unat x = (unat next + k) mod 65535 + 1 \<and> hget used x \<noteq> None"
    using alloc_loop_cases [of used 65535 "next"] by (auto simp: alloc_packet_id_def)
  have "{1..65535} \<subseteq> unat ` fst ` set used"
  proof
    fix y :: nat assume "y \<in> {1..65535}"
    then have "y - 1 < 65535" "1 \<le> y" by auto
    then obtain k where "k < 65535" "(unat next + k) mod 65535 = y - 1" using cyclic_offset by blast
    with all obtain x where "unat x = y" "hget used x \<noteq> None" using \<open>1 \<le> y\<close> by fastforce
    then show "y \<in> unat ` fst ` set used" by (auto simp: map_of_eq_None_iff intro!: image_eqI [of _ _ x])
  qed
  then have "card {1..65535 :: nat} \<le> card (unat ` fst ` set used)" by (intro card_mono) auto
  also have "\<dots> \<le> length used" by (meson card_image_le card_length finite_imageI finite_set le_trans)
  finally show False using assms by simp
qed

subsection \<open>The invariant of a session\<close>

fun job_packet :: "write_job \<Rightarrow> packet" where
  "job_packet (Job_packet p) = p"
| "job_packet (Job_deliver p ack) = p"

text \<open>A queued packet is well formed; a message goes out with QoS 0 and is acknowledged when written, or with
  QoS 1, a packet id other than 0, and waits for its \<open>PUBACK\<close>.\<close>

fun wf_job :: "write_job \<Rightarrow> bool" where
  "wf_job (Job_packet p) \<longleftrightarrow> wf_packet p"
| "wf_job (Job_deliver p ack) \<longleftrightarrow> wf_packet p \<and>
     (\<exists>q. p = Publish q \<and> (if ack = None then pub_qos q = 1 \<and> pub_packet_id q \<noteq> Some 0 else pub_qos q = 0))"

definition state_ok :: "session_state \<Rightarrow> bool" where
  "state_ok s \<longleftrightarrow> hmap_ok (ss_qos s) \<and> hmap_ok (ss_subs s) \<and> hmap_ok (ss_inflight s) \<and>
     (\<forall>t. hget (ss_qos s) t = None \<longleftrightarrow> hget (ss_subs s) t = None) \<and>
     (\<forall>t q. hget (ss_qos s) t = Some q \<longrightarrow> is_valid_subscribe_filter t \<and> q \<le> 1) \<and> hget (ss_inflight s) 0 = None"

definition session_ok :: "'a session_ctx \<Rightarrow> bool" where
  "session_ok ctx \<longleftrightarrow> state_ok (sc_state ctx) \<and> list_all wf_job (sc_write ctx)"

lemma session_ok_queue: "session_ok ctx \<Longrightarrow> wf_job job \<Longrightarrow> session_ok (fst (queue_job job ctx))"
  by (simp add: session_ok_def queue_job_def)

lemma queue_job_state [simp]: "sc_state (fst (queue_job job ctx)) = sc_state ctx"
  by (simp add: queue_job_def)

lemma state_ok_subscribe:
  "state_ok s \<Longrightarrow> is_valid_subscribe_filter t \<Longrightarrow> q \<le> 1 \<Longrightarrow>
   state_ok (s\<lparr>ss_qos := hput t q (ss_qos s), ss_subs := hput t token (hdel t (ss_subs s))\<rparr>)"
  by (auto simp: state_ok_def)

lemma state_ok_unsubscribe:
  "state_ok s \<Longrightarrow> state_ok (s\<lparr>ss_subs := hdel t (ss_subs s), ss_qos := hdel t (ss_qos s)\<rparr>)"
  by (auto simp: state_ok_def)

lemma state_ok_inflight:
  "state_ok s \<Longrightarrow> p \<noteq> 0 \<Longrightarrow> state_ok (s\<lparr>ss_next_packet_id := n, ss_inflight := hput p v (ss_inflight s)\<rparr>)"
  "state_ok s \<Longrightarrow> state_ok (s\<lparr>ss_inflight := hdel p (ss_inflight s)\<rparr>)"
  by (auto simp: state_ok_def)

lemma complete_ack_ok: "session_ok (complete_ack mid lease ctx) = session_ok ctx"
  "sc_state (complete_ack mid lease ctx) = sc_state ctx"
  by (simp_all add: complete_ack_def session_ok_def split: prod.split option.split)

lemma subscribe_topic_ok:
  assumes "session_ok ctx"
  shows "session_ok (fst (subscribe_topic ch flt now f ctx)) \<and>
    ss_inflight (sc_state (fst (subscribe_topic ch flt now f ctx))) = ss_inflight (sc_state ctx)"
  using assms state_ok_subscribe [of "sc_state ctx" "trim (flt_topic f)" "min (flt_qos f) 1"]
  by (simp add: subscribe_topic_def session_ok_def Let_def split: prod.split sum.split)

lemma subscribe_all_ok:
  "session_ok ctx \<Longrightarrow> session_ok (fst (subscribe_all ch flts clock n fs ctx)) \<and>
   ss_inflight (sc_state (fst (subscribe_all ch flts clock n fs ctx))) = ss_inflight (sc_state ctx)"
proof (induction fs arbitrary: n ctx)
  case (Cons f fs)
  then show ?case using subscribe_topic_ok [OF Cons.prems, of ch "flts n" "clock n" f] by (simp add: split_beta)
qed simp

lemma unsubscribe_all_ok:
  "session_ok ctx \<Longrightarrow> session_ok (fold unsubscribe_topic ts ctx) \<and>
   ss_inflight (sc_state (fold unsubscribe_topic ts ctx)) = ss_inflight (sc_state ctx)"
proof (induction ts arbitrary: ctx)
  case (Cons t ts)
  have "session_ok (unsubscribe_topic t ctx)" "ss_inflight (sc_state (unsubscribe_topic t ctx)) = ss_inflight (sc_state ctx)"
    using Cons.prems state_ok_unsubscribe by (simp_all add: unsubscribe_topic_def session_ok_def Let_def)
  with Cons.IH [of "unsubscribe_topic t ctx"] show ?case by simp
qed simp

lemma fst_then_continue [simp]: "fst (then_continue r) = fst r"
  by (auto simp: then_continue_def split: prod.split sum.split)

lemma queue_packet_ok:
  "session_ok ctx \<Longrightarrow> wf_packet p \<Longrightarrow> session_ok (fst (queue_packet p ctx))" "sc_state (fst (queue_packet p ctx)) = sc_state ctx"
  by (simp_all add: queue_packet_def session_ok_queue)

lemma handle_packet_ok:
  assumes "session_ok ctx"
  shows "session_ok (fst (handle_packet ch flts clock p ctx)) \<and>
    length (ss_inflight (sc_state (fst (handle_packet ch flts clock p ctx)))) \<le> length (ss_inflight (sc_state ctx))"
proof (cases p)
  case (PubAck pid)
  have "session_ok (ctx\<lparr>sc_state := (sc_state ctx)\<lparr>ss_inflight := hdel pid (ss_inflight (sc_state ctx))\<rparr>\<rparr>)"
    using assms state_ok_inflight(2) by (simp add: session_ok_def)
  then show ?thesis
    using assms length_delete_le [of pid "ss_inflight (sc_state ctx)"] PubAck
    by (auto simp: handle_packet_def complete_ack_ok split: option.split)
next
  case (Publish q)
  then show ?thesis using assms by (simp add: handle_packet_def session_ok_def)
next
  case (Subscribe x)
  then show ?thesis
    using subscribe_all_ok [OF assms, of ch flts clock 0 "sub_filters x"]
    by (simp add: handle_packet_def queue_packet_ok split_beta)
next
  case (Unsubscribe x)
  then show ?thesis
    using unsubscribe_all_ok [OF assms, of "unsub_filters x"] by (simp add: handle_packet_def queue_packet_ok)
qed (use assms in \<open>simp_all add: handle_packet_def queue_packet_ok\<close>)

lemma queue_outgoing_ok:
  assumes "session_ok ctx" "short_str (sw_topic m)" "length (ss_inflight (sc_state ctx)) < 65535"
  shows "session_ok (fst (queue_outgoing m ctx)) \<and>
    length (ss_inflight (sc_state (fst (queue_outgoing m ctx)))) \<le> Suc (length (ss_inflight (sc_state ctx)))"
proof -
  let ?s = "sc_state ctx" and ?p = "alloc_packet_id (ss_next_packet_id (sc_state ctx)) (ss_inflight (sc_state ctx))"
  have "?p \<noteq> 0" using alloc_packet_id_fresh [OF assms(3)] by blast
  moreover have "session_ok (ctx\<lparr>sc_state := ?s\<lparr>ss_next_packet_id := ?p, ss_inflight := hput ?p v (ss_inflight ?s)\<rparr>\<rparr>)" for v
    using assms(1) state_ok_inflight(1) [OF _ \<open>?p \<noteq> 0\<close>] by (simp add: session_ok_def)
  moreover have "wf_job (Job_deliver (outgoing_publish 0 None m) (Some a))"
    "?p \<noteq> 0 \<Longrightarrow> wf_job (Job_deliver (outgoing_publish 1 (Some ?p) m) None)" for a
    using assms(2) by (simp_all add: outgoing_publish_def wf_publish_def)
  ultimately show ?thesis
    using assms(1) by (simp add: queue_outgoing_def Let_def session_ok_queue length_hput)
qed

fun event_ok :: "session_event \<Rightarrow> bool" where
  "event_ok (Outgoing m) \<longleftrightarrow> short_str (sw_topic m)"
| "event_ok _ \<longleftrightarrow> True"

fun outgoings :: "session_event list \<Rightarrow> nat" where
  "outgoings [] = 0"
| "outgoings (Outgoing m # es) = Suc (outgoings es)"
| "outgoings (_ # es) = outgoings es"

lemma cancel_all_ok [simp]: "session_ok (cancel_all ctx) = session_ok ctx"
  by (simp add: cancel_all_def session_ok_def)

lemma session_loop_ok:
  "session_ok ctx \<Longrightarrow> list_all event_ok es \<Longrightarrow> length (ss_inflight (sc_state ctx)) + outgoings es \<le> 65535 \<Longrightarrow>
   session_ok (fst (session_loop ch es ctx))"
proof (induction ch es ctx rule: session_loop.induct)
  case (3 ch m es ctx)
  have "session_ok (fst (queue_outgoing m ctx)) \<and>
    length (ss_inflight (sc_state (fst (queue_outgoing m ctx)))) \<le> Suc (length (ss_inflight (sc_state ctx)))"
    using 3 by (intro queue_outgoing_ok) auto
  with 3 show ?case by (auto split: prod.split sum.split)
next
  case (4 ch flts clock p es ctx)
  then show ?case
    using handle_packet_ok [OF 4(2), of ch flts clock p] by (auto split: prod.split sum.split bool.split)
qed simp_all

text \<open>
  An acknowledgement of a published message is queued only after the message was taken in, and it is
  the only thing that is queued for it.
\<close>

lemma acknowledged_after_ingest:
  assumes "ingest_and_ack env cid q br ctx = Some (br', ctx', res)"
  shows "ctx' = ctx \<or>
    (\<exists>out sent pid p. ingest env (trim (pub_topic q)) (pub_payload q) [(''mqtt_client_id'', cid)] None br = Some (br', Inr out, sent) \<and>
       is_valid_publish_topic (trim (pub_topic q)) \<and> pub_packet_id q = Some pid \<and> p \<in> {PubAck pid, PubRec pid} \<and>
       ctx' = fst (queue_packet p ctx))"
proof (cases "is_valid_publish_topic (trim (pub_topic q))")
  case True
  note e = assms [unfolded ingest_and_ack_def Let_def]
  then obtain b r sent where i: "ingest env (trim (pub_topic q)) (pub_payload q) [(''mqtt_client_id'', cid)] None br = Some (b, r, sent)"
    using True by (cases "ingest env (trim (pub_topic q)) (pub_payload q) [(''mqtt_client_id'', cid)] None br") auto
  show ?thesis
    using e True i by (cases r; cases "pub_packet_id q") (auto split: if_splits)
qed (use assms in \<open>simp add: ingest_and_ack_def Let_def\<close>)

lemma ingest_loop_ok: "session_ok ctx \<Longrightarrow> ingest_loop cid jobs br ctx = Some (br', ctx') \<Longrightarrow> session_ok ctx'"
proof (induction cid jobs br ctx rule: ingest_loop.induct)
  case (2 cid env q jobs br ctx)
  obtain br1 ctx1 res where e: "ingest_and_ack env cid q br ctx = Some (br1, ctx1, res)" "ingest_loop cid jobs br1 ctx1 = Some (br', ctx')"
    using 2(3) by (auto simp: bind_eq_Some_conv)
  have "session_ok ctx1"
    using acknowledged_after_ingest [OF e(1)] 2(2) by (auto simp: queue_packet_def intro!: session_ok_queue)
  then show ?case using 2(1) [OF e(1)] e(2) by simp
qed simp

text \<open>C22. Whatever packets and messages come, a session stays well formed: granted qualities of service are 0 or 1
  for valid filters that have a subscription, ids in flight are never 0, every packet queued for the
  client is well formed, so that the client decodes exactly that packet, and the next packet id is free as
  long as fewer than 65535 messages are in flight.\<close>

theorem session_well_formed:
  assumes "session_ok ctx" "list_all event_ok es" "length (ss_inflight (sc_state ctx)) + outgoings es \<le> 65535"
    "ctx' = fst (session_loop ch es ctx)"
  shows "session_ok ctx' \<and>
    (\<forall>job \<in> set (sc_write ctx'). length (encode (job_packet job)) \<le> MAX_PACKET_SIZE + 4 \<longrightarrow>
       decode_one (encode (job_packet job) @ rest) = (rest, Inr (Some (job_packet job)))) \<and>
    (length (ss_inflight (sc_state ctx')) < 65535 \<longrightarrow>
       alloc_packet_id next (ss_inflight (sc_state ctx')) \<noteq> 0 \<and>
       hget (ss_inflight (sc_state ctx')) (alloc_packet_id next (ss_inflight (sc_state ctx'))) = None)"
proof -
  have ok: "session_ok ctx'" unfolding assms(4) using assms(1-3) by (rule session_loop_ok)
  have "wf_packet (job_packet job)" if "job \<in> set (sc_write ctx')" for job
    using ok that by (cases job) (auto simp: session_ok_def list_all_iff)
  then show ?thesis using ok decode_one_encode alloc_packet_id_fresh by blast
qed

definition fresh_session :: "nat session_ctx" where
  "fresh_session = \<lparr>sc_state = \<lparr>ss_client_id = ''c'', ss_peer = ''p'', ss_transport = ''mqtt'', ss_version = ''3.1.1'', ss_keep_alive = 60,
       ss_qos = [(''a'', 1)], ss_inflight = [], ss_next_packet_id = 0, ss_subs = [(''a'', 3)]\<rparr>,
     sc_write = [], sc_write_open = True, sc_ingest = [], sc_ingest_open = True, sc_acks = [], sc_decisions = [],
     sc_stats = \<lparr>st_topics = [], st_config = [], st_deltas = [], st_trend_deltas = [], st_trends = []\<rparr>,
     sc_cancelled = [], sc_loops = [], sc_next_token = 4\<rparr>"

definition sample_events :: "session_event list" where
  "sample_events = [Outgoing \<lparr>sw_message_id = ''m'', sw_topic = ''a'', sw_payload = [1], sw_attributes = [], sw_created_at = [], sw_lease = ''l''\<rparr>,
     Incoming (\<lambda>_. no_faults) (\<lambda>_. 1) (PubAck 1), Incoming (\<lambda>_. no_faults) (\<lambda>_. 1) PingReq, Stop]"

theorem session_well_formed_witness:
  "\<exists>ctx'. ctx' = fst (session_loop plain_chrono sample_events fresh_session) \<and> session_ok ctx' \<and>
    (\<forall>job \<in> set (sc_write ctx'). length (encode (job_packet job)) \<le> MAX_PACKET_SIZE + 4 \<longrightarrow>
       decode_one (encode (job_packet job) @ [9]) = ([9], Inr (Some (job_packet job)))) \<and>
    (length (ss_inflight (sc_state ctx')) < 65535 \<longrightarrow>
       alloc_packet_id 0 (ss_inflight (sc_state ctx')) \<noteq> 0 \<and>
       hget (ss_inflight (sc_state ctx')) (alloc_packet_id 0 (ss_inflight (sc_state ctx'))) = None)"
proof -
  have "is_valid_subscribe_filter ''a''" by code_simp
  then have ok: "session_ok fresh_session"
    by (simp add: session_ok_def state_ok_def fresh_session_def hmap_ok_def)
  have ev: "list_all event_ok sample_events" by (simp add: sample_events_def short_str_def is_str_ascii)
  have room: "length (ss_inflight (sc_state fresh_session)) + outgoings sample_events \<le> 65535"
    by (simp add: fresh_session_def sample_events_def)
  show ?thesis using session_well_formed [OF ok ev room refl] by blast
qed

end
