(* ===== verification/Service.thy ===== *)
theory Service
  imports Delivery Auth
begin

text \<open>
  The gRPC service \<open>MessageQueue\<close> of \<open>src/src/main.rs\<close> and the registry of gRPC connections of
  \<open>src/src/grpc_conn.rs\<close>: one definition per handler, from its checks to its answer. \<open>to_json\<close> and
  \<open>from_map\<close> are the encoding and decoding of attribute maps. Requests are the fields of the
  protocol messages; log output is left out.
\<close>

subsection \<open>gRPC connections\<close>

record grpc_client_info =
  gc_peer :: string
  gc_connected_at :: string
  gc_version :: string
  gc_host :: string

record grpc_registry =
  gr_next_id :: "64 word"
  gr_clients :: "(64 word, grpc_client_info) hmap"

definition grpc_insert :: "chrono \<Rightarrow> int \<Rightarrow> string \<Rightarrow> grpc_registry \<Rightarrow> grpc_registry \<times> 64 word" where
  "grpc_insert ch now peer reg =
     (let cid = gr_next_id reg + 1
      in (\<lparr>gr_next_id = cid,
           gr_clients = hput cid \<lparr>gc_peer = peer, gc_connected_at = to_rfc3339 ch now, gc_version = [], gc_host = []\<rparr>
                          (gr_clients reg)\<rparr>, cid))"

definition grpc_remove :: "64 word \<Rightarrow> grpc_registry \<Rightarrow> grpc_registry" where
  "grpc_remove cid reg = reg\<lparr>gr_clients := hdel cid (gr_clients reg)\<rparr>"

definition touch_info :: "string \<Rightarrow> string \<Rightarrow> string \<Rightarrow> grpc_client_info \<Rightarrow> grpc_client_info" where
  "touch_info peer version host info =
     (if gc_peer info \<noteq> peer then info
      else let info = (if version = [] then info else info\<lparr>gc_version := version\<rparr>)
           in if host = [] then info else info\<lparr>gc_host := host\<rparr>)"

definition grpc_touch :: "string \<Rightarrow> string \<Rightarrow> string \<Rightarrow> grpc_registry \<Rightarrow> grpc_registry" where
  "grpc_touch peer version host reg =
     (if version = [] \<and> host = [] then reg
      else reg\<lparr>gr_clients := map (\<lambda>(cid, info). (cid, touch_info peer version host info)) (gr_clients reg)\<rparr>)"

definition grpc_clients :: "grpc_registry \<Rightarrow> grpc_client_info list" where
  "grpc_clients reg = sort_key (\<lambda>c. (gc_peer c, gc_host c)) (map snd (gr_clients reg))"

definition note_grpc_identity :: "string option \<Rightarrow> string \<Rightarrow> string \<Rightarrow> grpc_registry \<Rightarrow> grpc_registry" where
  "note_grpc_identity remote_addr version host reg =
     (case remote_addr of None \<Rightarrow> reg | Some addr \<Rightarrow> grpc_touch addr version host reg)"

text \<open>
  A connection is registered when it is accepted and removed when it is dropped; \<open>'e\<close> is the type of
  errors of the listener.
\<close>

definition accept_connection ::
  "chrono \<Rightarrow> int \<Rightarrow> 'e + string \<Rightarrow> grpc_registry \<Rightarrow> grpc_registry \<times> ('e + string \<times> 64 word)" where
  "accept_connection ch now accepted reg =
     (case accepted of
        Inl e \<Rightarrow> (reg, Inl e)
      | Inr peer \<Rightarrow> (let (reg, cid) = grpc_insert ch now peer reg in (reg, Inr (peer, cid))))"

definition drop_connection :: "string \<times> 64 word \<Rightarrow> grpc_registry \<Rightarrow> grpc_registry" where
  "drop_connection conn reg = grpc_remove (snd conn) reg"

subsection \<open>Publishing\<close>

record accept_request =
  aq_topic :: string
  aq_payload :: bytes
  aq_attributes :: "(string, string) hmap"
  aq_idempotency_key :: string

record accept_response =
  ap_message_id :: string
  ap_duplicate :: bool

text \<open>
  One message of the stream, which may itself be an error of the transport. The result also lists what
  was sent to live subscribers; \<open>None\<close> is an admission that does not return.
\<close>

definition accept_message ::
  "('s, 'a, 'j) delivery_env \<Rightarrow> status + accept_request \<Rightarrow> ('s, 'a, 'r) broker
   \<Rightarrow> (('s, 'a, 'r) broker \<times> (status + accept_response) \<times> ('s \<times> satway_message) list) option" where
  "accept_message env message br =
     (case message of
        Inl e \<Rightarrow> Some (br, Inl e, [])
      | Inr m \<Rightarrow>
          if trim (aq_topic m) = [] then Some (br, Inl (InvalidArgument ''topic is required''), [])
          else if aq_payload m = [] then Some (br, Inl (InvalidArgument ''payload is required''), [])
          else Option.bind (ingest env (trim (aq_topic m)) (aq_payload m) (aq_attributes m) (Some (aq_idempotency_key m)) br)
                 (\<lambda>(br, res, sent).
                    Some (br, (case res of
                                 Inr (Dropped mid) \<Rightarrow> Inr \<lparr>ap_message_id = mid, ap_duplicate = False\<rparr>
                               | Inr (Queued mid duplicate) \<Rightarrow> Inr \<lparr>ap_message_id = mid, ap_duplicate = duplicate\<rparr>
                               | Inl _ \<Rightarrow> Inl (Internal ''could not persist message'')), sent)))"

text \<open>
  The forwarding of the responses, in order: it ends after the first error, and when the client is gone.
\<close>

fun forward_responses :: "(nat \<Rightarrow> bool) \<Rightarrow> nat \<Rightarrow> (status + 'b) list \<Rightarrow> (status + 'b) list" where
  "forward_responses listening n [] = []"
| "forward_responses listening n (response # responses) =
     (if \<not> listening n then []
      else case response of
             Inl e \<Rightarrow> [Inl e]
           | Inr _ \<Rightarrow> response # forward_responses listening (n + 1) responses)"

text \<open>
  The messages that are taken from the stream before it is given up, one after the other, each with
  what it meets: the length of the first list says how many are taken, since up to \<open>ingest_inflight\<close> messages
  are in flight when the forwarding ends. The responses are in the order of the messages.
\<close>

fun accept_all ::
  "('s, 'a, 'j) delivery_env list \<Rightarrow> (status + accept_request) list \<Rightarrow> ('s, 'a, 'r) broker
   \<Rightarrow> (('s, 'a, 'r) broker \<times> (status + accept_response) list \<times> ('s \<times> satway_message) list) option" where
  "accept_all (env # envs) (m # ms) br =
     Option.bind (accept_message env m br) (\<lambda>(br, response, sent).
       Option.bind (accept_all envs ms br) (\<lambda>(br, responses, more_sent).
         Some (br, response # responses, sent @ more_sent)))"
| "accept_all _ _ br = Some (br, [], [])"

definition grpc_accept_messages ::
  "('s, 'a, 'j) delivery_env list \<Rightarrow> (nat \<Rightarrow> bool) \<Rightarrow> headers \<Rightarrow> string option \<Rightarrow> (status + accept_request) list \<Rightarrow> grpc_registry \<Rightarrow> ('s, 'a, 'r) broker
   \<Rightarrow> (grpc_registry \<times> ('s, 'a, 'r) broker \<times> (status + accept_response) list \<times> ('s \<times> satway_message) list) option" where
  "grpc_accept_messages envs listening metadata remote_addr inbound reg br =
     (let reg = note_grpc_identity remote_addr (metadata_client_version metadata) (metadata_client_host metadata) reg in
      Option.bind (accept_all envs inbound br) (\<lambda>(br, responses, sent). Some (reg, br, forward_responses listening 0 responses, sent)))"

subsection \<open>Consumers\<close>

record register_request =
  rq_consumer_id :: string
  rq_topic :: string
  rq_name :: string
  rq_attributes :: "(string, string) hmap"

definition grpc_register ::
  "chrono \<Rightarrow> ((string \<times> string) list \<Rightarrow> string option) \<Rightarrow> faults \<Rightarrow> int \<Rightarrow> string \<Rightarrow> headers \<Rightarrow> string option \<Rightarrow> register_request
   \<Rightarrow> grpc_registry \<Rightarrow> consumer_row list \<Rightarrow> grpc_registry \<times> consumer_row list \<times> (status + string)" where
  "grpc_register ch to_json flt now uuid metadata remote_addr request reg rows =
     (let reg = note_grpc_identity remote_addr (metadata_client_version metadata) (metadata_client_host metadata) reg in
      if trim (rq_topic request) = [] then (reg, rows, Inl (InvalidArgument ''topic is required''))
      else case register_consumer ch to_json flt now uuid (Some (rq_consumer_id request)) (trim (rq_topic request))
                  (trim (rq_name request)) (apply_client_metadata metadata (rq_attributes request)) rows of
             (rows, Inl _) \<Rightarrow> (reg, rows, Inl (Internal ''could not register consumer''))
           | (rows, Inr consumer_id) \<Rightarrow> (reg, rows, Inr consumer_id))"

definition grpc_unregister :: "faults \<Rightarrow> string \<Rightarrow> consumer_row list \<Rightarrow> consumer_row list \<times> (status + unit)" where
  "grpc_unregister flt consumer_id rows =
     (if trim consumer_id = [] then (rows, Inl (InvalidArgument ''consumer_id is required''))
      else case unregister_consumer flt (trim consumer_id) rows of
             (rows, Inl _) \<Rightarrow> (rows, Inl (Internal ''could not unregister consumer''))
           | (rows, Inr _) \<Rightarrow> (rows, Inr ()))"

text \<open>What \<open>subscribe\<close> hands to \<open>spawn_subscribe_loop\<close>.\<close>

record subscribe_args =
  sa_topic :: string
  sa_session :: string
  sa_consumer_id :: string
  sa_peer :: string
  sa_protocol :: string
  sa_version :: string
  sa_host :: string

definition stored_or :: "string \<Rightarrow> db_error + string option \<Rightarrow> string" where
  "stored_or value stored = (if value = [] then (case stored of Inr (Some s) \<Rightarrow> s | _ \<Rightarrow> value) else value)"

definition grpc_subscribe ::
  "chrono \<Rightarrow> (string \<Rightarrow> (string, string) hmap option) \<Rightarrow> (nat \<Rightarrow> faults) \<Rightarrow> int \<Rightarrow> string \<Rightarrow> headers \<Rightarrow> string option
   \<Rightarrow> string \<Rightarrow> string \<Rightarrow> grpc_registry \<Rightarrow> consumer_row list \<Rightarrow> grpc_registry \<times> consumer_row list \<times> (status + subscribe_args)" where
  "grpc_subscribe ch from_map flt now uuid metadata remote_addr topic consumer_id reg rows =
     (let version = metadata_client_version metadata; host = metadata_client_host metadata;
          reg = note_grpc_identity remote_addr version host reg;
          peer = (case remote_addr of None \<Rightarrow> [] | Some addr \<Rightarrow> addr)
      in if trim topic = [] then (reg, rows, Inl (InvalidArgument ''topic is required''))
         else let cid = trim consumer_id;
                  rows = (if cid = [] then rows else fst (touch_consumer ch (flt 0) now cid rows));
                  version = (if cid = [] then version else stored_or version (consumer_attribute from_map (flt 1) cid ''version'' rows));
                  host = (if cid = [] then host else stored_or host (consumer_attribute from_map (flt 2) cid ''host'' rows))
              in (reg, rows,
                  Inr \<lparr>sa_topic = trim topic, sa_session = (if cid = [] then uuid else cid), sa_consumer_id = cid, sa_peer = peer,
                       sa_protocol = ''grpc'', sa_version = version, sa_host = host\<rparr>))"

subsection \<open>Topic settings\<close>

record proto_topic_config =
  pt_topic :: string
  pt_delivery :: string
  pt_persistence :: string

definition to_proto_topic :: "topic_config \<Rightarrow> proto_topic_config" where
  "to_proto_topic config =
     \<lparr>pt_topic = tc_topic config, pt_delivery = delivery_as_str (tc_delivery config),
      pt_persistence = persistence_as_str (tc_persistence config)\<rparr>"

fun proto_configs :: "proto_topic_config list \<Rightarrow> status + topic_config list" where
  "proto_configs [] = Inr []"
| "proto_configs (item # items) =
     (if trim (pt_topic item) = [] then Inl (InvalidArgument ''topic is required'')
      else case delivery_parse (pt_delivery item) of
             None \<Rightarrow> Inl (InvalidArgument ''delivery must be single or broadcast'')
           | Some delivery \<Rightarrow>
               (case persistence_parse (pt_persistence item) of
                  None \<Rightarrow> Inl (InvalidArgument ''persistence must be persistent or ephemeral'')
                | Some persistence \<Rightarrow>
                    bindE (proto_configs items) (\<lambda>configs.
                      Inr (\<lparr>tc_topic = trim (pt_topic item), tc_delivery = delivery, tc_persistence = persistence\<rparr> # configs))))"

definition grpc_configure_topics ::
  "chrono \<Rightarrow> faults \<Rightarrow> (nat \<Rightarrow> int) \<Rightarrow> proto_topic_config list \<Rightarrow> stats \<Rightarrow> stats \<times> (status + proto_topic_config list)" where
  "grpc_configure_topics ch flt clock topics st =
     (if topics = [] then (st, Inl (InvalidArgument ''topics is required''))
      else case proto_configs topics of
             Inl e \<Rightarrow> (st, Inl e)
           | Inr configs \<Rightarrow>
               (case db_configure_topics ch flt clock configs st of
                  (st, Inl _) \<Rightarrow> (st, Inl (Internal ''could not configure topics''))
                | (st, Inr stored) \<Rightarrow> (st, Inr (map to_proto_topic stored))))"

definition grpc_list_topics :: "faults \<Rightarrow> stats \<Rightarrow> status + proto_topic_config list" where
  "grpc_list_topics flt st =
     (case list_topic_configs flt 0 st of
        Inl _ \<Rightarrow> Inl (Internal ''could not list topics'')
      | Inr stored \<Rightarrow> Inr (map to_proto_topic stored))"

subsection \<open>Acknowledgements\<close>

record ack_request =
  ak_message_id :: string
  ak_lease :: string
  ak_success :: bool
  ak_error :: string

abbreviation ACK_FIELDS :: string where "ACK_FIELDS \<equiv> ''message_id and lease are required''"

definition grpc_ack_message ::
  "('a \<Rightarrow> bool) \<Rightarrow> ack_request \<Rightarrow> 'a inflight_acks \<Rightarrow> 'a inflight_acks \<times> ('a \<times> ack_decision) option \<times> (status + bool)" where
  "grpc_ack_message waiting ack inflight =
     (if ak_message_id ack = [] \<or> ak_lease ack = [] then (inflight, None, Inl (InvalidArgument ACK_FIELDS))
      else let (inflight, decided, accepted) =
                 ack_complete waiting (ak_message_id ack) (ak_lease ack) (ak_success ack) (ak_error ack) inflight
           in (inflight, decided, Inr accepted))"

text \<open>The loop of \<open>ack_messages\<close>; the counter is a saturating \<open>u32\<close>.\<close>

fun ack_loop ::
  "('a \<Rightarrow> bool) \<Rightarrow> ack_request list \<Rightarrow> nat \<Rightarrow> 'a inflight_acks \<Rightarrow> 'a inflight_acks \<times> ('a \<times> ack_decision) list \<times> (status + nat)" where
  "ack_loop waiting [] accepted inflight = (inflight, [], Inr accepted)"
| "ack_loop waiting (ack # acks) accepted inflight =
     (if ak_message_id ack = [] \<or> ak_lease ack = [] then (inflight, [], Inl (InvalidArgument ACK_FIELDS))
      else let (inflight, decided, ok) =
                 ack_complete waiting (ak_message_id ack) (ak_lease ack) (ak_success ack) (ak_error ack) inflight;
               (inflight, rest, res) =
                 ack_loop waiting acks (if ok then min (accepted + 1) (2 ^ 32 - 1) else accepted) inflight
           in (inflight, (case decided of None \<Rightarrow> rest | Some d \<Rightarrow> d # rest), res))"

definition grpc_ack_messages ::
  "('a \<Rightarrow> bool) \<Rightarrow> ack_request list \<Rightarrow> 'a inflight_acks \<Rightarrow> 'a inflight_acks \<times> ('a \<times> ack_decision) list \<times> (status + nat)" where
  "grpc_ack_messages waiting acks inflight =
     (if acks = [] then (inflight, [], Inl (InvalidArgument ''acknowledgements are required''))
      else ack_loop waiting acks 0 inflight)"

subsection \<open>The registry\<close>

text \<open>A connection is listed from its acceptance until it is dropped, and nothing else changes.\<close>

lemma connection_listed:
  assumes "accept_connection ch now (Inr peer) reg = (reg1, Inr conn)"
  shows "hget (gr_clients reg1) (snd conn) = Some \<lparr>gc_peer = peer, gc_connected_at = to_rfc3339 ch now, gc_version = [], gc_host = []\<rparr> \<and>
    hget (gr_clients (drop_connection conn reg1)) = (hget (gr_clients reg))(snd conn := None)"
  using assms by (auto simp: accept_connection_def grpc_insert_def drop_connection_def grpc_remove_def Let_def update_conv' delete_conv')

text \<open>A call only fills in the identity of the connections from its address.\<close>

lemma touch_peers: "map gc_peer (map snd (gr_clients (grpc_touch peer version host reg))) = map gc_peer (map snd (gr_clients reg)) \<and>
   map gc_connected_at (map snd (gr_clients (grpc_touch peer version host reg))) = map gc_connected_at (map snd (gr_clients reg))"
  by (simp add: grpc_touch_def touch_info_def comp_def split_beta Let_def)

subsection \<open>Responses\<close>

text \<open>While the client listens, it gets one response per message, in order, up to and including the first error.\<close>

lemma forward_all:
  "\<forall>n. listening n \<Longrightarrow> forward_responses listening n responses =
     takeWhile (\<lambda>r. \<not> Sum_Type.isl r) responses @ take 1 (dropWhile (\<lambda>r. \<not> Sum_Type.isl r) responses)"
  by (induction listening n responses rule: forward_responses.induct) (auto split: sum.split)

subsection \<open>Batches of acknowledgements\<close>

abbreviation ack_valid :: "ack_request \<Rightarrow> bool" where
  "ack_valid a \<equiv> ak_message_id a \<noteq> [] \<and> ak_lease a \<noteq> []"

text \<open>The acknowledgements as single calls: the decisions made and the answers given.\<close>

fun ack_each ::
  "('a \<Rightarrow> bool) \<Rightarrow> ack_request list \<Rightarrow> 'a inflight_acks \<Rightarrow> 'a inflight_acks \<times> ('a \<times> ack_decision) list \<times> (status + bool) list" where
  "ack_each waiting [] inflight = (inflight, [], [])"
| "ack_each waiting (a # acks) inflight =
     (let (inflight, decided, answer) = grpc_ack_message waiting a inflight;
          (inflight, rest, answers) = ack_each waiting acks inflight
      in (inflight, (case decided of None \<Rightarrow> rest | Some d \<Rightarrow> d # rest), answer # answers))"

text \<open>
  A batch decides exactly what the single calls decide and counts their positive answers; with an
  invalid one it answers with an error, after it has decided those before it.
\<close>

lemma saturating_step: "min (min (n + 1) m + k) m = min (n + Suc k) (m :: nat)"
  by simp

lemma ack_loop_each:
  "list_all ack_valid acks \<Longrightarrow> n \<le> 2 ^ 32 - 1 \<Longrightarrow> ack_loop waiting acks n inflight =
    (case ack_each waiting acks inflight of
       (inflight, decided, answers) \<Rightarrow> (inflight, decided, Inr (min (n + length (filter (\<lambda>r. r = Inr True) answers)) (2 ^ 32 - 1))))"
proof (induction acks arbitrary: n inflight)
  case Nil
  then show ?case by (simp only: ack_loop.simps ack_each.simps list.size filter.simps add_0_right prod.case min_absorb1)
next
  case (Cons a acks)
  obtain i1 d ok where c: "ack_complete waiting (ak_message_id a) (ak_lease a) (ak_success a) (ak_error a) inflight = (i1, d, ok)"
    by (metis prod_cases3)
  obtain i2 ds rs where e: "ack_each waiting acks i1 = (i2, ds, rs)" by (metis prod_cases3)
  define m :: nat where "m = 2 ^ 32 - 1"
  have valid: "ak_message_id a \<noteq> []" "ak_lease a \<noteq> []" "list_all ack_valid acks" using Cons.prems(1) by simp_all
  have each: "ack_each waiting (a # acks) inflight = (i2, (case d of None \<Rightarrow> ds | Some d \<Rightarrow> d # ds), Inr ok # rs)"
    using valid c e by (simp add: grpc_ack_message_def)
  have loop: "ack_loop waiting (a # acks) n inflight =
      (case ack_loop waiting acks (if ok then min (n + 1) m else n) i1 of (i, rest, res) \<Rightarrow> (i, (case d of None \<Rightarrow> rest | Some d \<Rightarrow> d # rest), res))"
    using valid c unfolding m_def by (cases d; cases ok) (simp_all split: prod.split)
  have "(if ok then min (n + 1) m else n) \<le> m" using Cons.prems(2) by (simp add: m_def)
  with Cons.IH [OF valid(3), of "if ok then min (n + 1) m else n" i1] e
  have "ack_loop waiting acks (if ok then min (n + 1) m else n) i1 =
      (i2, ds, Inr (min ((if ok then min (n + 1) m else n) + length (filter (\<lambda>r. r = Inr True) rs)) m))"
    unfolding m_def by (simp only: prod.case)
  then show ?case unfolding loop each m_def [symmetric] by (cases ok) (simp_all add: saturating_step)
qed

lemma ack_loop_invalid:
  "list_all ack_valid acks \<Longrightarrow> \<not> ack_valid bad \<Longrightarrow>
   ack_loop waiting (acks @ bad # later) n inflight =
     (case ack_each waiting acks inflight of (inflight, decided, _) \<Rightarrow> (inflight, decided, Inl (InvalidArgument ACK_FIELDS)))"
proof (induction acks arbitrary: n inflight)
  case (Cons a acks)
  obtain i1 d ok where c: "ack_complete waiting (ak_message_id a) (ak_lease a) (ak_success a) (ak_error a) inflight = (i1, d, ok)"
    by (metis prod_cases3)
  obtain i2 ds rs where e: "ack_each waiting acks i1 = (i2, ds, rs)" by (metis prod_cases3)
  with Cons c show ?case by (simp add: grpc_ack_message_def)
qed auto

subsection \<open>Topic settings\<close>

text \<open>Settings that were listed can be sent back.\<close>

lemma proto_round_trip:
  "\<forall>c \<in> set configs. trim (tc_topic c) = tc_topic c \<and> tc_topic c \<noteq> [] \<Longrightarrow> proto_configs (map to_proto_topic configs) = Inr configs"
proof (induction configs)
  case (Cons c configs)
  have "delivery_parse (delivery_as_str (tc_delivery c)) = Some (tc_delivery c)"
    "persistence_parse (persistence_as_str (tc_persistence c)) = Some (tc_persistence c)"
    using modes_round_trip by blast+
  with Cons show ?case by (simp add: to_proto_topic_def bindE_def)
qed simp

end
