(* ===== verification/Http.thy ===== *)
theory Http
  imports Service Locks Election
begin

text \<open>
  The HTTP interface of \<open>src/src/status.rs\<close>: publishing with a commit, leased polling, topic and
  message administration, and the handlers of the cache, the locks and the elections. Routing, the
  decoding of requests and the encoding of answers belong to the web framework; a handler takes the
  fields of its request and returns the fields of its answer or an error status. A panic ends the
  connection.
\<close>

datatype http_status = BAD_REQUEST | CONFLICT | INTERNAL_SERVER_ERROR

record http_config =
  hc_ack_timeout_secs :: nat
  hc_max_delivery_attempts :: int
  hc_worker_poll_ms :: nat

definition http_config_of :: "loop_config \<Rightarrow> nat \<Rightarrow> http_config" where
  "http_config_of cfg worker_poll_ms =
     \<lparr>hc_ack_timeout_secs = max (lc_ack_timeout_secs cfg) 1,
      hc_max_delivery_attempts = max (lc_max_delivery_attempts cfg) 1,
      hc_worker_poll_ms = max worker_poll_ms 10\<rparr>"

subsection \<open>Lossy text\<close>

text \<open>
  \<open>String::from_utf8_lossy\<close>: every maximal prefix of an encoding that does not continue is replaced by
  U+FFFD. \<open>lossy_step\<close> is the number of bytes of the next character or of the next broken part.
\<close>

fun lossy_step :: "bytes \<Rightarrow> nat \<times> bool" where
  "lossy_step [] = (0, True)"
| "lossy_step (b # bs) =
     (if b < 0x80 then (1, True)
      else if 0xC2 \<le> b \<and> b \<le> 0xDF then
        (case bs of [] \<Rightarrow> (1, False) | b1 # _ \<Rightarrow> if utf8_cont b1 then (2, True) else (1, False))
      else if 0xE0 \<le> b \<and> b \<le> 0xEF then
        (case bs of
           [] \<Rightarrow> (1, False)
         | b1 # r \<Rightarrow>
             if (if b = 0xE0 then 0xA0 \<le> b1 \<and> b1 \<le> 0xBF else if b = 0xED then 0x80 \<le> b1 \<and> b1 \<le> 0x9F else utf8_cont b1)
             then (case r of [] \<Rightarrow> (2, False) | b2 # _ \<Rightarrow> if utf8_cont b2 then (3, True) else (2, False))
             else (1, False))
      else if 0xF0 \<le> b \<and> b \<le> 0xF4 then
        (case bs of
           [] \<Rightarrow> (1, False)
         | b1 # r \<Rightarrow>
             if (if b = 0xF0 then 0x90 \<le> b1 \<and> b1 \<le> 0xBF else if b = 0xF4 then 0x80 \<le> b1 \<and> b1 \<le> 0x8F else utf8_cont b1)
             then (case r of
                     [] \<Rightarrow> (2, False)
                   | b2 # r \<Rightarrow>
                       if utf8_cont b2
                       then (case r of [] \<Rightarrow> (3, False) | b3 # _ \<Rightarrow> if utf8_cont b3 then (4, True) else (3, False))
                       else (2, False))
             else (1, False))
      else (1, False))"

lemma lossy_step_positive: "bs \<noteq> [] \<Longrightarrow> 0 < fst (lossy_step bs)"
  by (cases bs) (simp_all split: list.split)

function utf8_lossy :: "bytes \<Rightarrow> bytes" where
  "utf8_lossy bs =
     (if bs = [] then []
      else let (n, ok) = lossy_step bs in (if ok then take n bs else [0xEF, 0xBF, 0xBD]) @ utf8_lossy (drop n bs))"
  by pat_completeness auto
termination
proof (relation "measure length")
  fix bs :: bytes and x n ok
  assume "bs \<noteq> []" "x = lossy_step bs" "(n, ok) = x"
  then have "0 < n" using lossy_step_positive [of bs] by (metis fst_conv)
  with \<open>bs \<noteq> []\<close> show "(drop n bs, bs) \<in> measure length" by simp
qed simp

declare utf8_lossy.simps [simp del]

definition from_utf8_lossy :: "bytes \<Rightarrow> string" where
  "from_utf8_lossy b = of_bytes (utf8_lossy b)"

subsection \<open>Topics and stored messages\<close>

definition to_body :: "topic_config \<Rightarrow> proto_topic_config" where
  "to_body config =
     \<lparr>pt_topic = tc_topic config, pt_delivery = delivery_as_str (tc_delivery config),
      pt_persistence = persistence_as_str (tc_persistence config)\<rparr>"

definition http_list_topics :: "faults \<Rightarrow> stats \<Rightarrow> http_status + proto_topic_config list" where
  "http_list_topics flt st =
     (case list_topic_configs flt 0 st of
        Inl _ \<Rightarrow> Inl INTERNAL_SERVER_ERROR
      | Inr topics \<Rightarrow> Inr (map to_body topics))"

fun body_configs :: "proto_topic_config list \<Rightarrow> http_status + topic_config list" where
  "body_configs [] = Inr []"
| "body_configs (item # items) =
     (if trim (pt_topic item) = [] then Inl BAD_REQUEST
      else case delivery_parse (pt_delivery item) of
             None \<Rightarrow> Inl BAD_REQUEST
           | Some delivery \<Rightarrow>
               (case persistence_parse (pt_persistence item) of
                  None \<Rightarrow> Inl BAD_REQUEST
                | Some persistence \<Rightarrow>
                    bindE (body_configs items) (\<lambda>configs.
                      Inr (\<lparr>tc_topic = trim (pt_topic item), tc_delivery = delivery, tc_persistence = persistence\<rparr> # configs))))"

definition http_configure_topics ::
  "chrono \<Rightarrow> faults \<Rightarrow> (nat \<Rightarrow> int) \<Rightarrow> proto_topic_config list \<Rightarrow> stats \<Rightarrow> stats \<times> (http_status + proto_topic_config list)" where
  "http_configure_topics ch flt clock topics st =
     (if topics = [] then (st, Inl BAD_REQUEST)
      else case body_configs topics of
             Inl e \<Rightarrow> (st, Inl e)
           | Inr configs \<Rightarrow>
               (case db_configure_topics ch flt clock configs st of
                  (st, Inl _) \<Rightarrow> (st, Inl INTERNAL_SERVER_ERROR)
                | (st, Inr topics) \<Rightarrow> (st, Inr (map to_body topics))))"

definition http_message_trends :: "chrono \<Rightarrow> faults \<Rightarrow> int \<Rightarrow> nat option \<Rightarrow> stats \<Rightarrow> http_status + trend_row list" where
  "http_message_trends ch flt now minutes st =
     (case message_trends ch flt now (case minutes of None \<Rightarrow> 180 | Some m \<Rightarrow> m) st of
        Inl _ \<Rightarrow> Inl INTERNAL_SERVER_ERROR
      | Inr points \<Rightarrow> Inr points)"

record 'j message_body =
  mb_id :: string
  mb_topic :: string
  mb_payload :: string
  mb_payload_encoding :: string
  mb_truncated :: bool
  mb_attributes :: 'j
  mb_status :: string
  mb_attempts :: int
  mb_created_at :: string
  mb_delivered_at :: "string option"
  mb_last_error :: "string option"

definition to_message_body :: "'j stored_message \<Rightarrow> 'j message_body" where
  "to_message_body m =
     (let (payload, enc, truncated) = message_body_payload (sm_payload m)
      in \<lparr>mb_id = sm_id m, mb_topic = sm_topic m, mb_payload = payload, mb_payload_encoding = enc, mb_truncated = truncated,
          mb_attributes = sm_attributes m, mb_status = sm_status m, mb_attempts = sm_attempts m, mb_created_at = sm_created m,
          mb_delivered_at = sm_delivered m, mb_last_error = sm_error m\<rparr>)"

text \<open>The topic, the offset, the total and the message of a page.\<close>

definition http_topic_message ::
  "'j \<Rightarrow> (string \<Rightarrow> 'j option) \<Rightarrow> faults \<Rightarrow> string \<Rightarrow> int \<Rightarrow> database
   \<Rightarrow> http_status + string \<times> int \<times> int \<times> 'j message_body option" where
  "http_topic_message empty_object from_json flt topic offset db =
     (if trim topic = [] then Inl BAD_REQUEST
      else case topic_message_page empty_object from_json flt (trim topic) offset db of
             Inl _ \<Rightarrow> Inl INTERNAL_SERVER_ERROR
           | Inr page \<Rightarrow> Inr (trim topic, tp_offset page, tp_total page, map_option to_message_body (tp_message page)))"

definition http_clear_topic ::
  "chrono \<Rightarrow> faults \<Rightarrow> int \<Rightarrow> (string \<times> topic_delta) list \<Rightarrow> string \<Rightarrow> database \<Rightarrow> database \<times> (http_status + string \<times> nat)" where
  "http_clear_topic ch flt now meanwhile topic db =
     (if trim topic = [] then (db, Inl BAD_REQUEST)
      else case clear_topic_messages ch flt now meanwhile (trim topic) db of
             (db, Inl _) \<Rightarrow> (db, Inl INTERNAL_SERVER_ERROR)
           | (db, Inr deleted) \<Rightarrow> (db, Inr (trim topic, deleted)))"

subsection \<open>Publishing\<close>

record publish_result =
  pr_message_id :: string
  pr_duplicate :: bool
  pr_dropped :: bool

text \<open>The payload is a JSON value: the bytes of a string, or its serialisation \<open>to_vec\<close>.\<close>

definition publish_payload :: "('v \<Rightarrow> string option) \<Rightarrow> ('v \<Rightarrow> bytes option) \<Rightarrow> 'v \<Rightarrow> bytes option" where
  "publish_payload as_str to_vec payload =
     (case as_str payload of Some s \<Rightarrow> Some (as_bytes s) | None \<Rightarrow> to_vec payload)"

definition trimmed_key :: "string option \<Rightarrow> string option" where
  "trimmed_key key = (case key of None \<Rightarrow> None | Some k \<Rightarrow> if trim k = [] then None else Some (trim k))"

definition publish_answer :: "ingested \<Rightarrow> publish_result" where
  "publish_answer ingested =
     (case ingested of
        Queued mid duplicate \<Rightarrow> \<lparr>pr_message_id = mid, pr_duplicate = duplicate, pr_dropped = False\<rparr>
      | Dropped mid \<Rightarrow> \<lparr>pr_message_id = mid, pr_duplicate = False, pr_dropped = True\<rparr>)"

text \<open>
  \<open>env\<close> is met by the handler itself, \<open>inner_env\<close> by the nested \<open>ingest\<close>. \<open>None\<close> is an admission that
  does not return.
\<close>

definition http_publish ::
  "('v \<Rightarrow> string option) \<Rightarrow> ('v \<Rightarrow> bytes option) \<Rightarrow> ((string \<times> string) list \<Rightarrow> string option)
   \<Rightarrow> ('s, 'a, 'j) delivery_env \<Rightarrow> ('s, 'a, 'j) delivery_env \<Rightarrow> string \<Rightarrow> 'v \<Rightarrow> (string, string) hmap \<Rightarrow> string option
   \<Rightarrow> ('s, 'a, 'r) broker
   \<Rightarrow> (('s, 'a, 'r) broker \<times> (http_status + publish_result) \<times> ('s \<times> satway_message) list) option" where
  "http_publish as_str to_vec to_json env inner_env topic payload attributes key br =
     (let topic = trim topic in
      if topic = [] then Some (br, Inl BAD_REQUEST, [])
      else case publish_payload as_str to_vec payload of
             None \<Rightarrow> Some (br, Inl BAD_REQUEST, [])
           | Some payload \<Rightarrow>
               if payload = [] then Some (br, Inl BAD_REQUEST, [])
               else let (st, config) = db_topic_config (de_faults env 0) topic (db_stats (br_db br));
                        br = br\<lparr>br_db := set_stats st (br_db br)\<rparr>
                    in case config of
                         Inl _ \<Rightarrow> Some (br, Inl INTERNAL_SERVER_ERROR, [])
                       | Inr cfg \<Rightarrow>
                           if tc_persistence cfg = Persistent
                           then (case db_enqueue (de_chrono env) to_json (de_faults env 1) (de_clock env 1) (de_clock env 2) (de_uuid env 0)
                                        (trimmed_key key) topic payload attributes (br_db br) of
                                   (db, Inl _) \<Rightarrow> Some (br\<lparr>br_db := db\<rparr>, Inl INTERNAL_SERVER_ERROR, [])
                                 | (db, Inr (mid, duplicate)) \<Rightarrow>
                                     Some (br\<lparr>br_db := db,
                                              br_writer := (if duplicate then br_writer br else notify_ready topic (br_writer br))\<rparr>,
                                           Inr (publish_answer (Queued mid duplicate)), []))
                           else Option.bind (ingest inner_env topic payload attributes (trimmed_key key) br) (\<lambda>(br, res, sent).
                                  Some (br, (case res of Inl _ \<Rightarrow> Inl INTERNAL_SERVER_ERROR
                                                       | Inr ingested \<Rightarrow> Inr (publish_answer ingested)), sent)))"

subsection \<open>Leased polling\<close>

record poll_body =
  pb_topic :: string
  pb_consumer_id :: string
  pb_consumer_name :: string
  pb_wait_ms :: nat
  pb_attributes :: "(string, string) hmap"

text \<open>
  What the rounds of a poll meet: the failing statements, clock readings and leases of each claim,
  the monotonic clock after it, and what other tasks do to the database before the next round.
\<close>

record 'j poll_env =
  pl_chrono :: chrono
  pl_json :: "string \<Rightarrow> 'j option"
  pl_faults :: "nat \<Rightarrow> faults"
  pl_clock :: "nat \<Rightarrow> nat \<Rightarrow> int"
  pl_uuid :: "nat \<Rightarrow> nat \<Rightarrow> string"
  pl_instant :: "nat \<Rightarrow> int"
  pl_others :: "nat \<Rightarrow> database \<Rightarrow> database"

text \<open>The inner \<open>None\<close> is the answer without content.\<close>

partial_function (option) poll_loop ::
  "'j poll_env \<Rightarrow> http_config \<Rightarrow> string \<Rightarrow> nat \<Rightarrow> int \<Rightarrow> nat \<Rightarrow> database
   \<Rightarrow> (database \<times> (http_status + 'j claimed_message option) outcome) option" where
  "poll_loop env hc topic wait deadline n db =
     (case claim_batch_for_filter (pl_chrono env) (pl_json env) (pl_faults env n) (pl_clock env n) (pl_uuid env n) topic
             (hc_ack_timeout_secs hc * 10 ^ 9) 1 db of
        (db, Panic) \<Rightarrow> Some (db, Panic)
      | (db, Returned (Inl _)) \<Rightarrow> Some (db, Returned (Inl INTERNAL_SERVER_ERROR))
      | (db, Returned (Inr ms)) \<Rightarrow>
          if ms \<noteq> [] then Some (db, Returned (Inr (Some (last ms))))
          else if wait = 0 \<or> deadline \<le> pl_instant env n then Some (db, Returned (Inr None))
          else poll_loop env hc topic wait deadline (n + 1) (pl_others env n db))"

text \<open>
  The checks, the registration of the consumer and the loop. \<open>started\<close> is the monotonic clock
  before the loop; \<open>flt 0\<close> and \<open>flt 1\<close> are the failing statements of the two calls before it.
\<close>

definition http_consume_poll ::
  "((string \<times> string) list \<Rightarrow> string option) \<Rightarrow> (nat \<Rightarrow> faults) \<Rightarrow> int \<Rightarrow> int \<Rightarrow> string \<Rightarrow> 'j poll_env \<Rightarrow> http_config \<Rightarrow> poll_body
   \<Rightarrow> 'r queue_writer \<Rightarrow> broker_db
   \<Rightarrow> ('r queue_writer \<times> broker_db \<times> (http_status + 'j consume_message_body option) outcome) option" where
  "http_consume_poll to_json flt now started uuid env hc body w bd =
     (let topic = trim (pb_topic body); consumer_id = trim (pb_consumer_id body) in
      if topic = [] \<or> consumer_id = [] then Some (w, bd, Returned (Inl BAD_REQUEST))
      else let (st, config) = db_topic_config (flt 0) topic (db_stats (bd_queue bd));
               bd = bd\<lparr>bd_queue := set_stats st (bd_queue bd)\<rparr>
           in case config of
                Inl _ \<Rightarrow> Some (w, bd, Returned (Inl INTERNAL_SERVER_ERROR))
              | Inr cfg \<Rightarrow>
                  if tc_persistence cfg \<noteq> Persistent \<or> tc_delivery cfg \<noteq> Single then Some (w, bd, Returned (Inl CONFLICT))
                  else let attributes = or_insert ''protocol'' ''http-poll'' (pb_attributes body);
                           name = (if trim (pb_consumer_name body) = [] then consumer_id else trim (pb_consumer_name body));
                           (rows, registered) = register_consumer (pl_chrono env) to_json (flt 1) now uuid (Some consumer_id)
                                                  topic name attributes (bd_consumers bd);
                           bd = bd\<lparr>bd_consumers := rows\<rparr>
                       in case registered of
                            Inl _ \<Rightarrow> Some (w, bd, Returned (Inl INTERNAL_SERVER_ERROR))
                          | Inr _ \<Rightarrow>
                              let wait = min (pb_wait_ms body) 30000;
                                  (w, _) = writer_subscribe topic w
                              in Option.bind (poll_loop env hc topic wait (started + int wait * 1000000) 0 (bd_queue bd)) (\<lambda>(q, res).
                                   Some (w, bd\<lparr>bd_queue := q\<rparr>,
                                         (case res of
                                            Panic \<Rightarrow> Panic
                                          | Returned (Inl e) \<Rightarrow> Returned (Inl e)
                                          | Returned (Inr m) \<Rightarrow>
                                              Returned (Inr (map_option (\<lambda>m. to_consume_message m (hc_ack_timeout_secs hc)
                                                               (hc_max_delivery_attempts hc)) m))))))"

record consume_ack_body =
  ca_message_id :: string
  ca_lease :: string
  ca_success :: bool
  ca_error :: string

text \<open>
  An acceptance goes through the writer: \<open>answer\<close> is what arrives at \<open>reply\<close>, \<open>None\<close> when the writer
  stopped. A rejection is written at once.
\<close>

definition http_consume_ack ::
  "chrono \<Rightarrow> faults \<Rightarrow> int \<Rightarrow> http_config \<Rightarrow> 'r \<Rightarrow> (db_error + bool) option \<Rightarrow> consume_ack_body
   \<Rightarrow> 'r queue_writer \<Rightarrow> database \<Rightarrow> 'r queue_writer \<times> database \<times> (http_status + unit) outcome" where
  "http_consume_ack ch flt now hc reply answer body w db =
     (let mid = trim (ca_message_id body); lease = trim (ca_lease body);
          accept = (\<lambda>accepted. if accepted then Inr () else Inl CONFLICT)
      in if mid = [] \<or> lease = [] then (w, db, Returned (Inl BAD_REQUEST))
         else if ca_success body
         then (case writer_delivered mid lease reply w of
                 (w, Inl _) \<Rightarrow> (w, db, Returned (Inl INTERNAL_SERVER_ERROR))
               | (w, Inr _) \<Rightarrow>
                   (w, db, Returned (case answer of
                                       Some (Inr accepted) \<Rightarrow> accept accepted
                                     | _ \<Rightarrow> Inl INTERNAL_SERVER_ERROR)))
         else let error = (if trim (ca_error body) = [] then ''consumer rejected message'' else trim (ca_error body))
              in case failed ch flt now now now mid lease error (hc_max_delivery_attempts hc) db of
                   (db, Panic) \<Rightarrow> (w, db, Panic)
                 | (db, Returned (Inl _)) \<Rightarrow> (w, db, Returned (Inl INTERNAL_SERVER_ERROR))
                 | (db, Returned (Inr accepted)) \<Rightarrow> (w, db, Returned (accept accepted)))"

text \<open>The answer to a renewal is the visibility timeout in milliseconds.\<close>

definition http_consume_renew ::
  "chrono \<Rightarrow> faults \<Rightarrow> int \<Rightarrow> http_config \<Rightarrow> string \<Rightarrow> string \<Rightarrow> database \<Rightarrow> database \<times> (http_status + nat) outcome" where
  "http_consume_renew ch flt now hc message_id lease db =
     (let mid = trim message_id; lease = trim lease in
      if mid = [] \<or> lease = [] then (db, Returned (Inl BAD_REQUEST))
      else case renew_claim ch flt now mid lease (hc_ack_timeout_secs hc * 10 ^ 9) db of
             (db, Panic) \<Rightarrow> (db, Panic)
           | (db, Returned (Inl _)) \<Rightarrow> (db, Returned (Inl INTERNAL_SERVER_ERROR))
           | (db, Returned (Inr renewed)) \<Rightarrow>
               (db, Returned (if renewed then Inr (min (hc_ack_timeout_secs hc * 1000) (2 ^ 64 - 1)) else Inl CONFLICT)))"

subsection \<open>The cache\<close>

record cache_value_body =
  cv_key :: string
  cv_found :: bool
  cv_value :: "string option"
  cv_ttl_seconds :: int

definition http_cache_get ::
  "chrono \<Rightarrow> int \<Rightarrow> int \<Rightarrow> int \<Rightarrow> string \<Rightarrow> cache_store \<Rightarrow> cache_store \<times> (http_status + cache_value_body) outcome" where
  "http_cache_get ch t_get t_ttl t_ttl2 key s =
     (let key = trim key in
      if key = [] then (s, Returned (Inl BAD_REQUEST))
      else case cache_get t_get key s of
             (s, Panic) \<Rightarrow> (s, Panic)
           | (s, Returned value) \<Rightarrow>
               (case cache_ttl ch t_ttl t_ttl2 key s of
                  (s, Panic) \<Rightarrow> (s, Panic)
                | (s, Returned ttl) \<Rightarrow>
                    (s, Returned (Inr \<lparr>cv_key = key, cv_found = (value \<noteq> None),
                           cv_value = map_option (\<lambda>(bytes, _). from_utf8_lossy bytes) value, cv_ttl_seconds = ttl\<rparr>))))"

definition http_cache_set ::
  "chrono \<Rightarrow> int \<Rightarrow> int \<Rightarrow> int \<Rightarrow> string \<Rightarrow> string \<Rightarrow> int \<Rightarrow> cache_store \<Rightarrow> cache_store \<times> (http_status + string) outcome" where
  "http_cache_set ch t_expire t_access now key value ttl_seconds s =
     (let key = trim key in
      if key = [] then (s, Returned (Inl BAD_REQUEST))
      else case cache_set ch t_expire t_access now key (as_bytes value) ''string'' ttl_seconds s of
             (s, Panic) \<Rightarrow> (s, Panic)
           | (s, Returned _) \<Rightarrow> (s, Returned (Inr key)))"

definition http_cache_delete :: "string \<Rightarrow> cache_store \<Rightarrow> cache_store \<times> (http_status + string \<times> bool) outcome" where
  "http_cache_delete key s =
     (let key = trim key in
      if key = [] then (s, Returned (Inl BAD_REQUEST))
      else case cache_delete key s of
             (s, Panic) \<Rightarrow> (s, Panic)
           | (s, Returned deleted) \<Rightarrow> (s, Returned (Inr (key, deleted))))"

definition http_cache_incr ::
  "chrono \<Rightarrow> int \<Rightarrow> int \<Rightarrow> int \<Rightarrow> string \<Rightarrow> int \<Rightarrow> int \<Rightarrow> cache_store \<Rightarrow> cache_store \<times> (http_status + string \<times> int) outcome" where
  "http_cache_incr ch now t_expire t_access key delta ttl_seconds s =
     (let key = trim key in
      if key = [] then (s, Returned (Inl BAD_REQUEST))
      else case cache_incr ch now t_expire t_access key delta ttl_seconds s of
             (s, Panic) \<Rightarrow> (s, Panic)
           | (s, Returned (Inl _)) \<Rightarrow> (s, Returned (Inl INTERNAL_SERVER_ERROR))
           | (s, Returned (Inr value)) \<Rightarrow> (s, Returned (Inr (key, value))))"

definition http_cache_keys ::
  "chrono \<Rightarrow> int \<Rightarrow> cache_store \<Rightarrow> cache_store \<times> (http_status + (string \<times> string \<times> string \<times> int) list) outcome" where
  "http_cache_keys ch now s =
     (case cache_entries ch now s of
        (s, Panic) \<Rightarrow> (s, Panic)
      | (s, Returned entries) \<Rightarrow>
          (s, Returned (Inr (map (\<lambda>(key, value, value_type, ttl). (key, from_utf8_lossy value, value_type, ttl)) entries))))"

subsection \<open>Locks\<close>

definition http_lock_get :: "chrono \<Rightarrow> faults \<Rightarrow> int \<Rightarrow> string \<Rightarrow> lock_table \<Rightarrow> http_status + string \<times> bool" where
  "http_lock_get ch flt now key rows =
     (let key = trim key in
      if key = [] then Inl BAD_REQUEST
      else case lock_is_locked ch flt now key rows of
             Inl _ \<Rightarrow> Inl INTERNAL_SERVER_ERROR
           | Inr locked \<Rightarrow> Inr (key, locked))"

definition http_lock_acquire ::
  "chrono \<Rightarrow> faults \<Rightarrow> int \<Rightarrow> int \<Rightarrow> int \<Rightarrow> string \<Rightarrow> string \<Rightarrow> int \<Rightarrow> lock_table
   \<Rightarrow> lock_table \<times> (http_status + string \<times> bool) outcome" where
  "http_lock_acquire ch flt t1 t2 t3 key owner ttl_seconds rows =
     (let key = trim key; owner = trim owner in
      if key = [] \<or> owner = [] \<or> ttl_seconds \<le> 0 then (rows, Returned (Inl BAD_REQUEST))
      else case lock_acquire ch flt t1 t2 t3 key owner ttl_seconds rows of
             (rows, Panic) \<Rightarrow> (rows, Panic)
           | (rows, Returned (Inl _)) \<Rightarrow> (rows, Returned (Inl INTERNAL_SERVER_ERROR))
           | (rows, Returned (Inr acquired)) \<Rightarrow> (rows, Returned (Inr (key, acquired))))"

definition http_lock_renew ::
  "chrono \<Rightarrow> faults \<Rightarrow> int \<Rightarrow> string \<Rightarrow> string \<Rightarrow> int \<Rightarrow> lock_table \<Rightarrow> lock_table \<times> (http_status + string \<times> bool) outcome" where
  "http_lock_renew ch flt now key owner ttl_seconds rows =
     (let key = trim key; owner = trim owner in
      if key = [] \<or> owner = [] \<or> ttl_seconds \<le> 0 then (rows, Returned (Inl BAD_REQUEST))
      else case lock_renew ch flt now key owner ttl_seconds rows of
             (rows, Panic) \<Rightarrow> (rows, Panic)
           | (rows, Returned (Inl _)) \<Rightarrow> (rows, Returned (Inl INTERNAL_SERVER_ERROR))
           | (rows, Returned (Inr renewed)) \<Rightarrow> (rows, Returned (Inr (key, renewed))))"

definition http_lock_release ::
  "faults \<Rightarrow> string \<Rightarrow> string \<Rightarrow> lock_table \<Rightarrow> lock_table \<times> (http_status + string \<times> bool)" where
  "http_lock_release flt key owner rows =
     (let key = trim key; owner = trim owner in
      if key = [] \<or> owner = [] then (rows, Inl BAD_REQUEST)
      else case lock_release flt key owner rows of
             (rows, Inl _) \<Rightarrow> (rows, Inl INTERNAL_SERVER_ERROR)
           | (rows, Inr released) \<Rightarrow> (rows, Inr (key, released)))"

definition http_lock_list ::
  "chrono \<Rightarrow> faults \<Rightarrow> int \<Rightarrow> lock_table \<Rightarrow> lock_table \<times> (http_status + (string \<times> string \<times> string \<times> string) list)" where
  "http_lock_list ch flt now rows =
     (case lock_list ch flt now rows of
        (rows, Inl _) \<Rightarrow> (rows, Inl INTERNAL_SERVER_ERROR)
      | (rows, Inr locks) \<Rightarrow> (rows, Inr locks))"

subsection \<open>Elections\<close>

definition required_election_value :: "string \<Rightarrow> http_status + string" where
  "required_election_value value = (let value = trim value in if value = [] then Inl BAD_REQUEST else Inr value)"

definition validate_election_ttl :: "int \<Rightarrow> http_status + unit" where
  "validate_election_ttl ttl = (if 1 \<le> ttl \<and> ttl \<le> 3600 then Inr () else Inl BAD_REQUEST)"

definition election_leader_body :: "(int \<Rightarrow> string) \<Rightarrow> int \<Rightarrow> leader_lease \<Rightarrow> election_leader" where
  "election_leader_body timestamp now l =
     \<lparr>el_election = ll_election l, el_leader_id = ll_leader_id l, el_term = ll_term l, el_lease_id = ll_lease_id l,
      el_expire_at = timestamp (ll_expire_at_ms l), el_remaining_ttl_ms = max (sat_i64 (ll_expire_at_ms l - now)) 0\<rparr>"

definition http_election_get ::
  "(int \<Rightarrow> string) \<Rightarrow> faults \<Rightarrow> int \<Rightarrow> int \<Rightarrow> string \<Rightarrow> election_table \<Rightarrow> http_status + bool \<times> bool \<times> election_leader option" where
  "http_election_get timestamp flt now t_body election rows =
     bindE (required_election_value election) (\<lambda>e.
       case election_get flt e rows of
         Inl _ \<Rightarrow> Inl INTERNAL_SERVER_ERROR
       | Inr leader \<Rightarrow>
           Inr (leader \<noteq> None, (case leader of None \<Rightarrow> False | Some l \<Rightarrow> lease_active now l),
                map_option (election_leader_body timestamp t_body) leader))"

definition http_election_campaign ::
  "(int \<Rightarrow> string) \<Rightarrow> faults \<Rightarrow> int \<Rightarrow> int \<Rightarrow> int \<Rightarrow> string \<Rightarrow> string \<Rightarrow> string \<Rightarrow> int \<Rightarrow> election_table
   \<Rightarrow> election_table \<times> (http_status + bool \<times> election_leader)" where
  "http_election_campaign timestamp flt now t_active t_body lease election candidate ttl rows =
     (case bindE (required_election_value election) (\<lambda>e.
           bindE (required_election_value candidate) (\<lambda>c.
           bindE (validate_election_ttl ttl) (\<lambda>_. Inr (e, c)))) of
        Inl st \<Rightarrow> (rows, Inl st)
      | Inr (e, c) \<Rightarrow>
          (case campaign timestamp flt now t_active lease e c ttl rows of
             (rows, Inl _) \<Rightarrow> (rows, Inl INTERNAL_SERVER_ERROR)
           | (rows, Inr (won, leader)) \<Rightarrow> (rows, Inr (won, election_leader_body timestamp t_body leader))))"

definition http_election_renew ::
  "(int \<Rightarrow> string) \<Rightarrow> faults \<Rightarrow> int \<Rightarrow> int \<Rightarrow> string \<Rightarrow> string \<Rightarrow> nat \<Rightarrow> string \<Rightarrow> int \<Rightarrow> election_table
   \<Rightarrow> election_table \<times> (http_status + bool \<times> election_leader option)" where
  "http_election_renew timestamp flt now t_body election leader term lease ttl rows =
     (case bindE (required_election_value election) (\<lambda>e.
           bindE (required_election_value leader) (\<lambda>l.
           bindE (required_election_value lease) (\<lambda>i.
           if term = 0 then Inl BAD_REQUEST else bindE (validate_election_ttl ttl) (\<lambda>_. Inr (e, l, i))))) of
        Inl st \<Rightarrow> (rows, Inl st)
      | Inr (e, l, i) \<Rightarrow>
          (case renew timestamp flt now e l term i ttl rows of
             (rows, Inl _) \<Rightarrow> (rows, Inl INTERNAL_SERVER_ERROR)
           | (rows, Inr leader) \<Rightarrow> (rows, Inr (leader \<noteq> None, map_option (election_leader_body timestamp t_body) leader))))"

definition http_election_resign ::
  "(int \<Rightarrow> string) \<Rightarrow> faults \<Rightarrow> int \<Rightarrow> string \<Rightarrow> string \<Rightarrow> nat \<Rightarrow> string \<Rightarrow> election_table
   \<Rightarrow> election_table \<times> (http_status + bool)" where
  "http_election_resign timestamp flt now election leader term lease rows =
     (case bindE (required_election_value election) (\<lambda>e.
           bindE (required_election_value leader) (\<lambda>l.
           bindE (required_election_value lease) (\<lambda>i.
           if term = 0 then Inl BAD_REQUEST else Inr (e, l, i)))) of
        Inl st \<Rightarrow> (rows, Inl st)
      | Inr (e, l, i) \<Rightarrow>
          (case resign timestamp flt now e l term i rows of
             (rows, Inl _) \<Rightarrow> (rows, Inl INTERNAL_SERVER_ERROR)
           | (rows, Inr resigned) \<Rightarrow> (rows, Inr resigned)))"

subsection \<open>Lossy text is text\<close>

lemma valid_utf8_cases:
  "b < 0x80 \<Longrightarrow> valid_utf8 (b # bs) = valid_utf8 bs"
  "\<not> b < 0x80 \<Longrightarrow> 0xC2 \<le> b \<Longrightarrow> b \<le> 0xDF \<Longrightarrow> valid_utf8 (b # b1 # bs) = (utf8_cont b1 \<and> valid_utf8 bs)"
  "\<not> b < 0x80 \<Longrightarrow> \<not> (0xC2 \<le> b \<and> b \<le> 0xDF) \<Longrightarrow> 0xE0 \<le> b \<Longrightarrow> b \<le> 0xEF \<Longrightarrow>
   valid_utf8 (b # b1 # b2 # bs) =
     ((if b = 0xE0 then 0xA0 \<le> b1 \<and> b1 \<le> 0xBF else if b = 0xED then 0x80 \<le> b1 \<and> b1 \<le> 0x9F else utf8_cont b1) \<and>
      utf8_cont b2 \<and> valid_utf8 bs)"
  "\<not> b < 0x80 \<Longrightarrow> \<not> (0xC2 \<le> b \<and> b \<le> 0xDF) \<Longrightarrow> \<not> (0xE0 \<le> b \<and> b \<le> 0xEF) \<Longrightarrow> 0xF0 \<le> b \<Longrightarrow> b \<le> 0xF4 \<Longrightarrow>
   valid_utf8 (b # b1 # b2 # b3 # bs) =
     ((if b = 0xF0 then 0x90 \<le> b1 \<and> b1 \<le> 0xBF else if b = 0xF4 then 0x80 \<le> b1 \<and> b1 \<le> 0x8F else utf8_cont b1) \<and>
      utf8_cont b2 \<and> utf8_cont b3 \<and> valid_utf8 bs)"
  by (subst valid_utf8.simps, simp only: if_True if_False list.case simp_thms)+

text \<open>A complete character at the front, by its length.\<close>

lemma lossy_step_char:
  assumes "lossy_step bs = (n, True)" "bs \<noteq> []"
  obtains ds rest where "bs = ds @ rest" "length ds = n" "\<And>cs. valid_utf8 (ds @ cs) = valid_utf8 cs"
proof (cases bs)
  case (Cons b r)
  consider (a) "b < 0x80" | (b) "\<not> b < 0x80" "0xC2 \<le> b" "b \<le> 0xDF"
    | (c) "\<not> b < 0x80" "\<not> (0xC2 \<le> b \<and> b \<le> 0xDF)" "0xE0 \<le> b" "b \<le> 0xEF"
    | (d) "\<not> b < 0x80" "\<not> (0xC2 \<le> b \<and> b \<le> 0xDF)" "\<not> (0xE0 \<le> b \<and> b \<le> 0xEF)" "0xF0 \<le> b" "b \<le> 0xF4"
    | (e) "\<not> b < 0x80" "\<not> (0xC2 \<le> b \<and> b \<le> 0xDF)" "\<not> (0xE0 \<le> b \<and> b \<le> 0xEF)" "\<not> (0xF0 \<le> b \<and> b \<le> 0xF4)"
    by blast
  then show ?thesis
  proof cases
    case a
    with assms Cons show ?thesis by (intro that [of "[b]" r]) (simp_all add: valid_utf8_cases(1))
  next
    case b
    with assms Cons obtain b1 r1 where "r = b1 # r1" "utf8_cont b1" "n = 2" by (cases r) (simp_all split: if_splits)
    with b Cons show ?thesis by (intro that [of "[b, b1]" r1]) (simp_all add: valid_utf8_cases(2))
  next
    case c
    with assms Cons obtain b1 b2 r2 where "r = b1 # b2 # r2" "n = 3" "utf8_cont b2"
      "if b = 0xE0 then 0xA0 \<le> b1 \<and> b1 \<le> 0xBF else if b = 0xED then 0x80 \<le> b1 \<and> b1 \<le> 0x9F else utf8_cont b1"
      by (cases r; cases "tl r") (simp_all split: if_splits)
    with c Cons show ?thesis by (intro that [of "[b, b1, b2]" r2]) (simp_all add: valid_utf8_cases(3) del: valid_utf8.simps)
  next
    case d
    with assms Cons obtain b1 b2 b3 r3 where "r = b1 # b2 # b3 # r3" "n = 4" "utf8_cont b2" "utf8_cont b3"
      "if b = 0xF0 then 0x90 \<le> b1 \<and> b1 \<le> 0xBF else if b = 0xF4 then 0x80 \<le> b1 \<and> b1 \<le> 0x8F else utf8_cont b1"
      by (cases r; cases "tl r"; cases "tl (tl r)") (simp_all split: if_splits)
    with d Cons show ?thesis by (intro that [of "[b, b1, b2, b3]" r3]) (simp_all add: valid_utf8_cases(4) del: valid_utf8.simps)
  next
    case e
    with assms Cons show ?thesis by simp
  qed
qed (use assms in simp)

lemma lossy_step_ok:
  assumes "valid_utf8 bs"
  shows "snd (lossy_step bs)"
proof (cases bs)
  case (Cons b r)
  consider (a) "b < 0x80" | (b) "\<not> b < 0x80" "0xC2 \<le> b \<and> b \<le> 0xDF"
    | (c) "\<not> b < 0x80" "\<not> (0xC2 \<le> b \<and> b \<le> 0xDF)" "0xE0 \<le> b \<and> b \<le> 0xEF"
    | (d) "\<not> b < 0x80" "\<not> (0xC2 \<le> b \<and> b \<le> 0xDF)" "\<not> (0xE0 \<le> b \<and> b \<le> 0xEF)" "0xF0 \<le> b \<and> b \<le> 0xF4"
    | (e) "\<not> b < 0x80" "\<not> (0xC2 \<le> b \<and> b \<le> 0xDF)" "\<not> (0xE0 \<le> b \<and> b \<le> 0xEF)" "\<not> (0xF0 \<le> b \<and> b \<le> 0xF4)"
    by blast
  then show ?thesis
  proof cases
    case a
    with Cons show ?thesis by simp
  next
    case b
    with assms Cons obtain b1 r1 where "r = b1 # r1" "utf8_cont b1" by (cases r) simp_all
    with b Cons show ?thesis by simp
  next
    case c
    with assms Cons obtain b1 b2 r2 where "r = b1 # b2 # r2" "utf8_cont b2"
      "if b = 0xE0 then 0xA0 \<le> b1 \<and> b1 \<le> 0xBF else if b = 0xED then 0x80 \<le> b1 \<and> b1 \<le> 0x9F else utf8_cont b1"
      by (cases r; cases "tl r") simp_all
    with c Cons show ?thesis by simp
  next
    case d
    with assms Cons obtain b1 b2 b3 r3 where "r = b1 # b2 # b3 # r3" "utf8_cont b2" "utf8_cont b3"
      "if b = 0xF0 then 0x90 \<le> b1 \<and> b1 \<le> 0xBF else if b = 0xF4 then 0x80 \<le> b1 \<and> b1 \<le> 0x8F else utf8_cont b1"
      by (cases r; cases "tl r"; cases "tl (tl r)") simp_all
    with d Cons show ?thesis by simp
  next
    case e
    with assms Cons show ?thesis by simp
  qed
qed simp

lemma utf8_lossy_unfold:
  "bs \<noteq> [] \<Longrightarrow> utf8_lossy bs =
     (if snd (lossy_step bs) then take (fst (lossy_step bs)) bs else [0xEF, 0xBF, 0xBD]) @ utf8_lossy (drop (fst (lossy_step bs)) bs)"
  by (subst utf8_lossy.simps) (simp add: split_beta)

lemma utf8_lossy_valid: "valid_utf8 (utf8_lossy bs)"
proof (induction bs rule: length_induct)
  case (1 bs)
  show ?case
  proof (cases "bs = []")
    case False
    let ?n = "fst (lossy_step bs)"
    have IH: "valid_utf8 (utf8_lossy (drop ?n bs))" using 1 lossy_step_positive [OF False] False by simp
    have "valid_utf8 ([0xEF, 0xBF, 0xBD] @ cs) = valid_utf8 cs" for cs by (simp add: utf8_cont_def)
    moreover have "valid_utf8 (take ?n bs @ utf8_lossy (drop ?n bs))" if "snd (lossy_step bs)"
    proof -
      from that have "lossy_step bs = (?n, True)" by (cases "lossy_step bs") simp
      from lossy_step_char [OF this False] obtain ds rest where
        "bs = ds @ rest" "length ds = ?n" "\<And>cs. valid_utf8 (ds @ cs) = valid_utf8 cs" by blast
      with IH show ?thesis by (metis append_eq_conv_conj)
    qed
    ultimately show ?thesis using IH unfolding utf8_lossy_unfold [OF False] by presburger
  qed (simp add: utf8_lossy.simps)
qed

lemma utf8_lossy_id: "valid_utf8 bs \<Longrightarrow> utf8_lossy bs = bs"
proof (induction bs rule: length_induct)
  case (1 bs)
  show ?case
  proof (cases "bs = []")
    case False
    let ?n = "fst (lossy_step bs)"
    have ok: "snd (lossy_step bs)" using lossy_step_ok [OF "1.prems"] .
    then have "lossy_step bs = (?n, True)" by (cases "lossy_step bs") simp
    from lossy_step_char [OF this False] obtain ds rest where
      "bs = ds @ rest" "length ds = ?n" "\<And>cs. valid_utf8 (ds @ cs) = valid_utf8 cs" by blast
    then have "valid_utf8 (drop ?n bs)" using "1.prems" by (metis append_eq_conv_conj)
    moreover have "length (drop ?n bs) < length bs" using lossy_step_positive [OF False] False by simp
    ultimately have "utf8_lossy (drop ?n bs) = drop ?n bs" using "1.IH" by blast
    with ok show ?thesis by (simp add: utf8_lossy_unfold [OF False])
  qed (simp add: utf8_lossy.simps)
qed

lemma from_utf8_lossy_str: "is_str (from_utf8_lossy b)" "is_str s \<Longrightarrow> from_utf8_lossy (as_bytes s) = s"
  by (simp_all add: is_str_def from_utf8_lossy_def utf8_lossy_valid utf8_lossy_id)

subsection \<open>Both interfaces agree\<close>

fun http_of :: "status \<Rightarrow> http_status" where
  "http_of (InvalidArgument _) = BAD_REQUEST"
| "http_of _ = INTERNAL_SERVER_ERROR"

lemma to_body_proto: "to_body = to_proto_topic"
  by (rule ext) (simp add: to_body_def to_proto_topic_def)

lemma body_configs_proto: "body_configs items = map_sum http_of id (proto_configs items)"
  by (induction items) (auto simp: bindE_def split: option.split sum.split)

lemma configure_agrees:
  "http_configure_topics ch flt clock topics st = map_prod id (map_sum http_of id) (grpc_configure_topics ch flt clock topics st)"
  by (auto simp: http_configure_topics_def grpc_configure_topics_def body_configs_proto to_body_proto split: sum.split prod.split)

lemma required_agrees: "required_election_value v = map_sum http_of id (required v name)"
  by (simp add: required_election_value_def required_def Let_def)

lemma ttl_agrees: "validate_election_ttl ttl = map_sum http_of id (validate_ttl ttl)"
  by (simp add: validate_election_ttl_def validate_ttl_def)

lemma leader_agrees: "election_leader_body = to_proto"
  by (intro ext) (simp add: election_leader_body_def to_proto_def)

lemma internal_agrees [simp]: "http_of (internal operation) = INTERNAL_SERVER_ERROR"
  by (simp add: internal_def)

lemma campaign_agrees:
  "http_election_campaign timestamp flt now ta tb lease e c ttl rows =
   map_prod id (map_sum http_of id) (service_campaign timestamp flt now ta tb lease e c ttl rows)"
  unfolding http_election_campaign_def service_campaign_def required_agrees [of e "''election''"]
    required_agrees [of c "''candidate_id''"] ttl_agrees leader_agrees
  by (auto simp: bindE_def split: sum.split prod.split)

lemma renew_agrees:
  "http_election_renew timestamp flt now tb e l term i ttl rows =
   map_prod id (map_sum http_of id) (service_renew timestamp flt now tb e l term i ttl rows)"
  unfolding http_election_renew_def service_renew_def required_agrees [of e "''election''"]
    required_agrees [of l "''leader_id''"] required_agrees [of i "''lease_id''"] ttl_agrees leader_agrees
  by (auto simp: bindE_def split: sum.split prod.split)

lemma resign_agrees:
  "http_election_resign timestamp flt now e l term i rows =
   map_prod id (map_sum http_of id) (service_resign timestamp flt now e l term i rows)"
  unfolding http_election_resign_def service_resign_def required_agrees [of e "''election''"]
    required_agrees [of l "''leader_id''"] required_agrees [of i "''lease_id''"]
  by (auto simp: bindE_def split: sum.split prod.split)

lemma get_leader_agrees:
  "http_election_get timestamp flt now tb e rows = map_sum http_of id (service_get_leader timestamp flt now tb e rows)"
  unfolding http_election_get_def service_get_leader_def required_agrees [of e "''election''"] leader_agrees
  by (auto simp: bindE_def split: sum.split)

lemma acquire_agrees:
  "http_lock_acquire ch flt t1 t2 t3 key owner ttl rows =
   map_prod id (map_outcome (map_sum http_of (Pair (trim key)))) (acquire_lock ch flt t1 t2 t3 key owner ttl rows)"
  by (auto simp: http_lock_acquire_def acquire_lock_def require_key_def Let_def split: prod.split outcome.split sum.split)

lemma lock_renew_agrees:
  "http_lock_renew ch flt now key owner ttl rows =
   map_prod id (map_outcome (map_sum http_of (Pair (trim key)))) (renew_lock ch flt now key owner ttl rows)"
  by (auto simp: http_lock_renew_def renew_lock_def require_key_def Let_def split: prod.split outcome.split sum.split)

lemma lock_release_agrees:
  "http_lock_release flt key owner rows = map_prod id (map_sum http_of (Pair (trim key))) (release_lock flt key owner rows)"
  by (auto simp: http_lock_release_def release_lock_def require_key_def Let_def split: prod.split sum.split)

lemma lock_get_agrees:
  "http_lock_get ch flt now key rows = map_sum http_of (Pair (trim key)) (is_locked ch flt now key rows)"
  by (auto simp: http_lock_get_def is_locked_def require_key_def Let_def split: sum.split)

subsection \<open>Polling\<close>

text \<open>A claimed message is processing under the lease that was handed out with it.\<close>

definition handed_out :: "'j claimed_message \<Rightarrow> database \<Rightarrow> bool" where
  "handed_out m db \<longleftrightarrow> (\<exists>i < MESSAGE_SHARDS. \<exists>r \<in> set (shard_rows db i). leased (cm_id m) (cm_lease m) r \<and>
     m_topic r = cm_topic m \<and> m_payload r = cm_payload m \<and> m_attempts r = cm_attempts m)"

lemma list_all2_member: "list_all2 P xs ys \<Longrightarrow> x \<in> set xs \<Longrightarrow> \<exists>y \<in> set ys. P x y"
  by (induction rule: list_all2_induct) auto

lemma claim_hands_out:
  assumes "db_ok db" "claim_batch_for_topic ch fj flt k now lease topic vis limit db = (db', Returned (Inr ms))" "m \<in> set ms"
  shows "handed_out m db'"
proof -
  let ?i = "topic_shard topic"
  define C where "C = claim_candidates (to_rfc3339 ch now) topic (min (max limit 1) 128) (shard_rows db ?i)"
  obtain again ms' where
    h: "hydrate_rows fj lease (map (claim_update lease again) (filter (\<lambda>r. r \<in> set C) (shard_rows db ?i))) = Inr ms'"
    and ms: "set ms = set ms'"
    and db': "db' = set_shard ?i (map (\<lambda>r. if r \<in> set C then claim_update lease again r else r) (shard_rows db ?i)) db"
    using assms(2) claim_rows_eq [OF db_ok_unique [OF assms(1) topic_shard_less [of topic]] C_def]
    by (auto simp: claim_batch_for_topic_def Let_def simp del: One_nat_def
        split: outcome.splits option.splits if_splits sum.splits)
  have "m \<in> set ms'" using assms(3) ms by simp
  from list_all2_member [OF hydrate_rows_all2 [OF h] this] obtain r where r: "r \<in> set C" "r \<in> set (shard_rows db ?i)"
    "is_claimed fj lease m (claim_update lease again r)" by auto
  have "claim_update lease again r \<in> set (shard_rows db' ?i)"
    using r(1,2) assms(1) topic_shard_less [of topic] by (auto simp: db' set_shard_def db_ok_def)
  then show ?thesis
    using r(3) topic_shard_less [of topic] unfolding handed_out_def
    by (intro exI [of _ ?i] conjI bexI [of _ "claim_update lease again r"])
      (auto simp: is_claimed_def to_claimed_def leased_def)
qed

lemma claim_topics_hand_out:
  "db_ok db \<Longrightarrow> claim_topics ch fj flt k clock leases f vis limit topics db = (db', k', Returned (Inr ms)) \<Longrightarrow> m \<in> set ms \<Longrightarrow> handed_out m db'"
proof (induction topics arbitrary: db k)
  case (Cons t ts)
  obtain db1 res where c: "claim_batch_for_topic ch fj flt k (clock k) (leases k) t vis limit db = (db1, res)" by fastforce
  have ok: "db_ok db1" using claim_batch_ok [OF Cons.prems(1)] c by (metis fst_conv)
  show ?case
  proof (cases "filter_matches f t \<and> res \<noteq> Returned (Inr [])")
    case True
    with c Cons.prems(2) have "res = Returned (Inr ms)" "db' = db1" by (auto split: outcome.splits sum.splits list.splits)
    with claim_hands_out [OF Cons.prems(1), of ch fj flt k] c Cons.prems(3) show ?thesis by auto
  next
    case False
    with c Cons ok show ?thesis by (auto split: if_splits)
  qed
qed simp

lemma claim_shards_hand_out:
  "db_ok db \<Longrightarrow> claim_shards ch fj flt k clock leases f vis limit start offsets db = (db', Returned (Inr ms)) \<Longrightarrow> m \<in> set ms \<Longrightarrow> handed_out m db'"
proof (induction offsets arbitrary: db k)
  case (Cons o' os)
  let ?ts = "rotate (start div MESSAGE_SHARDS) (ready_topics (to_rfc3339 ch (clock k)) (shard_rows db ((start + o') mod MESSAGE_SHARDS)))"
  obtain db1 k1 res where c: "claim_topics ch fj flt (k + 1) clock leases f vis limit ?ts db = (db1, k1, res)" using prod_cases3 by blast
  have ok: "db_ok db1" using claim_topics_ok [OF Cons.prems(1)] c by (metis fst_conv)
  show ?case
  proof (cases "res = Returned (Inr [])")
    case True
    with c Cons ok show ?thesis by (auto simp: Let_def split: if_splits)
  next
    case False
    with c Cons.prems(2) have "res = Returned (Inr ms)" "db' = db1"
      by (auto simp: Let_def split: if_splits outcome.splits sum.splits list.splits)
    with claim_topics_hand_out [OF Cons.prems(1)] c Cons.prems(3) show ?thesis by blast
  qed
qed simp

lemma claim_filter_hands_out:
  assumes "db_ok db" "claim_batch_for_filter ch fj flt clock leases f vis limit db = (db', Returned (Inr ms))" "m \<in> set ms"
  shows "handed_out m db'"
  using assms claim_hands_out [OF assms(1)] claim_shards_hand_out [of "db\<lparr>db_cursor := (db_cursor db + 1) mod 2 ^ 64\<rparr>"]
  by (auto simp: claim_batch_for_filter_def Let_def split: if_splits)

lemma poll_loop_returns:
  assumes "\<forall>n db. db_ok db \<longrightarrow> db_ok (pl_others env n db)" "deadline \<le> pl_instant env m"
  shows "db_ok db \<Longrightarrow> n \<le> m \<Longrightarrow> \<exists>db' res. poll_loop env hc topic wait deadline n db = Some (db', res) \<and> db_ok db' \<and>
    (\<forall>x. res = Returned (Inr (Some x)) \<longrightarrow> handed_out x db')"
proof (induction "m - n" arbitrary: n db)
  case (0 n)
  then have n: "n = m" by simp
  let ?c = "claim_batch_for_filter (pl_chrono env) (pl_json env) (pl_faults env n) (pl_clock env n) (pl_uuid env n) topic
    (hc_ack_timeout_secs hc * 10 ^ 9) 1 db"
  obtain db' res where c: "?c = (db', res)" by fastforce
  have "db_ok db'" using claim_filter_ok [OF 0(2)] c by (metis fst_conv)
  moreover have "handed_out x db'" if "res = Returned (Inr ms)" "x \<in> set ms" for ms x
    using claim_filter_hands_out [OF 0(2)] c that by blast
  ultimately show ?case
    using c assms(2) n by (subst poll_loop.simps) (auto split: outcome.split sum.split)
next
  case (Suc d n)
  let ?c = "claim_batch_for_filter (pl_chrono env) (pl_json env) (pl_faults env n) (pl_clock env n) (pl_uuid env n) topic
    (hc_ack_timeout_secs hc * 10 ^ 9) 1 db"
  obtain db' res where c: "?c = (db', res)" by fastforce
  have ok: "db_ok db'" using claim_filter_ok [OF Suc(3)] c by (metis fst_conv)
  have out: "handed_out x db'" if "res = Returned (Inr ms)" "x \<in> set ms" for ms x
    using claim_filter_hands_out [OF Suc(3)] c that by blast
  have d: "d = m - (n + 1)" "n + 1 \<le> m" using Suc(2) by simp_all
  obtain db2 res2 where "poll_loop env hc topic wait deadline (n + 1) (pl_others env n db') = Some (db2, res2)" "db_ok db2"
    "\<forall>x. res2 = Returned (Inr (Some x)) \<longrightarrow> handed_out x db2"
    using Suc(1) [of "n + 1" "pl_others env n db'"] d ok assms(1) by auto
  with c ok out show ?case
    by (subst poll_loop.simps) (auto split: outcome.split sum.split)
qed

text \<open>What a client decodes from the body of a message.\<close>

definition body_bytes :: "'j consume_message_body \<Rightarrow> bytes" where
  "body_bytes b = (if cb_payload_encoding b = ''utf-8'' then as_bytes (cb_payload b) else base64_decode (cb_payload b))"

lemma consume_body_sel:
  "cb_id (to_consume_message m t a) = cm_id m" "cb_lease (to_consume_message m t a) = cm_lease m"
  "cb_topic (to_consume_message m t a) = cm_topic m" "cb_delivery_attempt (to_consume_message m t a) = cm_attempts m"
  "body_bytes (to_consume_message m t a) = cm_payload m"
proof -
  have e: "encode_base64 = base64_encode" by (rule ext) (simp add: encode_base64_def base64_encode_def)
  show "body_bytes (to_consume_message m t a) = cm_payload m"
    by (auto simp: body_bytes_def to_consume_message_def Let_def e from_utf8_def base64_decode_encode)
qed (simp_all add: to_consume_message_def Let_def split_beta)

lemma handed_out_body:
  "handed_out m db \<Longrightarrow> b = to_consume_message m t a \<Longrightarrow>
   \<exists>i < MESSAGE_SHARDS. \<exists>r \<in> set (shard_rows db i). leased (cb_id b) (cb_lease b) r \<and> m_topic r = cb_topic b \<and>
     m_attempts r = cb_delivery_attempt b \<and> m_payload r = body_bytes b"
  unfolding handed_out_def by (auto simp: consume_body_sel)

subsection \<open>Properties of the HTTP interface\<close>

text \<open>C9. Publishing over HTTP commits before it answers: for a persistent topic the handler returns whatever
  statements fail; when it answers with an id, a message is stored under that id in the shard of the topic, with
  exactly the topic, key, payload and attributes of the request, or, for a duplicate, with its key; when it answers
  with an error, no stored message has changed.\<close>

theorem publish_committed:
  assumes "db_ok (br_db br)" "trim topic \<noteq> []" "publish_payload as_str to_vec payload = Some bs" "bs \<noteq> []"
    and "snd (db_topic_config (de_faults env 0) (trim topic) (db_stats (br_db br))) = Inr cfg" "tc_persistence cfg = Persistent"
  shows "\<exists>br' res. http_publish as_str to_vec to_json env inner_env topic payload attributes key br = Some (br', res, []) \<and>
    (case res of
       Inl e \<Rightarrow> db_shards (br_db br') = db_shards (br_db br)
     | Inr answer \<Rightarrow> \<not> pr_dropped answer \<and>
         stored_as to_json \<lparr>ei_id = new_message_id (trim topic) (de_uuid env 0), ei_key = trimmed_key key, ei_topic = trim topic,
             ei_payload = bs, ei_attributes = attributes\<rparr>
           (pr_message_id answer, pr_duplicate answer) (shard_rows (br_db br') (topic_shard (trim topic))))"
proof -
  obtain st where cfg: "db_topic_config (de_faults env 0) (trim topic) (db_stats (br_db br)) = (st, Inr cfg)"
    using assms(5) by (cases "db_topic_config (de_faults env 0) (trim topic) (db_stats (br_db br))") simp
  let ?db = "set_stats st (br_db br)" and ?i = "topic_shard (trim topic)"
  let ?item = "\<lparr>ei_id = new_message_id (trim topic) (de_uuid env 0), ei_key = trimmed_key key, ei_topic = trim topic,
             ei_payload = bs, ei_attributes = attributes\<rparr>"
  obtain db' r where e: "enqueue_batch (de_chrono env) to_json (de_faults env 1) (\<lambda>_. de_clock env 1) (de_clock env 2) [?item] ?db = (db', r)"
    by fastforce
  have i: "?i < length (db_shards (br_db br))" using assms(1) topic_shard_less [of "trim topic"] by (simp add: db_ok_def)
  have key: "trimmed_key key \<noteq> Some []" by (auto simp: trimmed_key_def split: option.split)
  note one = enqueue_batch_one [OF _ _ e, of ?i]
  have enq: "db_enqueue (de_chrono env) to_json (de_faults env 1) (de_clock env 1) (de_clock env 2) (de_uuid env 0) (trimmed_key key)
      (trim topic) bs attributes ?db = (db', map_sum id last r)"
    using e key by (auto simp: db_enqueue_def split: sum.split)
  show ?thesis
  proof (cases r)
    case (Inl x)
    with one have "db' = ?db" by simp
    with Inl enq assms(2-4,6) cfg show ?thesis by (simp add: http_publish_def Let_def)
  next
    case (Inr results)
    with one obtain rows st' where db': "db' = (set_shard ?i rows ?db)\<lparr>db_stats := st'\<rparr>" "length results = 1"
      "stored_as to_json ?item (results ! 0) rows" by auto
    then obtain mid dup where "results = [(mid, dup)]" by (cases results) auto
    with db' Inr enq assms(2-4,6) cfg i show ?thesis by (simp add: http_publish_def Let_def publish_answer_def set_shard_def)
  qed
qed

definition durable_stats :: stats where
  "durable_stats = (db_stats empty_db)\<lparr>st_config := [(''jobs'', \<lparr>tc_topic = ''jobs'', tc_delivery = Single, tc_persistence = Persistent\<rparr>)]\<rparr>"

definition open_broker :: "(nat, nat, nat) broker" where
  "open_broker = \<lparr>br_db = set_stats durable_stats empty_db, br_writer = idle_writer, br_subs = [], br_inflight = []\<rparr>"

lemma durable_stats_config:
  "db_topic_config flt ''jobs'' durable_stats = (durable_stats, Inr \<lparr>tc_topic = ''jobs'', tc_delivery = Single, tc_persistence = Persistent\<rparr>)"
  by (simp add: db_topic_config_def durable_stats_def)

theorem publish_committed_witness:
  "\<exists>br' res. http_publish Some (\<lambda>_. None) (\<lambda>_. Some ''{}'') calm_env calm_env ''jobs'' ''hi'' [] (Some ''k'') open_broker = Some (br', res, []) \<and>
    (case res of
       Inl e \<Rightarrow> db_shards (br_db br') = db_shards (br_db open_broker)
     | Inr answer \<Rightarrow> \<not> pr_dropped answer \<and>
         stored_as (\<lambda>_. Some ''{}'') \<lparr>ei_id = new_message_id (trim ''jobs'') (de_uuid calm_env 0), ei_key = trimmed_key (Some ''k''),
             ei_topic = trim ''jobs'', ei_payload = as_bytes ''hi'', ei_attributes = []\<rparr>
           (pr_message_id answer, pr_duplicate answer) (shard_rows (br_db br') (topic_shard (trim ''jobs''))))"
proof -
  have t: "trim ''jobs'' = ''jobs''" by code_simp
  show ?thesis
    by (rule publish_committed [where cfg = "\<lparr>tc_topic = ''jobs'', tc_delivery = Single, tc_persistence = Persistent\<rparr>"])
      (simp_all add: open_broker_def t durable_stats_config publish_payload_def as_bytes_def)
qed

text \<open>C10. A leased poll returns and hands out one message under a fresh lease: whatever statements fail and whatever other tasks do
  to the database between its rounds, the handler answers once the clock has passed its deadline; it hands out
  messages of persistent topics with single delivery only, and the message of the answer is then stored as
  processing under the lease in the answer, with the topic, the attempt and, decoded, the payload of the answer.\<close>

theorem poll_leases_message:
  assumes "db_ok (bd_queue bd)" "\<forall>n db. db_ok db \<longrightarrow> db_ok (pl_others env n db)" "started + 30000 * 1000000 \<le> pl_instant env m"
  shows "\<exists>w' bd' res. http_consume_poll to_json flt now started uuid env hc body w bd = Some (w', bd', res) \<and> db_ok (bd_queue bd') \<and>
    (\<forall>b. res = Returned (Inr (Some b)) \<longrightarrow>
       (\<exists>cfg. snd (db_topic_config (flt 0) (trim (pb_topic body)) (db_stats (bd_queue bd))) = Inr cfg \<and>
          tc_persistence cfg = Persistent \<and> tc_delivery cfg = Single) \<and>
       (\<exists>i < MESSAGE_SHARDS. \<exists>r \<in> set (shard_rows (bd_queue bd') i). leased (cb_id b) (cb_lease b) r \<and> m_topic r = cb_topic b \<and>
          m_attempts r = cb_delivery_attempt b \<and>
          m_payload r = body_bytes b))"
proof -
  obtain st config where cfg: "db_topic_config (flt 0) (trim (pb_topic body)) (db_stats (bd_queue bd)) = (st, config)" by fastforce
  let ?wait = "min (pb_wait_ms body) 30000"
  have "started + int ?wait * 1000000 \<le> pl_instant env m" using assms(3) by (simp add: min_def)
  from poll_loop_returns [OF assms(2) this, of "set_stats st (bd_queue bd)" 0 hc "trim (pb_topic body)" ?wait] assms(1)
  obtain q res where loop: "poll_loop env hc (trim (pb_topic body)) ?wait (started + int ?wait * 1000000) 0 (set_stats st (bd_queue bd)) = Some (q, res)"
    "db_ok q" "\<forall>x. res = Returned (Inr (Some x)) \<longrightarrow> handed_out x q" by auto
  show ?thesis
    using assms(1) loop cfg
    by (auto simp: http_consume_poll_def Let_def split_beta intro!: handed_out_body [OF _ refl]
        split: sum.split outcome.split prod.split)
qed

definition poll_store :: broker_db where
  "poll_store = \<lparr>bd_queue = set_stats durable_stats (db_with (sample_row 1)), bd_consumers = []\<rparr>"

definition quiet_poll :: "unit poll_env" where
  "quiet_poll = \<lparr>pl_chrono = plain_chrono, pl_json = (\<lambda>_. Some ()), pl_faults = (\<lambda>_. no_faults), pl_clock = (\<lambda>_ _. 2),
     pl_uuid = (\<lambda>_ _. ''l''), pl_instant = (\<lambda>n. int n * sec), pl_others = (\<lambda>_ db. db)\<rparr>"

definition poll_request :: poll_body where
  "poll_request = \<lparr>pb_topic = ''jobs'', pb_consumer_id = ''c'', pb_consumer_name = [], pb_wait_ms = 20000, pb_attributes = []\<rparr>"

theorem poll_leases_message_witness:
  "\<exists>w' bd' res. http_consume_poll (\<lambda>_. Some ''{}'') (\<lambda>_. no_faults) 1 0 ''u'' quiet_poll (http_config_of sample_config 500) poll_request
      idle_writer poll_store = Some (w', bd', res) \<and> db_ok (bd_queue bd') \<and>
    (\<forall>b. res = Returned (Inr (Some b)) \<longrightarrow>
       (\<exists>cfg. snd (db_topic_config no_faults (trim (pb_topic poll_request)) (db_stats (bd_queue poll_store))) = Inr cfg \<and>
          tc_persistence cfg = Persistent \<and> tc_delivery cfg = Single) \<and>
       (\<exists>i < MESSAGE_SHARDS. \<exists>r \<in> set (shard_rows (bd_queue bd') i). leased (cb_id b) (cb_lease b) r \<and> m_topic r = cb_topic b \<and>
          m_attempts r = cb_delivery_attempt b \<and> m_payload r = body_bytes b))"
  by (rule poll_leases_message [where m = 30]) (simp_all add: poll_store_def quiet_poll_def)

text \<open>C32. The two interfaces agree: on the locks, the elections and the topic settings, the HTTP handlers change the
  stored state exactly as the gRPC handlers do and give the same answers; their errors are those of gRPC, with
  invalid arguments as bad requests and everything else as internal errors.\<close>

theorem interfaces_agree:
  "http_lock_acquire ch flt t1 t2 t3 key owner ttl rows =
     map_prod id (map_outcome (map_sum http_of (Pair (trim key)))) (acquire_lock ch flt t1 t2 t3 key owner ttl rows) \<and>
   http_lock_renew ch flt now key owner ttl rows =
     map_prod id (map_outcome (map_sum http_of (Pair (trim key)))) (renew_lock ch flt now key owner ttl rows) \<and>
   http_lock_release flt key owner rows = map_prod id (map_sum http_of (Pair (trim key))) (release_lock flt key owner rows) \<and>
   http_lock_get ch flt now key rows = map_sum http_of (Pair (trim key)) (is_locked ch flt now key rows) \<and>
   http_election_campaign timestamp flt now ta tb lease e c ttl table =
     map_prod id (map_sum http_of id) (service_campaign timestamp flt now ta tb lease e c ttl table) \<and>
   http_election_renew timestamp flt now tb e l term i ttl table =
     map_prod id (map_sum http_of id) (service_renew timestamp flt now tb e l term i ttl table) \<and>
   http_election_resign timestamp flt now e l term i table =
     map_prod id (map_sum http_of id) (service_resign timestamp flt now e l term i table) \<and>
   http_election_get timestamp flt now tb e table = map_sum http_of id (service_get_leader timestamp flt now tb e table) \<and>
   http_configure_topics ch flt clock topics st = map_prod id (map_sum http_of id) (grpc_configure_topics ch flt clock topics st)"
  by (intro conjI acquire_agrees lock_renew_agrees lock_release_agrees lock_get_agrees campaign_agrees renew_agrees
      resign_agrees get_leader_agrees configure_agrees)

end
