(* ===== verification/Maintenance.thy ===== *)
theory Maintenance
  imports Delivery Auth Locks
begin

text \<open>
  The two background tasks of \<open>src/src/main.rs\<close>: \<open>dispatch_loop\<close>, which forwards messages of topics
  without a live subscriber to an HTTP service, and \<open>retention_loop\<close>, which recovers expired claims
  and deletes what is no longer kept. A round of a loop is a function on the state it changes; failing
  statements, clock readings, fresh leases and the live subscriptions at the time of each call come from
  an environment record. A round that panics ends its task. Log output is left out.
\<close>

subsection \<open>The dispatcher\<close>

text \<open>What became of the HTTP request; \<open>Post_shutdown\<close> is a shutdown while waiting for it.\<close>

datatype post_result = Post_ok | Post_error string | Post_shutdown

record ('s, 'j) dispatch_env =
  pe_chrono :: chrono
  pe_json :: "string \<Rightarrow> 'j option"
  pe_faults :: "nat \<Rightarrow> faults"
  pe_clock :: "nat \<Rightarrow> int"
  pe_uuid :: "nat \<Rightarrow> string"
  pe_subs :: "nat \<Rightarrow> 's topic_subscribers"
  pe_post :: "'j downstream_message \<Rightarrow> post_result"

definition skip_topics :: "string list \<Rightarrow> sql_error + string list \<Rightarrow> string list" where
  "skip_topics live ephemeral =
     (case ephemeral of
        Inl _ \<Rightarrow> live
      | Inr topics \<Rightarrow> fold (\<lambda>topic skip. if topic \<in> set skip then skip else skip @ [topic]) topics live)"

text \<open>One round: the state, the message handed to the HTTP client, and whether the loop goes on.\<close>

definition dispatch_round ::
  "('s, 'j) dispatch_env \<Rightarrow> loop_config \<Rightarrow> database \<Rightarrow> database \<times> ('j downstream_message option \<times> bool) outcome" where
  "dispatch_round env cfg db =
     (let ch = pe_chrono env;
          skip = skip_topics (sub_topics (pe_subs env 0)) (ephemeral_topics (pe_faults env 0) (db_stats db))
      in case claim_next_excluding ch (pe_json env) (pe_faults env 1) (pe_clock env) (pe_uuid env) (visibility cfg) skip db of
           (db, Panic) \<Rightarrow> (db, Panic)
         | (db, Returned (Inl _)) \<Rightarrow> (db, Returned (None, True))
         | (db, Returned (Inr None)) \<Rightarrow> (db, Returned (None, True))
         | (db, Returned (Inr (Some m))) \<Rightarrow>
             if covers (cm_topic m) (pe_subs env 1)
             then (fst (release ch (pe_faults env 2) (pe_clock env 2) (cm_id m) (cm_lease m) db), Returned (None, True))
             else (case pe_post env (to_downstream m) of
                     Post_shutdown \<Rightarrow> (db, Returned (Some (to_downstream m), False))
                   | Post_ok \<Rightarrow>
                       (fst (delivered ch (pe_faults env 2) (pe_clock env 2) (pe_clock env 2) (cm_id m) (cm_lease m) db),
                        Returned (Some (to_downstream m), True))
                   | Post_error error \<Rightarrow>
                       (case failed ch (pe_faults env 2) (pe_clock env 2) (pe_clock env 2) (pe_clock env 2)
                               (cm_id m) (cm_lease m) error (lc_max_delivery_attempts cfg) db of
                          (db, Panic) \<Rightarrow> (db, Panic)
                        | (db, Returned _) \<Rightarrow> (db, Returned (Some (to_downstream m), True)))))"

text \<open>
  The loop over the rounds before the shutdown; without a downstream service it does nothing. The
  result lists what was handed to the HTTP client.
\<close>

fun dispatch_rounds ::
  "('s, 'j) dispatch_env list \<Rightarrow> loop_config \<Rightarrow> database \<Rightarrow> database \<times> 'j downstream_message list" where
  "dispatch_rounds [] cfg db = (db, [])"
| "dispatch_rounds (env # envs) cfg db =
     (case dispatch_round env cfg db of
        (db, Panic) \<Rightarrow> (db, [])
      | (db, Returned (posted, go_on)) \<Rightarrow>
          let (db, rest) = (if go_on then dispatch_rounds envs cfg db else (db, []))
          in (db, (case posted of None \<Rightarrow> rest | Some m \<Rightarrow> m # rest)))"

definition dispatch_loop ::
  "string option \<Rightarrow> ('s, 'j) dispatch_env list \<Rightarrow> loop_config \<Rightarrow> database \<Rightarrow> database \<times> 'j downstream_message list" where
  "dispatch_loop downstream_url envs cfg db =
     (case downstream_url of None \<Rightarrow> (db, []) | Some _ \<Rightarrow> dispatch_rounds envs cfg db)"

subsection \<open>Retention\<close>

record retention_config =
  rc_message_retention_days :: int
  rc_delivered_retention_hours :: nat
  rc_ephemeral_idle_hours :: nat
  rc_purge_interval_hours :: nat
  rc_consumer_ttl_secs :: nat

record retention_state =
  rs_db :: broker_db
  rs_cache :: cache_store
  rs_locks :: lock_table
  rs_last_idle_purge :: "int option"

text \<open>
  Calls 0 to 7 are the fixed ones of a sweep, from 8 on the deletions of ephemeral topics;
  \<open>se_instant\<close> are the readings of the monotonic clock.
\<close>

record 's sweep_env =
  se_chrono :: chrono
  se_faults :: "nat \<Rightarrow> faults"
  se_clock :: "nat \<Rightarrow> int"
  se_instant :: "nat \<Rightarrow> int"
  se_subs :: "nat \<Rightarrow> 's topic_subscribers"
  se_meanwhile :: "(string \<times> topic_delta) list"

abbreviation set_queue :: "database \<Rightarrow> retention_state \<Rightarrow> retention_state" where
  "set_queue q rs \<equiv> rs\<lparr>rs_db := (rs_db rs)\<lparr>bd_queue := q\<rparr>\<rparr>"

definition cutoff_before :: "chrono \<Rightarrow> int \<Rightarrow> int \<Rightarrow> string outcome" where
  "cutoff_before ch now secs =
     (case add_secs ch now (- secs) of None \<Rightarrow> Panic | Some t \<Rightarrow> Returned (to_rfc3339 ch t))"

definition consumer_cutoff :: "chrono \<Rightarrow> int \<Rightarrow> nat \<Rightarrow> string option outcome" where
  "consumer_cutoff ch now ttl_secs =
     (if ttl_secs = 0 then Returned None
      else case cutoff_before ch now (as_i64 ttl_secs) of Panic \<Rightarrow> Panic | Returned t \<Rightarrow> Returned (Some t))"

fun drop_uncovered :: "'s sweep_env \<Rightarrow> nat \<Rightarrow> string list \<Rightarrow> database \<Rightarrow> database" where
  "drop_uncovered env n [] db = db"
| "drop_uncovered env n (topic # topics) db =
     drop_uncovered env (n + 1) topics
       (if covers topic (se_subs env n) then db
        else fst (drop_pending (se_chrono env) (se_faults env n) (se_clock env n) topic db))"

definition sweep_claims :: "'s sweep_env \<Rightarrow> retention_state \<Rightarrow> retention_state \<times> unit outcome" where
  "sweep_claims env rs =
     (let q = fst (reclaim_stale (se_chrono env) (se_faults env 0) (se_clock env 0) (bd_queue (rs_db rs)));
          q = (case ephemeral_topics (se_faults env 1) (db_stats q) of
                 Inl _ \<Rightarrow> q | Inr topics \<Rightarrow> drop_uncovered env 8 topics q)
      in (set_queue q rs, Returned ()))"

definition sweep_old :: "'s sweep_env \<Rightarrow> retention_config \<Rightarrow> retention_state \<Rightarrow> retention_state \<times> unit outcome" where
  "sweep_old env cfg rs =
     (if 0 < rc_message_retention_days cfg
      then (case cutoff_before (se_chrono env) (se_clock env 2) (rc_message_retention_days cfg * 86400) of
              Panic \<Rightarrow> (rs, Panic)
            | Returned cutoff \<Rightarrow> (set_queue (fst (purge_older_than (se_faults env 2) cutoff (bd_queue (rs_db rs)))) rs, Returned ()))
      else (rs, Returned ()))"

definition sweep_delivered :: "'s sweep_env \<Rightarrow> retention_config \<Rightarrow> retention_state \<Rightarrow> retention_state \<times> unit outcome" where
  "sweep_delivered env cfg rs =
     (if 0 < rc_delivered_retention_hours cfg
      then (case cutoff_before (se_chrono env) (se_clock env 3) (as_i64 (rc_delivered_retention_hours cfg) * 3600) of
              Panic \<Rightarrow> (rs, Panic)
            | Returned cutoff \<Rightarrow>
                (set_queue (fst (purge_delivered_older_than (se_faults env 3) cutoff (bd_queue (rs_db rs)))) rs, Returned ()))
      else (rs, Returned ()))"

text \<open>The purge of idle topics has its own period, in seconds of a saturating \<open>u64\<close>.\<close>

definition due_idle_purge :: "'s sweep_env \<Rightarrow> retention_config \<Rightarrow> int option \<Rightarrow> bool" where
  "due_idle_purge env cfg last_idle_purge \<longleftrightarrow>
     0 < rc_ephemeral_idle_hours cfg \<and>
     (case last_idle_purge of
        None \<Rightarrow> True
      | Some started \<Rightarrow>
          rc_purge_interval_hours cfg = 0 \<or>
          int (min (rc_purge_interval_hours cfg * 3600) (2 ^ 64 - 1)) * sec \<le> se_instant env 0 - started)"

definition sweep_idle :: "'s sweep_env \<Rightarrow> retention_config \<Rightarrow> retention_state \<Rightarrow> retention_state \<times> unit outcome" where
  "sweep_idle env cfg rs =
     (if due_idle_purge env cfg (rs_last_idle_purge rs)
      then (case cutoff_before (se_chrono env) (se_clock env 4) (as_i64 (rc_ephemeral_idle_hours cfg) * 3600) of
              Panic \<Rightarrow> (rs, Panic)
            | Returned cutoff \<Rightarrow>
                (rs\<lparr>rs_db := fst (purge_idle_ephemeral (se_chrono env) (se_faults env 4) (se_clock env 4) (se_meanwhile env)
                                    cutoff (sub_topics (se_subs env 4)) (rs_db rs)),
                    rs_last_idle_purge := Some (se_instant env 1)\<rparr>, Returned ()))
      else (rs, Returned ()))"

definition sweep_consumers :: "'s sweep_env \<Rightarrow> retention_config \<Rightarrow> retention_state \<Rightarrow> retention_state \<times> unit outcome" where
  "sweep_consumers env cfg rs =
     (if 0 < rc_consumer_ttl_secs cfg
      then (case consumer_cutoff (se_chrono env) (se_clock env 5) (rc_consumer_ttl_secs cfg) of
              Panic \<Rightarrow> (rs, Panic)
            | Returned None \<Rightarrow> (rs, Returned ())
            | Returned (Some cutoff) \<Rightarrow>
                (rs\<lparr>rs_db := (rs_db rs)\<lparr>bd_consumers := fst (purge_stale_consumers (se_faults env 5) cutoff (bd_consumers (rs_db rs)))\<rparr>\<rparr>,
                 Returned ()))
      else (rs, Returned ()))"

definition sweep_stores :: "'s sweep_env \<Rightarrow> retention_state \<Rightarrow> retention_state \<times> unit outcome" where
  "sweep_stores env rs =
     (case cache_purge_expired (se_clock env 6) (rs_cache rs) of
        (cache, Panic) \<Rightarrow> (rs\<lparr>rs_cache := cache\<rparr>, Panic)
      | (cache, Returned _) \<Rightarrow>
          (rs\<lparr>rs_cache := cache,
              rs_locks := fst (lock_purge_expired (se_chrono env) (se_faults env 7) (se_clock env 7) (rs_locks rs))\<rparr>,
           Returned ()))"

definition and_then :: "'t \<times> unit outcome \<Rightarrow> ('t \<Rightarrow> 't \<times> unit outcome) \<Rightarrow> 't \<times> unit outcome" where
  "and_then r f = (case r of (s, Panic) \<Rightarrow> (s, Panic) | (s, Returned _) \<Rightarrow> f s)"

definition retention_sweep :: "'s sweep_env \<Rightarrow> retention_config \<Rightarrow> retention_state \<Rightarrow> retention_state \<times> unit outcome" where
  "retention_sweep env cfg rs =
     and_then (and_then (and_then (and_then (and_then (sweep_claims env rs)
       (sweep_old env cfg)) (sweep_delivered env cfg)) (sweep_idle env cfg)) (sweep_consumers env cfg)) (sweep_stores env)"

text \<open>The sweeps until the shutdown, one environment each.\<close>

fun retention_loop :: "'s sweep_env list \<Rightarrow> retention_config \<Rightarrow> retention_state \<Rightarrow> retention_state \<times> unit outcome" where
  "retention_loop [] cfg rs = (rs, Returned ())"
| "retention_loop (env # envs) cfg rs = and_then (retention_sweep env cfg rs) (retention_loop envs cfg)"

subsection \<open>What the dispatcher keeps\<close>

context claim_stable
begin

lemma has_finish_claim: "has Q db i \<Longrightarrow> has Q (fst (finish_claim ch fj flt k now lease vis j row db)) i"
  by (auto simp: finish_claim_def Let_def split_beta claim_keeps intro!: has_set_shard has_update
      split: option.split)

lemma has_claim_excluding:
  "has Q db i \<Longrightarrow> has Q (fst (claim_excluding ch fj flt k clock leases vis skip start offsets db)) i"
proof (induction offsets arbitrary: db k)
  case (Cons o' os)
  let ?i = "(start + o') mod MESSAGE_SHARDS"
  obtain db' res where c: "finish_claim ch fj flt (k + 1) (clock k) (leases k) vis ?i
      (next_ready (to_rfc3339 ch (clock k)) skip (shard_rows db ?i)) db = (db', res)"
    by fastforce
  with has_finish_claim [OF Cons.prems] have "has Q db' i" by (metis fst_conv)
  with Cons c show ?case by (auto simp: Let_def split: outcome.split sum.split option.split)
qed simp

lemma has_claim_next:
  assumes "has Q db i"
  shows "has Q (fst (claim_next_excluding ch fj flt clock leases vis skip db)) i"
  using assms has_claim_excluding [of "db\<lparr>db_cursor := (db_cursor db + 1) mod 2 ^ 64\<rparr>"]
  by (simp add: claim_next_excluding_def)

end

lemma finish_claim_ok: "db_ok db \<Longrightarrow> j < MESSAGE_SHARDS \<Longrightarrow> db_ok (fst (finish_claim ch fj flt k now lease vis j row db))"
  by (auto simp: finish_claim_def Let_def split_beta db_ok_set_shard db_okD claim_m.shard_ok_update split: option.split)

lemma claim_excluding_ok:
  "db_ok db \<Longrightarrow> db_ok (fst (claim_excluding ch fj flt k clock leases vis skip start offsets db))"
proof (induction offsets arbitrary: db k)
  case (Cons o' os)
  let ?i = "(start + o') mod MESSAGE_SHARDS"
  obtain db' res where c: "finish_claim ch fj flt (k + 1) (clock k) (leases k) vis ?i
      (next_ready (to_rfc3339 ch (clock k)) skip (shard_rows db ?i)) db = (db', res)"
    by fastforce
  have "?i < MESSAGE_SHARDS" by (simp add: MESSAGE_SHARDS_def)
  from finish_claim_ok [OF Cons.prems this] c have "db_ok db'" by (metis fst_conv)
  with Cons c show ?case by (auto simp: Let_def split: outcome.split sum.split option.split)
qed simp

lemma claim_next_ok: "db_ok db \<Longrightarrow> db_ok (fst (claim_next_excluding ch fj flt clock leases vis skip db))"
  by (simp add: claim_next_excluding_def claim_excluding_ok)

lemma next_ready_props: "next_ready now skip rows = Some r \<Longrightarrow> r \<in> set rows \<and> ready now r \<and> m_topic r \<notin> set skip"
proof -
  let ?c = "sort_key m_created (filter (\<lambda>r. ready now r \<and> m_topic r \<notin> set skip) rows)"
  assume "next_ready now skip rows = Some r"
  then obtain rs where "?c = r # rs" by (auto simp: next_ready_def split: list.splits)
  then have "r \<in> set ?c" by (metis list.set_intros(1))
  then show ?thesis by simp
qed

lemma claim_excluding_topic:
  "claim_excluding ch fj flt k clock leases vis skip start offsets db = (db', Returned (Inr (Some m))) \<Longrightarrow> cm_topic m \<notin> set skip"
proof (induction offsets arbitrary: db k)
  case (Cons o' os)
  let ?i = "(start + o') mod MESSAGE_SHARDS"
  let ?r = "next_ready (to_rfc3339 ch (clock k)) skip (shard_rows db ?i)"
  obtain db1 res where c: "finish_claim ch fj flt (k + 1) (clock k) (leases k) vis ?i ?r db = (db1, res)" by fastforce
  show ?case
  proof (cases "res = Returned (Inr None)")
    case True
    with Cons c show ?thesis by (auto simp: Let_def split: if_splits)
  next
    case False
    with Cons.prems c have "res = Returned (Inr (Some m))"
      by (auto simp: Let_def split: if_splits outcome.splits sum.splits option.splits)
    with c obtain r where "?r = Some r" "cm_topic m = m_topic r"
      by (auto simp: finish_claim_def to_claimed_def Let_def split_beta split: option.splits if_splits)
    with next_ready_props show ?thesis by fastforce
  qed
qed simp

lemma set_skip_topics:
  "set live \<subseteq> set (skip_topics live e)" "set topics \<subseteq> set (skip_topics live (Inr topics))"
proof -
  have "set (fold (\<lambda>topic skip. if topic \<in> set skip then skip else skip @ [topic]) ts l) = set l \<union> set ts" for ts l :: "string list"
    by (induction ts arbitrary: l) auto
  then show "set live \<subseteq> set (skip_topics live e)" "set topics \<subseteq> set (skip_topics live (Inr topics))"
    by (auto simp: skip_topics_def split: sum.split)
qed

text \<open>The possible ends of a round.\<close>

lemma dispatch_round_cases:
  assumes "dispatch_round env cfg db = (db', res)"
  obtains (nothing) "res = Panic \<or> (\<exists>go. res = Returned (None, go))"
      "db' = fst (claim_next_excluding (pe_chrono env) (pe_json env) (pe_faults env 1) (pe_clock env) (pe_uuid env) (visibility cfg)
         (skip_topics (sub_topics (pe_subs env 0)) (ephemeral_topics (pe_faults env 0) (db_stats db))) db)"
  | (claimed) m db1 where "claim_next_excluding (pe_chrono env) (pe_json env) (pe_faults env 1) (pe_clock env) (pe_uuid env) (visibility cfg)
         (skip_topics (sub_topics (pe_subs env 0)) (ephemeral_topics (pe_faults env 0) (db_stats db))) db = (db1, Returned (Inr (Some m)))"
      "if covers (cm_topic m) (pe_subs env 1)
       then db' = fst (release (pe_chrono env) (pe_faults env 2) (pe_clock env 2) (cm_id m) (cm_lease m) db1) \<and> res = Returned (None, True)
       else case pe_post env (to_downstream m) of
              Post_shutdown \<Rightarrow> db' = db1 \<and> res = Returned (Some (to_downstream m), False)
            | Post_ok \<Rightarrow> db' = fst (delivered (pe_chrono env) (pe_faults env 2) (pe_clock env 2) (pe_clock env 2) (cm_id m) (cm_lease m) db1) \<and>
                res = Returned (Some (to_downstream m), True)
            | Post_error error \<Rightarrow> db' = fst (failed (pe_chrono env) (pe_faults env 2) (pe_clock env 2) (pe_clock env 2) (pe_clock env 2)
                  (cm_id m) (cm_lease m) error (lc_max_delivery_attempts cfg) db1) \<and>
                (res = Panic \<or> res = Returned (Some (to_downstream m), True))"
  using assms
  by (auto simp: dispatch_round_def Let_def split: prod.splits outcome.splits sum.splits option.splits if_splits post_result.splits)

lemma dispatch_round_ok: "db_ok db \<Longrightarrow> db_ok (fst (dispatch_round env cfg db))"
proof (cases "dispatch_round env cfg db")
  case (Pair db' res)
  assume ok: "db_ok db"
  from Pair show ?thesis
  proof (cases rule: dispatch_round_cases)
    case nothing
    with ok Pair show ?thesis by (simp add: claim_next_ok)
  next
    case (claimed m db1)
    from claim_next_ok [OF ok] claimed(1) have "db_ok db1" by (metis fst_conv)
    then have "db_ok db'"
      using claimed(2) delivered_batch_ok [of db1]
      by (auto simp: release_ok failed_ok delivered_def split_beta split: if_splits post_result.splits sum.splits)
    with Pair show ?thesis by simp
  qed
qed

lemma dispatch_round_keeps:
  assumes "db_ok db" "i < MESSAGE_SHARDS" "has (alive c) db i" "dispatch_round env cfg db = (db', res)"
  shows "has (alive c) db' i \<or> (\<exists>m. res = Returned (Some m, True) \<and> pe_post env m = Post_ok \<and> dm_id m = fst c)"
  using assms(4)
proof (cases rule: dispatch_round_cases)
  case nothing
  with assms(3) show ?thesis by (simp add: alive_q.has_claim_next)
next
  case (claimed m db1)
  have ok: "db_ok db1" and alive: "has (alive c) db1 i"
    using claim_next_ok [OF assms(1)] alive_q.has_claim_next [OF assms(3)] claimed(1) by (metis fst_conv)+
  have "has (alive c) (fst (delivered ch flt now ts (cm_id m) lease db1)) i" if "cm_id m \<noteq> fst c" for ch flt now ts lease
  proof -
    have "tolerates ch (alive c) (OpDelivered flt now ts [(cm_id m, lease)])"
      using that by (intro alive_tolerates) (cases c; simp)
    then have "has (alive c) (fst (delivered_batch ch flt now ts [(cm_id m, lease)] db1)) i"
      by (intro has_delivered_batch [OF alive]) simp
    then show ?thesis by (simp add: delivered_def split_beta split: sum.split)
  qed
  moreover have "dm_id (to_downstream m) = cm_id m" by (simp add: to_downstream_def Let_def split_beta)
  ultimately show ?thesis
    using claimed(2) alive alive_release [OF ok alive assms(2)] alive_failed [OF ok alive assms(2)]
    by (cases "cm_id m = fst c") (auto split: if_splits post_result.splits)
qed

lemma dispatch_round_posts:
  assumes "dispatch_round env cfg db = (db', Returned (Some m, go))"
  shows "\<not> covers (dm_topic m) (pe_subs env 1)" "dm_topic m \<notin> set (sub_topics (pe_subs env 0))"
    "ephemeral_topics (pe_faults env 0) (db_stats db) = Inr ts \<Longrightarrow> dm_topic m \<notin> set ts"
proof -
  let ?skip = "skip_topics (sub_topics (pe_subs env 0)) (ephemeral_topics (pe_faults env 0) (db_stats db))"
  obtain m' where m': "\<not> covers (cm_topic m') (pe_subs env 1)" "cm_topic m' \<notin> set ?skip" "m = to_downstream m'"
    using assms
  proof (cases rule: dispatch_round_cases)
    case (claimed m' db1)
    then show ?thesis
      by (intro that [of m'])
        (auto simp: claim_next_excluding_def dest: claim_excluding_topic split: if_splits post_result.splits)
  qed simp
  moreover have "dm_topic m = cm_topic m'" using m'(3) by (simp add: to_downstream_def Let_def split_beta)
  ultimately show "\<not> covers (dm_topic m) (pe_subs env 1)" "dm_topic m \<notin> set (sub_topics (pe_subs env 0))"
    "ephemeral_topics (pe_faults env 0) (db_stats db) = Inr ts \<Longrightarrow> dm_topic m \<notin> set ts"
    using set_skip_topics(1) [of "sub_topics (pe_subs env 0)"] set_skip_topics(2) [of ts "sub_topics (pe_subs env 0)"]
    by auto
qed

lemma dispatch_rounds_ok: "db_ok db \<Longrightarrow> db_ok (fst (dispatch_rounds envs cfg db))"
proof (induction envs arbitrary: db)
  case (Cons env envs)
  then show ?case
    using dispatch_round_ok [of db env cfg] by (auto simp: Let_def split_beta split: prod.split outcome.split)
qed simp

lemma dispatch_rounds_keep:
  "db_ok db \<Longrightarrow> i < MESSAGE_SHARDS \<Longrightarrow> has (alive c) db i \<Longrightarrow> dispatch_rounds envs cfg db = (db', posted) \<Longrightarrow>
   has (alive c) db' i \<or> (\<exists>m \<in> set posted. dm_id m = fst c \<and> (\<exists>env \<in> set envs. pe_post env m = Post_ok))"
proof (induction envs arbitrary: db posted)
  case (Cons env envs)
  obtain db1 res where r: "dispatch_round env cfg db = (db1, res)" by fastforce
  note keep = dispatch_round_keeps [OF Cons.prems(1-3) r]
  have ok1: "db_ok db1" using dispatch_round_ok [OF Cons.prems(1), of env cfg] r by simp
  show ?case
  proof (cases "\<exists>posted1. res = Returned (posted1, True)")
    case True
    then obtain posted1 rest where res: "res = Returned (posted1, True)" and rest: "dispatch_rounds envs cfg db1 = (db', rest)"
      and posted: "posted = (case posted1 of None \<Rightarrow> rest | Some m \<Rightarrow> m # rest)"
      using Cons.prems(4) r by (auto simp: Let_def split: prod.splits)
    from keep show ?thesis
    proof
      assume "has (alive c) db1 i"
      from Cons.IH [OF ok1 Cons.prems(2) this rest] posted show ?thesis by (auto split: option.splits)
    next
      assume "\<exists>m. res = Returned (Some m, True) \<and> pe_post env m = Post_ok \<and> dm_id m = fst c"
      with res posted show ?thesis by (auto split: option.splits)
    qed
  next
    case False
    with r Cons.prems(4) keep show ?thesis by (auto simp: Let_def split: outcome.splits option.splits if_splits)
  qed
qed simp

lemma dispatch_rounds_post:
  "dispatch_rounds envs cfg db = (db', posted) \<Longrightarrow> m \<in> set posted \<Longrightarrow>
   \<exists>env \<in> set envs. \<not> covers (dm_topic m) (pe_subs env 1) \<and> dm_topic m \<notin> set (sub_topics (pe_subs env 0))"
proof (induction envs arbitrary: db posted)
  case (Cons env envs)
  obtain db1 res where r: "dispatch_round env cfg db = (db1, res)" by fastforce
  show ?case
  proof (cases res)
    case (Returned x)
    obtain posted1 go where x: "x = (posted1, go)" by (cases x)
    consider "posted1 = Some m" | rest where "dispatch_rounds envs cfg db1 = (db', rest)" "m \<in> set rest"
      using Cons.prems r by (auto simp: Returned x Let_def split: prod.splits if_splits option.splits)
    then show ?thesis
    proof cases
      case 1
      with dispatch_round_posts [of env cfg db db1 m go] r show ?thesis by (auto simp: Returned x)
    next
      case 2
      with Cons.IH show ?thesis by fastforce
    qed
  qed (use Cons.prems r in simp)
qed simp

subsection \<open>What a sweep keeps\<close>

text \<open>The topic is stored as a persistent one.\<close>

definition durable :: "string \<Rightarrow> topic_row list \<Rightarrow> bool" where
  "durable topic rows \<longleftrightarrow> unique_key tr_topic rows \<and> tc_persistence (settings rows topic) = Persistent"

lemma durable_row: "durable topic rows \<Longrightarrow> r \<in> set rows \<Longrightarrow> tr_topic r = topic \<Longrightarrow> tr_persistence r \<noteq> ''ephemeral''"
  using row_of_Some_iff [of tr_topic rows topic r]
  by (auto simp: durable_def settings_def row_config_def stored_modes)

lemma durable_flush: "durable topic rows \<Longrightarrow> durable topic (fold (flush_row now) ds rows)"
  by (simp add: durable_def settings_flush_rows unique_flush_rows)

lemma durable_flush_stats:
  "durable topic (st_topics st) \<Longrightarrow> durable topic (st_topics (fst (flush_topic_stats ch flt k now meanwhile st)))"
  by (simp add: flush_topic_stats_def Let_def durable_flush)

lemma durable_drop_pending:
  "durable topic (st_topics (db_stats db)) \<Longrightarrow> durable topic (st_topics (db_stats (fst (drop_pending ch flt now t db))))"
  by (auto simp: drop_pending_def bump_dropped_def Let_def split_beta durable_def set_shard_def
      dropped_n.settings_upsert dropped_n.unique_upsert)

lemma durable_delete:
  assumes "durable topic rows" "\<And>r. P r \<Longrightarrow> tr_topic r \<noteq> topic"
  shows "durable topic (snd (sql_delete P rows))"
proof -
  have "row_of tr_topic topic (snd (sql_delete P rows)) = row_of tr_topic topic rows"
    using assms by (auto simp: durable_def row_of_delete dest: row_of_key split: option.split)
  with assms(1) show ?thesis by (simp add: durable_def settings_def)
qed

text \<open>
  A row of a durable topic with property \<open>Q\<close> in shard \<open>i\<close>, and the invariant of the queue: what every
  step of a sweep keeps.
\<close>

definition kept :: "(msg_row \<Rightarrow> bool) \<Rightarrow> nat \<Rightarrow> string \<Rightarrow> database \<Rightarrow> bool" where
  "kept Q i topic db \<longleftrightarrow> db_ok db \<and> has Q db i \<and> durable topic (st_topics (db_stats db))"

abbreviation kept_rs :: "(msg_row \<Rightarrow> bool) \<Rightarrow> nat \<Rightarrow> string \<Rightarrow> retention_state \<Rightarrow> bool" where
  "kept_rs Q i topic rs \<equiv> kept Q i topic (bd_queue (rs_db rs))"

lemma stats_on_shards [simp]: "db_stats (fst (on_shards flt k f db)) = db_stats db"
  by (simp add: on_shards_def split_beta)

lemma kept_apply:
  assumes "kept Q i topic db" "i < MESSAGE_SHARDS"
  shows "tolerates ch Q (OpReclaim flt now) \<Longrightarrow> kept Q i topic (fst (reclaim_stale ch flt now db))"
    "tolerates ch Q (OpPurgeOlder flt cutoff) \<Longrightarrow> kept Q i topic (fst (purge_older_than flt cutoff db))"
    "tolerates ch Q (OpPurgeDelivered flt cutoff) \<Longrightarrow> kept Q i topic (fst (purge_delivered_older_than flt cutoff db))"
    "tolerates ch Q (OpDropPending flt now t) \<Longrightarrow> kept Q i topic (fst (drop_pending ch flt now t db))"
proof -
  have db: "db_ok db" "has Q db i" "durable topic (st_topics (db_stats db))" using assms(1) by (auto simp: kept_def)
  have ok: "db_ok (queue_apply ch op db)" if "op_ok op" for op :: "unit queue_op" by (rule queue_apply_ok [OF db(1) that])
  note clean = has_clean_up [OF db(2) assms(2) db(1)] and settle = has_settle(5) [OF db(2)]
  show "tolerates ch Q (OpReclaim flt now) \<Longrightarrow> kept Q i topic (fst (reclaim_stale ch flt now db))"
    using clean(1) [of ch flt now] ok [of "OpReclaim flt now"] db(3) by (simp add: kept_def) (simp add: reclaim_stale_def)
  show "tolerates ch Q (OpPurgeOlder flt cutoff) \<Longrightarrow> kept Q i topic (fst (purge_older_than flt cutoff db))"
    using clean(2) [of ch flt cutoff] ok [of "OpPurgeOlder flt cutoff"] db(3) by (simp add: kept_def) (simp add: purge_older_than_def)
  show "tolerates ch Q (OpPurgeDelivered flt cutoff) \<Longrightarrow> kept Q i topic (fst (purge_delivered_older_than flt cutoff db))"
    using clean(3) [of ch flt cutoff] ok [of "OpPurgeDelivered flt cutoff"] db(3)
    by (simp add: kept_def) (simp add: purge_delivered_older_than_def)
  show "tolerates ch Q (OpDropPending flt now t) \<Longrightarrow> kept Q i topic (fst (drop_pending ch flt now t db))"
    using settle [of ch flt now t] ok [of "OpDropPending flt now t"] durable_drop_pending [OF db(3), of ch flt now t]
    by (simp add: kept_def)
qed

lemma kept_drop_uncovered:
  assumes "kept Q i topic db" "i < MESSAGE_SHARDS" "\<And>r. Q r \<Longrightarrow> m_topic r = topic" "topic \<notin> set topics"
  shows "kept Q i topic (drop_uncovered env n topics db)"
  using assms(1,4)
proof (induction topics arbitrary: n db)
  case (Cons t topics)
  have "tolerates (se_chrono env) Q (OpDropPending (se_faults env n) (se_clock env n) t)"
    using assms(3) Cons.prems(2) by auto
  from kept_apply(4) [OF Cons.prems(1) assms(2) this] Cons show ?case by simp
qed simp

lemma kept_purge_topics:
  assumes "i < MESSAGE_SHARDS" "\<And>r. Q r \<Longrightarrow> m_topic r = topic"
  shows "kept Q i topic db \<Longrightarrow> durable topic rows \<Longrightarrow> topic \<notin> set topics \<Longrightarrow>
    kept Q i topic (fst (purge_topics flt k topics db rows)) \<and>
    (\<forall>rows' n k'. snd (purge_topics flt k topics db rows) = Inr (rows', n, k') \<longrightarrow> durable topic rows')"
proof (induction topics arbitrary: k db rows)
  case (Cons t topics)
  let ?db = "set_shard (topic_shard t) (snd (sql_delete (\<lambda>r. m_topic r = t) (shard_rows db (topic_shard t)))) db"
  let ?rows = "snd (sql_delete (\<lambda>r. tr_topic r = t \<and> tr_persistence r = ''ephemeral'' \<and> \<not> tr_configured r) rows)"
  have ok: "db_ok db" "has Q db i" "durable topic (st_topics (db_stats db))" using Cons.prems(1) by (auto simp: kept_def)
  have "kept Q i topic ?db"
    unfolding kept_def
  proof (intro conjI)
    show "db_ok ?db" by (rule db_ok_set_shard [OF ok(1)]) (simp add: shard_ok_delete db_okD [OF ok(1)] topic_shard_less)
    show "has Q ?db i" using ok(2) assms(2) Cons.prems(3) by (intro has_set_shard has_delete) auto
    show "durable topic (st_topics (db_stats ?db))" using ok(3) by (simp add: set_shard_def)
  qed
  moreover have "durable topic ?rows" using Cons.prems by (intro durable_delete) auto
  ultimately show ?case
    using Cons.IH [of ?db ?rows "k + 2"] Cons.prems
    by (cases "snd (purge_topics flt (k + 2) topics ?db ?rows)") (auto simp: Let_def split_beta)
qed simp

lemma kept_idle_purge:
  assumes "kept Q i topic (bd_queue bd)" "i < MESSAGE_SHARDS" "\<And>r. Q r \<Longrightarrow> m_topic r = topic"
  shows "kept Q i topic (bd_queue (fst (purge_idle_ephemeral ch flt now meanwhile cutoff keep bd)))"
proof -
  let ?fl = "flush_topic_stats ch flt 0 now meanwhile (db_stats (bd_queue bd))"
  let ?q = "(bd_queue bd)\<lparr>db_stats := fst ?fl\<rparr>"
  let ?stale = "filter (\<lambda>t. t \<notin> set keep) (map tr_topic (filter (idle_ephemeral cutoff (bd_consumers bd)) (st_topics (fst ?fl))))"
  have q: "kept Q i topic ?q" "durable topic (st_topics (fst ?fl))"
    using assms(1) durable_flush_stats by (auto simp: kept_def)
  have "topic \<notin> set ?stale" using durable_row [OF q(2)] by (auto simp: idle_ephemeral_def)
  from kept_purge_topics [OF assms(2,3) q(1) q(2) this] have
    "kept Q i topic (fst (purge_topics flt k ?stale ?q (st_topics (fst ?fl)))) \<and>
     (\<forall>rows' n k'. snd (purge_topics flt k ?stale ?q (st_topics (fst ?fl))) = Inr (rows', n, k') \<longrightarrow> durable topic rows')" for k
    by blast
  with q(1) show ?thesis
    by (fastforce simp: purge_idle_ephemeral_def Let_def split_beta kept_def split: sum.split)
qed

lemma and_then_keeps: "J (fst r) \<Longrightarrow> (\<And>s. J s \<Longrightarrow> J (fst (f s))) \<Longrightarrow> J (fst (and_then r f))"
  by (cases r; cases "snd r") (simp_all add: and_then_def)

text \<open>The message is not older than the retention period, at the clock reading of the sweep.\<close>

definition young :: "'s sweep_env \<Rightarrow> retention_config \<Rightarrow> string \<Rightarrow> bool" where
  "young env cfg created \<longleftrightarrow>
     rc_message_retention_days cfg \<le> 0 \<or>
     (case cutoff_before (se_chrono env) (se_clock env 2) (rc_message_retention_days cfg * 86400) of
        Panic \<Rightarrow> True | Returned cutoff \<Rightarrow> cutoff \<le> created)"

lemma sweep_kept:
  assumes "i < MESSAGE_SHARDS" "\<And>r. Q r \<Longrightarrow> m_topic r = topic" "\<And>r. Q r \<Longrightarrow> m_status r \<noteq> Delivered"
    and "\<And>r. Q r \<Longrightarrow> young env cfg (m_created r)"
    and "\<And>r. Q r \<Longrightarrow> m_status r = Processing \<Longrightarrow> m_next r \<le> to_rfc3339 (se_chrono env) (se_clock env 0) \<Longrightarrow> Q (reclaim_update r)"
    and "kept_rs Q i topic rs"
  shows "kept_rs Q i topic (fst (retention_sweep env cfg rs))"
proof -
  have claims: "kept_rs Q i topic (fst (sweep_claims env rs))"
  proof -
    let ?q = "fst (reclaim_stale (se_chrono env) (se_faults env 0) (se_clock env 0) (bd_queue (rs_db rs)))"
    have q: "kept Q i topic ?q" using assms(5) by (intro kept_apply(1) [OF assms(6,1)]) auto
    have "topic \<notin> set topics" if "ephemeral_topics (se_faults env 1) (db_stats ?q) = Inr topics" for topics
      using that q durable_row [of topic "st_topics (db_stats ?q)"] by (auto simp: kept_def ephemeral_topics_def split: if_splits)
    with q kept_drop_uncovered [OF q assms(1,2)] show ?thesis by (auto simp: sweep_claims_def Let_def split: sum.split)
  qed
  have old: "kept_rs Q i topic (fst (sweep_old env cfg rs))" if "kept_rs Q i topic rs" for rs
  proof (cases "cutoff_before (se_chrono env) (se_clock env 2) (rc_message_retention_days cfg * 86400)")
    case (Returned cutoff)
    have "tolerates (se_chrono env) Q (OpPurgeOlder (se_faults env 2) cutoff)" if "0 < rc_message_retention_days cfg"
      using assms(4) that by (auto simp: young_def Returned not_less)
    with kept_apply(2) [OF \<open>kept_rs Q i topic rs\<close> assms(1)] that show ?thesis by (auto simp: sweep_old_def Returned)
  qed (use that in \<open>simp add: sweep_old_def\<close>)
  have deliv: "kept_rs Q i topic (fst (sweep_delivered env cfg rs))" if "kept_rs Q i topic rs" for rs
  proof -
    have "tolerates (se_chrono env) Q (OpPurgeDelivered (se_faults env 3) cutoff)" for cutoff
      using assms(3) by (auto simp: delivered_before_def)
    with kept_apply(3) [OF that assms(1)] that show ?thesis by (auto simp: sweep_delivered_def split: outcome.split)
  qed
  have idle: "kept_rs Q i topic (fst (sweep_idle env cfg rs))" if "kept_rs Q i topic rs" for rs
    using kept_idle_purge [OF that assms(1,2)] that by (auto simp: sweep_idle_def split: outcome.split)
  have cons: "kept_rs Q i topic (fst (sweep_consumers env cfg rs))" if "kept_rs Q i topic rs" for rs
    using that by (auto simp: sweep_consumers_def split: outcome.split option.split)
  have stores: "kept_rs Q i topic (fst (sweep_stores env rs))" if "kept_rs Q i topic rs" for rs
    using that by (auto simp: sweep_stores_def split: prod.split outcome.split)
  show ?thesis
    unfolding retention_sweep_def
    by (intro and_then_keeps [where J = "kept_rs Q i topic"] claims old deliv idle cons stores)
qed

lemma retention_kept:
  assumes "i < MESSAGE_SHARDS" "\<And>r. Q r \<Longrightarrow> m_topic r = topic" "\<And>r. Q r \<Longrightarrow> m_status r \<noteq> Delivered"
    and "\<And>env r. env \<in> set envs \<Longrightarrow> Q r \<Longrightarrow> young env cfg (m_created r)"
    and "\<And>env r. env \<in> set envs \<Longrightarrow> Q r \<Longrightarrow> m_status r = Processing \<Longrightarrow>
           m_next r \<le> to_rfc3339 (se_chrono env) (se_clock env 0) \<Longrightarrow> Q (reclaim_update r)"
  shows "kept_rs Q i topic rs \<Longrightarrow> kept_rs Q i topic (fst (retention_loop envs cfg rs))"
  using assms(4,5)
proof (induction envs arbitrary: rs)
  case (Cons env envs)
  have "kept_rs Q i topic (fst (retention_sweep env cfg rs))"
    using Cons.prems(1) Cons.prems(2,3) [of env] by (intro sweep_kept [OF assms(1-3)]) auto
  moreover have "kept_rs Q i topic (fst (retention_loop envs cfg rs))" if "kept_rs Q i topic rs" for rs
    using Cons.prems(2,3) that by (intro Cons.IH) auto
  ultimately show ?case by (simp add: and_then_keeps [where J = "kept_rs Q i topic"])
qed simp

lemma alive_status: "alive (content r) x \<longleftrightarrow> content x = content r \<and> m_status x \<in> {Pending, Processing, Failed}"
  by (cases "m_status x") (auto simp: alive_def)

subsection \<open>The background tasks are safe\<close>

text \<open>C7. Forwarding loses nothing: however many rounds the dispatcher runs and whatever fails, a stored
  message that is neither delivered nor dropped stays stored with its content unless the downstream
  service accepted a request with its id; and a message is handed to the HTTP client only for a topic that
  no live subscription covers.\<close>

theorem downstream_at_least_once:
  assumes "db_ok db" "i < MESSAGE_SHARDS" "r \<in> set (shard_rows db i)" "m_status r \<in> {Pending, Processing, Failed}"
    and "dispatch_loop url envs cfg db = (db', posted)"
  shows "db_ok db' \<and>
    ((\<exists>r' \<in> set (shard_rows db' i). content r' = content r \<and> m_status r' \<in> {Pending, Processing, Failed}) \<or>
     (\<exists>m \<in> set posted. dm_id m = m_id r \<and> (\<exists>env \<in> set envs. pe_post env m = Post_ok))) \<and>
    (\<forall>m \<in> set posted. \<exists>env \<in> set envs. \<not> covers (dm_topic m) (pe_subs env 1))"
proof (cases url)
  case (Some u)
  with assms(5) have rounds: "dispatch_rounds envs cfg db = (db', posted)" by (simp add: dispatch_loop_def)
  have "has (alive (content r)) db i" using assms(3,4) by (auto simp: row_in_iff alive_status)
  from dispatch_rounds_keep [OF assms(1,2) this rounds] have
    "(\<exists>r' \<in> set (shard_rows db' i). content r' = content r \<and> m_status r' \<in> {Pending, Processing, Failed}) \<or>
     (\<exists>m \<in> set posted. dm_id m = m_id r \<and> (\<exists>env \<in> set envs. pe_post env m = Post_ok))"
    by (simp add: row_in_iff alive_status) (simp add: content_def)
  moreover have "db_ok db'" using dispatch_rounds_ok [OF assms(1), of envs cfg] rounds by simp
  ultimately show ?thesis using dispatch_rounds_post [OF rounds] by blast
qed (use assms in \<open>auto simp: dispatch_loop_def\<close>)

definition offline_env :: "(nat, unit) dispatch_env" where
  "offline_env = \<lparr>pe_chrono = plain_chrono, pe_json = (\<lambda>_. Some ()), pe_faults = (\<lambda>_. no_faults), pe_clock = (\<lambda>_. 2),
     pe_uuid = (\<lambda>_. ''l''), pe_subs = (\<lambda>_. []), pe_post = (\<lambda>_. Post_error ''connection refused'')\<rparr>"

theorem downstream_at_least_once_witness:
  "\<exists>r' \<in> set (shard_rows (fst (dispatch_loop (Some ''http://x'') [offline_env] sample_config (db_with (sample_row 1)))) (topic_shard ''jobs'')).
     content r' = content (sample_row 1) \<and> m_status r' \<in> {Pending, Processing, Failed}"
  using downstream_at_least_once [of "db_with (sample_row 1)" "topic_shard ''jobs''" "sample_row 1" "Some ''http://x''"
      "[offline_env]" sample_config, OF _ _ _ _ prod.collapse [symmetric]]
  by (simp add: topic_shard_less offline_env_def)

text \<open>C8. Retention spares what is to be kept: over any number of sweeps, with any failing statements, a message of a
  persistent topic that is neither delivered nor dropped and not older than the retention period stays
  stored with its content; its row is not even changed unless it is a claim that has run out.\<close>

theorem retention_spares:
  assumes "db_ok (bd_queue (rs_db rs))" "i < MESSAGE_SHARDS" "r \<in> set (shard_rows (bd_queue (rs_db rs)) i)"
    and "m_status r \<in> {Pending, Processing, Failed}" "durable (m_topic r) (st_topics (db_stats (bd_queue (rs_db rs))))"
    and "\<forall>env \<in> set envs. young env cfg (m_created r)"
  shows "(\<exists>r' \<in> set (shard_rows (bd_queue (rs_db (fst (retention_loop envs cfg rs)))) i).
      content r' = content r \<and> m_status r' \<in> {Pending, Processing, Failed}) \<and>
    ((\<forall>env \<in> set envs. m_status r = Processing \<longrightarrow> to_rfc3339 (se_chrono env) (se_clock env 0) < m_next r) \<longrightarrow>
      r \<in> set (shard_rows (bd_queue (rs_db (fst (retention_loop envs cfg rs)))) i))"
proof (intro conjI impI)
  have "kept_rs (alive (content r)) i (m_topic r) rs"
    using assms(1,3-5) by (auto simp: kept_def row_in_iff alive_status)
  then have "kept_rs (alive (content r)) i (m_topic r) (fst (retention_loop envs cfg rs))"
    using assms(6) by (intro retention_kept [OF assms(2)]) (auto simp: alive_def content_def reclaim_update_def)
  then show "\<exists>r' \<in> set (shard_rows (bd_queue (rs_db (fst (retention_loop envs cfg rs)))) i).
      content r' = content r \<and> m_status r' \<in> {Pending, Processing, Failed}"
    by (auto simp: kept_def row_in_iff alive_status)
next
  assume lease: "\<forall>env \<in> set envs. m_status r = Processing \<longrightarrow> to_rfc3339 (se_chrono env) (se_clock env 0) < m_next r"
  have "kept_rs (\<lambda>x. x = r) i (m_topic r) rs" using assms(1,3,5) by (auto simp: kept_def row_in_iff)
  then have "kept_rs (\<lambda>x. x = r) i (m_topic r) (fst (retention_loop envs cfg rs))"
    using assms(4,6) lease by (intro retention_kept [OF assms(2)]) (auto simp: not_less [symmetric])
  then show "r \<in> set (shard_rows (bd_queue (rs_db (fst (retention_loop envs cfg rs)))) i)"
    by (auto simp: kept_def row_in_iff)
qed

definition busy_state :: retention_state where
  "busy_state =
     (let db = db_with (claim_update ''l'' (to_rfc3339 plain_chrono 9) (sample_row 1));
          topic = (default_row ''jobs'')\<lparr>tr_persistence := ''persistent''\<rparr>
      in \<lparr>rs_db = \<lparr>bd_queue = db\<lparr>db_stats := (db_stats db)\<lparr>st_topics := [topic]\<rparr>\<rparr>, bd_consumers = []\<rparr>,
          rs_cache = cache_new 4, rs_locks = [], rs_last_idle_purge = None\<rparr>)"

definition daily :: retention_config where
  "daily = \<lparr>rc_message_retention_days = 1, rc_delivered_retention_hours = 1, rc_ephemeral_idle_hours = 1,
     rc_purge_interval_hours = 1, rc_consumer_ttl_secs = 60\<rparr>"

definition faulty_sweep :: "nat sweep_env" where
  "faulty_sweep = \<lparr>se_chrono = plain_chrono, se_faults = (\<lambda>n k. n = 3), se_clock = (\<lambda>n. if n = 0 then 5 else 86400 * sec),
     se_instant = (\<lambda>_. 0), se_subs = (\<lambda>_. []), se_meanwhile = []\<rparr>"

theorem retention_spares_witness:
  "claim_update ''l'' (to_rfc3339 plain_chrono 9) (sample_row 1) \<in> set (shard_rows
     (bd_queue (rs_db (fst (retention_loop [faulty_sweep] daily busy_state)))) (topic_shard ''jobs''))"
proof -
  let ?r = "claim_update ''l'' (to_rfc3339 plain_chrono 9) (sample_row 1)"
  have "persistence_from_stored ''persistent'' = Persistent" by code_simp
  then have "durable ''jobs'' (st_topics (db_stats (bd_queue (rs_db busy_state))))"
    by (simp add: busy_state_def durable_def settings_def row_of_def row_config_def default_row_def unique_key_def Let_def)
  moreover have "young faulty_sweep daily (m_created ?r)"
    by (simp add: young_def faulty_sweep_def daily_def cutoff_before_def) (simp add: plain_chrono_def)
  moreover have "to_rfc3339 plain_chrono 5 < to_rfc3339 plain_chrono 9"
    by (simp add: to_rfc3339_less in_years_def)
  ultimately show ?thesis
    using retention_spares [of busy_state "topic_shard ''jobs''" ?r "[faulty_sweep]" daily]
      sample_db(2) [where now = 1 and l = "''l''" and t = "to_rfc3339 plain_chrono 9"] topic_shard_less
    by (simp add: busy_state_def Let_def faulty_sweep_def)
qed

end
