(* ===== verification/Dashboard.thy ===== *)
theory Dashboard
  imports Session Service Maintenance
begin

text \<open>
  What the dashboard shows: the timing histograms of \<open>src/src/metrics.rs\<close>, and the status of
  \<open>src/src/status.rs\<close> with its list of connected clients, put together from the live sessions, the
  registries of MQTT and gRPC connections and the snapshot of the database. Version strings, the
  uptime and the size of the database file are left out. Counters are summed as integers.
\<close>

subsection \<open>Timing histograms\<close>

definition BOUNDS :: "64 word list" where
  "BOUNDS = [100, 500, 1000, 5000, 10000, 50000, 100000, 500000, 1000000, 10000000]"

record timing =
  tm_count :: "64 word"
  tm_total :: "64 word"
  tm_max :: "64 word"
  tm_buckets :: "64 word list"

definition timing_new :: timing where
  "timing_new = \<lparr>tm_count = 0, tm_total = 0, tm_max = 0, tm_buckets = replicate 11 0\<rparr>"

fun position :: "('b \<Rightarrow> bool) \<Rightarrow> 'b list \<Rightarrow> nat option" where
  "position P [] = None"
| "position P (x # xs) = (if P x then Some 0 else map_option Suc (position P xs))"

text \<open>\<open>duration\<close> in nanoseconds; the atomic additions wrap.\<close>

definition timing_record :: "nat \<Rightarrow> timing \<Rightarrow> timing" where
  "timing_record duration t =
     (let us = of_nat (min (duration div 1000) (2 ^ 64 - 1));
          bucket = (case position (\<lambda>bound. us \<le> bound) BOUNDS of None \<Rightarrow> 10 | Some i \<Rightarrow> i)
      in \<lparr>tm_count = tm_count t + 1, tm_total = tm_total t + us, tm_max = max (tm_max t) us,
          tm_buckets = (tm_buckets t)[bucket := tm_buckets t ! bucket + 1]\<rparr>)"

record timing_snapshot =
  tn_count :: "64 word"
  tn_total_us :: "64 word"
  tn_max_us :: "64 word"
  tn_bucket_upper_us :: "64 word list"
  tn_buckets :: "64 word list"

definition timing_snapshot_of :: "timing \<Rightarrow> timing_snapshot" where
  "timing_snapshot_of t =
     \<lparr>tn_count = tm_count t, tn_total_us = tm_total t, tn_max_us = tm_max t, tn_bucket_upper_us = BOUNDS,
      tn_buckets = tm_buckets t\<rparr>"

subsection \<open>Live sessions in the snapshot\<close>

definition add_session_topic :: "session_info \<Rightarrow> topic_snapshot list \<Rightarrow> topic_snapshot list" where
  "add_session_topic session topics =
     (if si_topic session \<in> set (map ts_name topics) then topics
      else topics @ [(empty_snapshot (si_topic session))\<lparr>ts_delivery := ''broadcast'', ts_persistence := ''persistent''\<rparr>])"

definition session_name :: "string \<Rightarrow> string" where
  "session_name sid = (case strip_prefix ''mqtt:'' sid of None \<Rightarrow> sid | Some name \<Rightarrow> name)"

text \<open>The first consumer with the id is marked as live.\<close>

fun mark_live :: "string \<Rightarrow> consumer_snapshot list \<Rightarrow> consumer_snapshot list option" where
  "mark_live sid [] = None"
| "mark_live sid (c # cs) =
     (if cs_id c = sid then Some (c\<lparr>cs_live := True\<rparr> # cs) else map_option (Cons c) (mark_live sid cs))"

definition merge_session :: "session_info \<Rightarrow> topic_snapshot \<Rightarrow> topic_snapshot" where
  "merge_session session topic =
     (if \<not> filter_matches (si_topic session) (ts_name topic) then topic
      else case mark_live (si_id session) (ts_consumers topic) of
             Some consumers \<Rightarrow> topic\<lparr>ts_consumers := consumers\<rparr>
           | None \<Rightarrow>
               topic\<lparr>ts_consumers := ts_consumers topic @
                 [\<lparr>cs_id = si_id session, cs_name = session_name (si_id session), cs_last_seen_at = si_connected_at session,
                   cs_live = True, cs_attributes = [(''protocol'', si_protocol session)]\<rparr>]\<rparr>)"

definition merge_live_sessions :: "session_info list \<Rightarrow> topic_snapshot list \<Rightarrow> topic_snapshot list" where
  "merge_live_sessions sessions topics = map (fold merge_session sessions) (fold add_session_topic sessions topics)"

subsection \<open>Connected clients\<close>

record client_subscription =
  cl_id :: string
  cl_name :: string
  cl_topic :: string
  cl_protocol :: string
  cl_version :: string
  cl_host :: string
  cl_attributes :: "(string, string) hmap"
  cl_connected_at :: string
  cl_last_seen_at :: string

record connected_client =
  cc_peer :: string
  cc_protocol :: string
  cc_client_id :: string
  cc_version :: string
  cc_host :: string
  cc_streams :: nat
  cc_connected_at :: string
  cc_last_seen_at :: string
  cc_subscriptions :: "client_subscription list"

type_synonym registered = "(string \<times> string, consumer_snapshot) hmap"

definition registered_consumers :: "topic_snapshot list \<Rightarrow> registered" where
  "registered_consumers topics =
     fold (\<lambda>(k, c). hput k c) (concat (map (\<lambda>t. map (\<lambda>c. ((ts_name t, cs_id c), c)) (ts_consumers t)) topics)) []"

definition attribute_or :: "string \<Rightarrow> string \<Rightarrow> (string, string) hmap \<Rightarrow> string" where
  "attribute_or value key attributes =
     (if value \<noteq> [] then value else case hget attributes key of None \<Rightarrow> [] | Some v \<Rightarrow> v)"

definition to_subscription :: "registered \<Rightarrow> session_info \<Rightarrow> client_subscription" where
  "to_subscription reg session =
     (let meta = hget reg (si_topic session, si_id session);
          attributes = (case meta of None \<Rightarrow> [] | Some c \<Rightarrow> cs_attributes c)
      in \<lparr>cl_id = si_id session,
          cl_name = (let fallback = (case strip_prefix ''mqtt:'' (si_id session) of None \<Rightarrow> [] | Some n \<Rightarrow> n)
                     in case meta of None \<Rightarrow> fallback | Some c \<Rightarrow> if cs_name c = [] then fallback else cs_name c),
          cl_topic = si_topic session, cl_protocol = si_protocol session,
          cl_version = attribute_or (si_version session) ''version'' attributes,
          cl_host = attribute_or (si_host session) ''host'' attributes,
          cl_attributes = attributes, cl_connected_at = si_connected_at session,
          cl_last_seen_at = (case meta of None \<Rightarrow> si_connected_at session | Some c \<Rightarrow> cs_last_seen_at c)\<rparr>)"

definition first_value :: "string \<Rightarrow> string list \<Rightarrow> string" where
  "first_value primary values_of =
     (if primary \<noteq> [] then primary else case find (\<lambda>v. v \<noteq> []) values_of of None \<Rightarrow> [] | Some v \<Rightarrow> v)"

definition greatest :: "string \<Rightarrow> string list \<Rightarrow> string" where
  "greatest fallback xs = (case xs of [] \<Rightarrow> fallback | x # xs \<Rightarrow> fold max xs x)"

definition least :: "string \<Rightarrow> string list \<Rightarrow> string" where
  "least fallback xs = (case xs of [] \<Rightarrow> fallback | x # xs \<Rightarrow> fold min xs x)"

definition sorted_subs :: "registered \<Rightarrow> session_info list \<Rightarrow> client_subscription list" where
  "sorted_subs reg sessions = sort_key (\<lambda>s. (cl_topic s, cl_id s)) (map (to_subscription reg) sessions)"

text \<open>The sessions of an MQTT client have its id, those of a gRPC connection its peer address.\<close>

definition mqtt_sessions :: "client_info \<Rightarrow> session_info list \<Rightarrow> session_info list" where
  "mqtt_sessions mqtt sessions = filter (\<lambda>s. si_id s = ''mqtt:'' @ ci_client_id mqtt) sessions"

definition grpc_sessions :: "grpc_client_info \<Rightarrow> session_info list \<Rightarrow> session_info list" where
  "grpc_sessions grpc sessions = filter (\<lambda>s. si_peer s = gc_peer grpc) sessions"

definition mqtt_client :: "registered \<Rightarrow> session_info list \<Rightarrow> client_info \<Rightarrow> connected_client" where
  "mqtt_client reg sessions mqtt =
     (let subs = sorted_subs reg (mqtt_sessions mqtt sessions)
      in \<lparr>cc_peer = ci_peer mqtt, cc_protocol = ci_transport mqtt, cc_client_id = ci_client_id mqtt,
          cc_version = first_value (ci_version mqtt) (map cl_version subs), cc_host = first_value [] (map cl_host subs),
          cc_streams = length subs, cc_connected_at = ci_connected_at mqtt,
          cc_last_seen_at = greatest (ci_connected_at mqtt) (map cl_last_seen_at subs), cc_subscriptions = subs\<rparr>)"

definition grpc_client :: "registered \<Rightarrow> session_info list \<Rightarrow> grpc_client_info \<Rightarrow> connected_client" where
  "grpc_client reg sessions grpc =
     (let subs = sorted_subs reg (grpc_sessions grpc sessions)
      in \<lparr>cc_peer = gc_peer grpc, cc_protocol = ''grpc'', cc_client_id = [],
          cc_version = first_value (gc_version grpc) (map cl_version subs), cc_host = first_value (gc_host grpc) (map cl_host subs),
          cc_streams = length subs, cc_connected_at = gc_connected_at grpc,
          cc_last_seen_at = greatest (gc_connected_at grpc) (map cl_last_seen_at subs), cc_subscriptions = subs\<rparr>)"

definition grpc_group_key :: "session_info \<Rightarrow> string" where
  "grpc_group_key session = (if si_host session \<noteq> [] then ''h:'' @ si_host session else ''p:'' @ si_peer session)"

definition add_to_group ::
  "registered \<Rightarrow> session_info \<Rightarrow> (string, string \<times> client_subscription list) hmap \<Rightarrow> (string, string \<times> client_subscription list) hmap" where
  "add_to_group reg session groups =
     (let key = grpc_group_key session;
          (peer, subs) = (case hget groups key of None \<Rightarrow> (si_peer session, []) | Some g \<Rightarrow> g)
      in hput key (peer, subs @ [to_subscription reg session]) groups)"

definition group_client :: "string \<times> client_subscription list \<Rightarrow> connected_client" where
  "group_client = (\<lambda>(peer, subs).
     let subs = sort_key (\<lambda>s. (cl_topic s, cl_name s, cl_id s)) subs
     in \<lparr>cc_peer = peer, cc_protocol = (case subs of [] \<Rightarrow> ''grpc'' | s # _ \<Rightarrow> cl_protocol s), cc_client_id = [],
         cc_version = first_value [] (map cl_version subs), cc_host = first_value [] (map cl_host subs),
         cc_streams = length subs, cc_connected_at = least [] (map cl_connected_at subs),
         cc_last_seen_at = greatest [] (map cl_last_seen_at subs), cc_subscriptions = subs\<rparr>)"

definition connected_clients ::
  "session_info list \<Rightarrow> client_info list \<Rightarrow> grpc_client_info list \<Rightarrow> topic_snapshot list \<Rightarrow> connected_client list" where
  "connected_clients sessions mqtt grpc topics =
     (let reg = registered_consumers topics;
          claimed = map (\<lambda>s. (si_id s, si_topic s))
                      (concat (map (\<lambda>m. mqtt_sessions m sessions) mqtt) @ concat (map (\<lambda>g. grpc_sessions g sessions) grpc));
          groups = fold (add_to_group reg) (filter (\<lambda>s. (si_id s, si_topic s) \<notin> set claimed) sessions) []
      in sort_key (\<lambda>c. (cc_host c, cc_peer c, cc_client_id c))
           (map (mqtt_client reg sessions) mqtt @ map (grpc_client reg sessions) grpc @ map (\<lambda>(_, g). group_client g) groups))"

subsection \<open>The status\<close>

record broker_status =
  bs_topics :: nat
  bs_consumers :: nat
  bs_accepted :: int
  bs_duplicates :: int
  bs_pending :: int
  bs_processing :: int
  bs_delivered :: int
  bs_failed :: int
  bs_dropped :: int
  bs_client_count :: nat
  bs_clients :: "connected_client list"
  bs_topics_detail :: "topic_snapshot list"

definition live_topic :: "'s topic_subscribers \<Rightarrow> topic_snapshot \<Rightarrow> topic_snapshot" where
  "live_topic subs topic =
     topic\<lparr>ts_streams := matching_count (ts_name topic) subs,
           ts_consumers := map (\<lambda>c. if is_live (ts_name topic) (cs_id c) subs then c\<lparr>cs_live := True\<rparr> else c) (ts_consumers topic)\<rparr>"

text \<open>The sort is by the number of streams, greatest first, then by name. \<open>None\<close> is an internal error.\<close>

definition build_status ::
  "chrono \<Rightarrow> (string \<Rightarrow> (string, string) hmap option) \<Rightarrow> faults \<Rightarrow> int \<Rightarrow> int \<Rightarrow> (string \<times> topic_delta) list \<Rightarrow> nat
   \<Rightarrow> 's topic_subscribers \<Rightarrow> client_info list \<Rightarrow> grpc_client_info list \<Rightarrow> broker_db \<Rightarrow> broker_db \<times> broker_status option outcome" where
  "build_status ch from_map flt t_cutoff now meanwhile consumer_ttl_secs subs mqtt grpc bd =
     (case consumer_cutoff ch t_cutoff consumer_ttl_secs of
        Panic \<Rightarrow> (bd, Panic)
      | Returned cutoff \<Rightarrow>
          (case status_snapshot ch from_map flt now meanwhile cutoff bd of
             (bd, Inl _) \<Rightarrow> (bd, Returned None)
           | (bd, Inr topics) \<Rightarrow>
               let sessions = sub_sessions subs;
                   detail = sort_key (\<lambda>t. (- int (ts_streams t), ts_name t))
                              (map (live_topic subs) (merge_live_sessions sessions topics));
                   clients = connected_clients sessions mqtt grpc detail
               in (bd, Returned (Some
                     \<lparr>bs_topics = length detail, bs_consumers = sum_list (map ts_streams detail),
                      bs_accepted = sum_list (map ts_accepted detail), bs_duplicates = sum_list (map ts_duplicates detail),
                      bs_pending = sum_list (map ts_pending detail), bs_processing = sum_list (map ts_processing detail),
                      bs_delivered = sum_list (map ts_delivered detail), bs_failed = sum_list (map ts_failed detail),
                      bs_dropped = sum_list (map ts_dropped detail), bs_client_count = length clients,
                      bs_clients = clients, bs_topics_detail = detail\<rparr>))))"

text \<open>The open status page hides the clients and the topics.\<close>

definition public_status :: "broker_status \<Rightarrow> broker_status" where
  "public_status st = st\<lparr>bs_clients := [], bs_topics_detail := []\<rparr>"

subsection \<open>Histograms count every sample\<close>

lemma position_less: "position P xs = Some i \<Longrightarrow> i < length xs \<and> P (xs ! i)"
  by (induction xs arbitrary: i) (auto split: if_splits)

lemma sum_list_bump: "i < length xs \<Longrightarrow> sum_list (xs[i := xs ! i + 1]) = sum_list xs + (1 :: 64 word)"
  by (induction xs arbitrary: i) (auto simp: less_Suc_eq_0_disj algebra_simps)

text \<open>Every sample is in exactly one bucket, and the greatest sample is remembered.\<close>

lemma timing_record_counts:
  assumes "length (tm_buckets t) = 11" "sum_list (tm_buckets t) = tm_count t"
  shows "length (tm_buckets (timing_record d t)) = 11 \<and> sum_list (tm_buckets (timing_record d t)) = tm_count (timing_record d t) \<and>
    tm_max t \<le> tm_max (timing_record d t)"
proof -
  let ?us = "of_nat (min (d div 1000) (2 ^ 64 - 1)) :: 64 word"
  let ?b = "case position (\<lambda>bound. ?us \<le> bound) BOUNDS of None \<Rightarrow> 10 | Some i \<Rightarrow> i"
  have "?b < 11" using position_less [of "\<lambda>bound. ?us \<le> bound" BOUNDS] by (auto simp: BOUNDS_def split: option.split)
  with assms sum_list_bump [of ?b "tm_buckets t"] show ?thesis
    by (simp add: timing_record_def Let_def)
qed

lemma timing_counts: "sum_list (tm_buckets (fold timing_record ds timing_new)) = tm_count (fold timing_record ds timing_new)"
proof -
  have "length (tm_buckets (fold timing_record ds t)) = 11 \<and> sum_list (tm_buckets (fold timing_record ds t)) = tm_count (fold timing_record ds t)"
    if "length (tm_buckets t) = 11" "sum_list (tm_buckets t) = tm_count t" for t
    using that by (induction ds arbitrary: t) (simp_all add: timing_record_counts)
  then show ?thesis by (simp add: timing_new_def eval_nat_numeral)
qed

subsection \<open>Every live session is shown\<close>

abbreviation session_key :: "session_info \<Rightarrow> string \<times> string" where
  "session_key s \<equiv> (si_id s, si_topic s)"

abbreviation sub_key :: "client_subscription \<Rightarrow> string \<times> string" where
  "sub_key s \<equiv> (cl_id s, cl_topic s)"

text \<open>How often the list of clients shows each subscription.\<close>

definition shown :: "connected_client list \<Rightarrow> (string \<times> string) multiset" where
  "shown clients = mset (map sub_key (concat (map cc_subscriptions clients)))"

lemma shown_append [simp]: "shown (xs @ ys) = shown xs + shown ys"
  by (simp add: shown_def)

lemma shown_sum: "shown cs = sum_mset (image_mset (\<lambda>c. mset (map sub_key (cc_subscriptions c))) (mset cs))"
  by (induction cs) (simp_all add: shown_def)

lemma shown_sort [simp]: "shown (sort_key f xs) = shown xs"
  by (simp add: shown_sum)

lemma sub_key_to_subscription [simp]: "sub_key (to_subscription reg s) = session_key s"
  by (simp add: to_subscription_def Let_def)

lemma keys_sorted_subs: "mset (map sub_key (sorted_subs reg sessions)) = mset (map session_key sessions)"
proof -
  have "mset (map sub_key (sorted_subs reg sessions)) = image_mset sub_key (mset (map (to_subscription reg) sessions))"
    by (simp add: sorted_subs_def)
  then show ?thesis by (simp add: comp_def image_mset.compositionality to_subscription_def Let_def)
qed

lemma shown_mqtt: "shown (map (mqtt_client reg sessions) mqtt) = mset (map session_key (concat (map (\<lambda>m. mqtt_sessions m sessions) mqtt)))"
  by (induction mqtt) (use keys_sorted_subs in \<open>auto simp: shown_def mqtt_client_def Let_def\<close>)

lemma shown_grpc: "shown (map (grpc_client reg sessions) grpc) = mset (map session_key (concat (map (\<lambda>g. grpc_sessions g sessions) grpc)))"
  by (induction grpc) (use keys_sorted_subs in \<open>auto simp: shown_def grpc_client_def Let_def\<close>)

lemma keys_group: "image_mset sub_key (mset (cc_subscriptions (group_client (peer, subs)))) = image_mset sub_key (mset subs)"
  by (simp add: group_client_def Let_def)

abbreviation group_clients :: "(string, string \<times> client_subscription list) hmap \<Rightarrow> connected_client list" where
  "group_clients groups \<equiv> map (\<lambda>(_, g). group_client g) groups"

lemma shown_Cons: "shown (c # cs) = image_mset sub_key (mset (cc_subscriptions c)) + shown cs"
  by (simp add: shown_def)

lemma shown_hput:
  "shown (group_clients (hput k (p, subs @ [x]) groups)) = add_mset (sub_key x) (shown (group_clients groups))"
  if "case hget groups k of None \<Rightarrow> subs = [] | Some (_, subs') \<Rightarrow> subs = subs'"
  using that
proof (induction groups)
  case Nil
  then show ?case by (simp add: shown_Cons keys_group)
next
  case (Cons g groups)
  then show ?case by (cases g) (auto simp: shown_Cons keys_group split: if_splits)
qed

lemma shown_add_to_group: "shown (group_clients (add_to_group reg s groups)) = add_mset (session_key s) (shown (group_clients groups))"
  using shown_hput [where groups = groups and k = "grpc_group_key s" and x = "to_subscription reg s"]
  by (auto simp: add_to_group_def Let_def split: option.split)

lemma shown_groups:
  "shown (group_clients (fold (add_to_group reg) ss groups)) = mset (map session_key ss) + shown (group_clients groups)"
  by (induction ss arbitrary: groups) (simp_all add: shown_add_to_group)

text \<open>What the whole list shows.\<close>

lemma shown_clients:
  "shown (connected_clients sessions mqtt grpc topics) =
     (let claimed = map session_key (concat (map (\<lambda>m. mqtt_sessions m sessions) mqtt) @ concat (map (\<lambda>g. grpc_sessions g sessions) grpc))
      in mset claimed + mset (map session_key (filter (\<lambda>s. session_key s \<notin> set claimed) sessions)))"
  by (simp add: connected_clients_def Let_def shown_mqtt shown_grpc shown_groups) (simp add: shown_def)

lemma count_filter_key:
  "distinct (map session_key sessions) \<Longrightarrow> s \<in> set sessions \<Longrightarrow>
   count (image_mset session_key (filter_mset P (mset sessions))) (session_key s) = (if P s then 1 else 0)"
proof (induction sessions)
  case (Cons x sessions)
  have "count (image_mset session_key (filter_mset P (mset ys))) k = 0" if "k \<notin> session_key ` set ys" for k ys
    using that by (auto simp: count_eq_zero_iff)
  then show ?case using Cons by (cases "s = x") auto
qed simp

lemma count_claimed:
  "distinct (map session_key sessions) \<Longrightarrow> s \<in> set sessions \<Longrightarrow>
   count (image_mset session_key (mset (concat (map (\<lambda>m. filter (Q m) sessions) ms)))) (session_key s) = length (filter (\<lambda>m. Q m s) ms)"
  by (induction ms) (simp_all add: count_filter_key)

text \<open>The registry of live subscriptions lists every session once.\<close>

definition entry_keys :: "string \<times> 's sessions_map \<Rightarrow> (string \<times> string) list" where
  "entry_keys p = map (\<lambda>(sid, _). (sid, fst p)) (snd p)"

lemma entry_keys_sessions: "sessions_ok t sessions \<Longrightarrow> map (\<lambda>x. session_key (le_info (snd x))) sessions = entry_keys (t, sessions)"
  by (auto simp: sessions_ok_def entry_keys_def)

lemma distinct_entry_keys: "hmap_ok subs \<Longrightarrow> \<forall>p \<in> set subs. hmap_ok (snd p) \<Longrightarrow> distinct (concat (map entry_keys subs))"
proof (induction subs)
  case (Cons p subs)
  have "map fst (entry_keys p) = map fst (snd p)" by (auto simp: entry_keys_def)
  moreover have "distinct (map fst (snd p))" using Cons.prems(2) by (simp add: hmap_ok_def)
  ultimately have d: "distinct (entry_keys p)" by (metis distinct_map)
  have "snd k = fst p" if "k \<in> set (entry_keys p)" for k using that by (auto simp: entry_keys_def)
  moreover have "snd k \<in> fst ` set subs" if "k \<in> set (concat (map entry_keys subs))" for k
    using that by (force simp: entry_keys_def)
  moreover have "fst p \<notin> fst ` set subs" using Cons.prems(1) by (simp add: hmap_ok_def)
  ultimately have "set (entry_keys p) \<inter> set (concat (map entry_keys subs)) = {}" by (metis disjoint_iff)
  moreover have "distinct (concat (map entry_keys subs))" using Cons by (simp add: hmap_ok_def)
  ultimately show ?case using d by (simp only: list.map concat.simps distinct_append)
qed simp

abbreviation listed :: "(string \<times> 's sessions_map) list \<Rightarrow> session_info list" where
  "listed subs \<equiv> concat (map (\<lambda>(_, sessions). map (\<lambda>(_, e). le_info e) sessions) subs)"

lemma keys_listed:
  "\<forall>p \<in> set subs. sessions_ok (fst p) (snd p) \<Longrightarrow> map session_key (listed subs) = concat (map entry_keys subs)"
proof (induction subs)
  case (Cons p subs)
  have "map session_key (map (\<lambda>(_, e). le_info e) (snd p)) = entry_keys p"
    using entry_keys_sessions [of "fst p" "snd p"] Cons.prems by (simp add: comp_def split_beta)
  moreover have "map session_key (listed subs) = concat (map entry_keys subs)" using Cons by simp
  ultimately show ?case by (simp add: case_prod_unfold del: map_map)
qed simp

lemma distinct_keys:
  assumes "subs_ok subs"
  shows "distinct (map session_key (sub_sessions subs))"
proof -
  have ok: "\<forall>p \<in> set subs. sessions_ok (fst p) (snd p)" using assms by (auto simp: subs_ok_iff)
  then have "\<forall>p \<in> set subs. hmap_ok (snd p)" by (simp add: sessions_ok_def)
  with assms have "distinct (concat (map entry_keys subs))" by (intro distinct_entry_keys) (simp_all add: subs_ok_iff)
  then have "distinct (map session_key (listed subs))" by (simp only: keys_listed [OF ok])
  moreover have "mset (map session_key (sub_sessions subs)) = mset (map session_key (listed subs))"
    by (simp add: sub_sessions_def)
  ultimately show ?thesis using mset_eq_imp_distinct_iff by blast
qed

subsection \<open>The dashboard is complete\<close>

abbreviation claimed_by :: "session_info list \<Rightarrow> client_info list \<Rightarrow> grpc_client_info list \<Rightarrow> (string \<times> string) list" where
  "claimed_by sessions mqtt grpc \<equiv>
     map session_key (concat (map (\<lambda>m. mqtt_sessions m sessions) mqtt) @ concat (map (\<lambda>g. grpc_sessions g sessions) grpc))"

lemma shown_split:
  "shown (connected_clients sessions mqtt grpc topics) =
     mset (claimed_by sessions mqtt grpc) +
     image_mset session_key (filter_mset (\<lambda>s. session_key s \<notin> set (claimed_by sessions mqtt grpc)) (mset sessions))"
  by (simp only: shown_clients Let_def mset_map mset_filter)

lemma claimed_sub: "set (claimed_by sessions mqtt grpc) \<subseteq> session_key ` set sessions"
  unfolding mqtt_sessions_def grpc_sessions_def set_map set_append set_concat
  by (intro image_mono Un_least UN_least subsetI) simp_all

lemma shown_sub: "set_mset (shown (connected_clients sessions mqtt grpc topics)) \<subseteq> session_key ` set sessions"
  unfolding shown_split set_mset_union set_image_mset set_mset_filter set_mset_mset
  using claimed_sub [of sessions mqtt grpc] by (intro Un_least image_mono) simp_all

lemma at_least_one: "n + (if \<not> 0 < n then 1 else 0) = max 1 (n :: nat)"
  by (cases n) simp_all

lemma streams_counted:
  "c \<in> set (connected_clients sessions mqtt grpc topics) \<Longrightarrow> cc_streams c = length (cc_subscriptions c)"
proof -
  have "cc_streams (mqtt_client reg ss m) = length (cc_subscriptions (mqtt_client reg ss m))"
    "cc_streams (grpc_client reg ss g) = length (cc_subscriptions (grpc_client reg ss g))"
    "cc_streams (group_client gr) = length (cc_subscriptions (group_client gr))" for reg ss m g gr
    by (simp_all add: mqtt_client_def grpc_client_def group_client_def Let_def split_beta)
  moreover assume "c \<in> set (connected_clients sessions mqtt grpc topics)"
  ultimately show ?thesis unfolding connected_clients_def Let_def set_sort set_append set_map
    by (elim UnE imageE) (simp_all add: split_beta)
qed

text \<open>C40. The list of connected clients is complete and exact: a live subscription is shown once for every MQTT client with its
  session id and once for every gRPC connection with its peer address, and once if there is none of them; nothing
  else is shown, and the number of streams of a client is the number of its subscriptions.\<close>

theorem sessions_shown:
  assumes "subs_ok subs"
  shows "count (shown (connected_clients (sub_sessions subs) mqtt grpc topics)) (sid, topic) =
      (case find (\<lambda>s. session_key s = (sid, topic)) (sub_sessions subs) of
         None \<Rightarrow> 0
       | Some s \<Rightarrow> max 1 (length (filter (\<lambda>m. si_id s = ''mqtt:'' @ ci_client_id m) mqtt) +
                        length (filter (\<lambda>g. si_peer s = gc_peer g) grpc))) \<and>
    list_all (\<lambda>c. cc_streams c = length (cc_subscriptions c)) (connected_clients (sub_sessions subs) mqtt grpc topics)"
proof
  let ?ss = "sub_sessions subs" and ?claimed = "claimed_by (sub_sessions subs) mqtt grpc"
  let ?found = "find (\<lambda>s. session_key s = (sid, topic)) ?ss"
  note d = distinct_keys [OF assms]
  show "count (shown (connected_clients ?ss mqtt grpc topics)) (sid, topic) =
      (case ?found of
         None \<Rightarrow> 0
       | Some s \<Rightarrow> max 1 (length (filter (\<lambda>m. si_id s = ''mqtt:'' @ ci_client_id m) mqtt) + length (filter (\<lambda>g. si_peer s = gc_peer g) grpc)))"
  proof (cases ?found)
    case None
    then have "(sid, topic) \<notin> session_key ` set ?ss" by (auto simp: find_None_iff)
    then have "(sid, topic) \<notin># shown (connected_clients ?ss mqtt grpc topics)"
      by (rule contra_subsetD [OF shown_sub])
    then have "count (shown (connected_clients ?ss mqtt grpc topics)) (sid, topic) = 0" by (simp only: not_in_iff)
    with None show ?thesis by simp
  next
    case (Some s)
    then obtain i where "i < length ?ss" "session_key (?ss ! i) = (sid, topic)" "s = ?ss ! i" unfolding find_Some_iff by blast
    then have s: "s \<in> set ?ss" "session_key s = (sid, topic)" by simp_all
    let ?n = "length (filter (\<lambda>m. si_id s = ''mqtt:'' @ ci_client_id m) mqtt) + length (filter (\<lambda>g. si_peer s = gc_peer g) grpc)"
    have n: "count (mset ?claimed) (session_key s) = ?n"
      unfolding mqtt_sessions_def grpc_sessions_def mset_map mset_append image_mset_union count_union
      by (simp only: count_claimed [OF d s(1)])
    then have claimed: "session_key s \<in> set ?claimed \<longleftrightarrow> 0 < ?n" by (simp only: count_greater_zero_iff [symmetric] set_mset_mset [symmetric])
    have "count (shown (connected_clients ?ss mqtt grpc topics)) (session_key s) =
        ?n + (if session_key s \<notin> set ?claimed then 1 else 0)"
      unfolding shown_split count_union n count_filter_key [OF d s(1)] by (rule refl)
    also have "\<dots> = max 1 ?n" unfolding claimed by (rule at_least_one)
    finally show ?thesis unfolding Some s(2) by simp
  qed
  show "list_all (\<lambda>c. cc_streams c = length (cc_subscriptions c)) (connected_clients ?ss mqtt grpc topics)"
    by (simp add: list_all_iff streams_counted)
qed

definition two_sessions :: "nat topic_subscribers" where
  "two_sessions =
     sub_add plain_chrono 1 ''jobs'' ''mqtt:a'' 1 ''10.0.0.1:5'' ''mqtt'' [] [] (sub_add plain_chrono 2 ''jobs'' ''w'' 2 ''10.0.0.2:6'' ''grpc'' [] [] [])"

definition one_client :: "client_info list" where
  "one_client = [\<lparr>ci_client_id = ''a'', ci_peer = ''10.0.0.1:5'', ci_transport = ''mqtt'', ci_connected_at = ''t'', ci_version = []\<rparr>]"

theorem sessions_shown_witness:
  "count (shown (connected_clients (sub_sessions two_sessions) one_client [] [])) (''w'', ''jobs'') =
    (case find (\<lambda>s. session_key s = (''w'', ''jobs'')) (sub_sessions two_sessions) of
         None \<Rightarrow> 0
       | Some s \<Rightarrow> max 1 (length (filter (\<lambda>m. si_id s = ''mqtt:'' @ ci_client_id m) one_client) +
           length (filter (\<lambda>g. si_peer s = gc_peer g) ([] :: grpc_client_info list))))"
  by (rule sessions_shown [THEN conjunct1]) (simp add: two_sessions_def sub_add_ok subs_ok_Nil)

end
