(* ===== verification/Config.thy ===== *)
theory Config
  imports Http Maintenance
begin

text \<open>
  The settings of the broker, \<open>src/src/config.rs\<close>: the record of all options with their defaults, the
  addresses, paths and URLs computed from them, and the settings that the tasks are given.
  \<open>sqlite_file_path\<close> of \<open>src/src/db.rs\<close> reads a database URL back. A path is a list of bytes.
\<close>

datatype command = ResetPassword "string option"

record config =
  cf_command :: "command option"
  cf_port :: "16 word"
  cf_web_port :: "16 word"
  cf_web_base :: string
  cf_mqtt_enabled :: bool
  cf_mqtt_port :: "16 word"
  cf_mqtt_ws_port :: "16 word"
  cf_mqtt_allow_anonymous :: bool
  cf_mqtt_auth_url :: "string option"
  cf_auth_token :: "string option"
  cf_admin_password :: "string option"
  cf_secure_cookies :: bool
  cf_data_dir :: "bytes option"
  cf_downstream_url :: "string option"
  cf_worker_poll_ms :: nat
  cf_write_batch_size :: nat
  cf_write_batch_wait_ms :: nat
  cf_write_queue_size :: nat
  cf_ingest_inflight :: nat
  cf_consumer_prefetch :: nat
  cf_claim_batch_size :: nat
  cf_max_delivery_attempts :: int
  cf_message_retention_days :: int
  cf_delivered_retention_hours :: nat
  cf_ephemeral_idle_hours :: nat
  cf_purge_interval_hours :: nat
  cf_ack_timeout_secs :: nat
  cf_consumer_ttl_secs :: nat
  cf_cache_max_entries :: nat
  cf_log_max_bytes :: nat
  cf_log_keep_files :: nat
  cf_log_messages :: bool

text \<open>The settings when no option and no variable is given.\<close>

definition default_config :: config where
  "default_config =
     \<lparr>cf_command = None, cf_port = 7500, cf_web_port = 7501, cf_web_base = [], cf_mqtt_enabled = True, cf_mqtt_port = 7883,
      cf_mqtt_ws_port = 8083, cf_mqtt_allow_anonymous = True, cf_mqtt_auth_url = None, cf_auth_token = None,
      cf_admin_password = None, cf_secure_cookies = False, cf_data_dir = None, cf_downstream_url = None,
      cf_worker_poll_ms = 500, cf_write_batch_size = 128, cf_write_batch_wait_ms = 2, cf_write_queue_size = 8192,
      cf_ingest_inflight = 128, cf_consumer_prefetch = 32, cf_claim_batch_size = 16, cf_max_delivery_attempts = 10,
      cf_message_retention_days = 10, cf_delivered_retention_hours = 24, cf_ephemeral_idle_hours = 1,
      cf_purge_interval_hours = 1, cf_ack_timeout_secs = 30, cf_consumer_ttl_secs = 60, cf_cache_max_entries = 100000,
      cf_log_max_bytes = 100 * 1024 * 1024, cf_log_keep_files = 3, cf_log_messages = False\<rparr>"

subsection \<open>Addresses, paths and URLs\<close>

definition grpc_listen_addr :: "config \<Rightarrow> 8 word list \<times> 16 word" where
  "grpc_listen_addr cf = ([0, 0, 0, 0], cf_port cf)"

definition status_listen_addr :: "config \<Rightarrow> 8 word list \<times> 16 word" where
  "status_listen_addr cf = ([0, 0, 0, 0], cf_web_port cf)"

definition mqtt_listen_addr :: "config \<Rightarrow> 8 word list \<times> 16 word" where
  "mqtt_listen_addr cf = ([0, 0, 0, 0], cf_mqtt_port cf)"

definition mqtt_ws_listen_addr :: "config \<Rightarrow> 8 word list \<times> 16 word" where
  "mqtt_ws_listen_addr cf = ([0, 0, 0, 0], cf_mqtt_ws_port cf)"

definition trim_end_matches :: "char \<Rightarrow> string \<Rightarrow> string" where
  "trim_end_matches c s = rev (dropWhile (\<lambda>x. x = c) (rev s))"

definition trim_matches :: "char \<Rightarrow> string \<Rightarrow> string" where
  "trim_matches c s = trim_end_matches c (dropWhile (\<lambda>x. x = c) s)"

definition sqlite_url :: "string \<Rightarrow> string" where
  "sqlite_url dir =
     (let dir = trim_end_matches (CHR ''/'') (trim dir)
      in if starts_with ''/'' dir then ''sqlite://'' @ dir @ ''/queue.db'' else ''sqlite:'' @ dir @ ''/queue.db'')"

definition database_url :: "config \<Rightarrow> string" where
  "database_url cf =
     (case cf_data_dir cf of Some dir \<Rightarrow> sqlite_url (from_utf8_lossy dir) | None \<Rightarrow> ''sqlite:./queue.db'')"

text \<open>\<open>Path::join\<close> with a relative path sets a separator where there is none.\<close>

definition log_dir :: "config \<Rightarrow> bytes option" where
  "log_dir cf =
     map_option (\<lambda>dir. dir @ (if dir = [] \<or> last dir = 0x2F then [] else [0x2F]) @ as_bytes ''logs'') (cf_data_dir cf)"

definition normalize_web_base :: "string \<Rightarrow> string option" where
  "normalize_web_base raw =
     (let trimmed = trim_matches (CHR ''/'') (trim raw) in if trimmed = [] then None else Some (CHR ''/'' # trimmed))"

definition status_web_base :: "config \<Rightarrow> string option" where
  "status_web_base cf = normalize_web_base (cf_web_base cf)"

definition sqlite_file_path :: "string \<Rightarrow> string option" where
  "sqlite_file_path url =
     (case strip_prefix ''sqlite:'' url of
        None \<Rightarrow> None
      | Some rest \<Rightarrow>
          (case strip_prefix ''///'' rest of
             Some path \<Rightarrow> Some (CHR ''/'' # path)
           | None \<Rightarrow> if starts_with ''//'' rest then None else Some rest))"

subsection \<open>What the tasks are given\<close>

definition loop_config_of :: "config \<Rightarrow> loop_config" where
  "loop_config_of cf =
     \<lparr>lc_ack_timeout_secs = cf_ack_timeout_secs cf, lc_consumer_ttl_secs = cf_consumer_ttl_secs cf,
      lc_consumer_prefetch = cf_consumer_prefetch cf, lc_claim_batch_size = cf_claim_batch_size cf,
      lc_max_delivery_attempts = cf_max_delivery_attempts cf\<rparr>"

definition retention_config_of :: "config \<Rightarrow> retention_config" where
  "retention_config_of cf =
     \<lparr>rc_message_retention_days = cf_message_retention_days cf, rc_delivered_retention_hours = cf_delivered_retention_hours cf,
      rc_ephemeral_idle_hours = cf_ephemeral_idle_hours cf, rc_purge_interval_hours = cf_purge_interval_hours cf,
      rc_consumer_ttl_secs = cf_consumer_ttl_secs cf\<rparr>"

text \<open>Which MQTT listeners are started: on the status port, on their own TCP port, on their own WebSocket port.\<close>

definition mqtt_listeners :: "config \<Rightarrow> bool \<times> bool \<times> bool" where
  "mqtt_listeners cf =
     (cf_mqtt_enabled cf \<and> cf_mqtt_ws_port cf = 0, cf_mqtt_enabled cf \<and> cf_mqtt_port cf \<noteq> 0,
      cf_mqtt_enabled cf \<and> cf_mqtt_ws_port cf \<noteq> 0)"

subsection \<open>Properties\<close>

text \<open>A path prefix is normal: it starts with one slash, is more than that and does not end in one.\<close>

lemma trim_end_matches_snoc: "trim_end_matches c (s @ [x]) = (if x = c then trim_end_matches c s else s @ [x])"
  by (simp add: trim_end_matches_def)

lemma trim_end_matches_last: "trim_end_matches c s = [] \<or> last (trim_end_matches c s) \<noteq> c"
  by (induction s rule: rev_induct) (simp_all add: trim_end_matches_snoc, simp add: trim_end_matches_def)

lemma trim_end_matches_hd: "trim_end_matches c s \<noteq> [] \<Longrightarrow> hd (trim_end_matches c s) = hd s"
proof (induction s rule: rev_induct)
  case (snoc x s)
  then have "s \<noteq> []" if "x = c" using that by (auto simp: trim_end_matches_def)
  with snoc show ?case by (simp add: trim_end_matches_snoc split: if_splits)
qed (simp add: trim_end_matches_def)

lemma web_base_normal:
  assumes "normalize_web_base raw = Some base"
  shows "\<exists>prefix. base = CHR ''/'' # prefix \<and> prefix \<noteq> [] \<and> hd prefix \<noteq> CHR ''/'' \<and> last prefix \<noteq> CHR ''/''"
proof -
  let ?s = "dropWhile (\<lambda>x. x = CHR ''/'') (trim raw)"
  let ?p = "trim_end_matches (CHR ''/'') ?s"
  have p: "base = CHR ''/'' # ?p" "?p \<noteq> []"
    using assms unfolding normalize_web_base_def trim_matches_def Let_def by (simp_all split: if_split_asm)
  then have "?s \<noteq> []" by (metis trim_end_matches_def dropWhile.simps(1) rev.simps(1))
  then have "hd ?s \<noteq> CHR ''/''" using hd_dropWhile by blast
  then have "hd ?p \<noteq> CHR ''/''" unfolding trim_end_matches_hd [OF p(2)] .
  with p show ?thesis using trim_end_matches_last [of "CHR ''/''" ?s] by blast
qed

text \<open>The URL of the database is read back to the file in the data directory, whatever that is.\<close>

lemma database_file:
  "sqlite_file_path (database_url cf) =
     Some ((case cf_data_dir cf of None \<Rightarrow> ''.'' | Some dir \<Rightarrow> trim_end_matches (CHR ''/'') (trim (from_utf8_lossy dir))) @ ''/queue.db'')"
proof (cases "cf_data_dir cf")
  case None
  then show ?thesis unfolding database_url_def sqlite_file_path_def by (simp add: None strip_prefix_def starts_with_def)
next
  case (Some dir)
  define d where "d = trim_end_matches (CHR ''/'') (trim (from_utf8_lossy dir))"
  have url: "database_url cf = (if starts_with ''/'' d then ''sqlite://'' @ d @ ''/queue.db'' else ''sqlite:'' @ d @ ''/queue.db'')"
    by (simp add: database_url_def Some sqlite_url_def d_def Let_def)
  have "sqlite_file_path (database_url cf) = Some (d @ ''/queue.db'')"
    unfolding url sqlite_file_path_def by (cases d) (simp_all add: strip_prefix_def starts_with_def)
  then show ?thesis by (simp add: Some d_def)
qed

end
