(* ===== verification/Routes.thy ===== *)
theory Routes
  imports Config
begin

text \<open>
  The routes of the HTTP server, \<open>src/src/status.rs\<close>, and those of the MQTT WebSocket,
  \<open>src/src/mqtt/mod.rs\<close>: which handler answers which request, and what a request has to prove before
  it reaches one. Matching a request against the routes is the work of the web framework: \<open>nest\<close> is how it
  joins a prefix and a path, and two routes for the same path and method make it panic when the
  server is put together.
\<close>

subsection \<open>Routes\<close>

datatype http_method = GET | HEAD | POST | PUT | DELETE

datatype handler =
    H_page | H_health | H_status | H_message_trends | H_auth_status | H_login | H_logout
  | H_status_details | H_list_topics | H_configure_topics | H_topic_message | H_publish_message
  | H_consume_poll | H_consume_ack | H_consume_renew | H_clear_topic_messages
  | H_cache_get | H_cache_set | H_cache_delete | H_cache_keys | H_cache_incr
  | H_lock_get | H_lock_release | H_lock_list | H_lock_acquire | H_lock_renew
  | H_election_get | H_election_campaign | H_election_renew | H_election_resign
  | H_mqtt

datatype guard_layer = Open | Service_token | Admin_session

record route =
  rt_path :: string
  rt_method :: http_method
  rt_guard :: guard_layer
  rt_handler :: handler

definition public_routes :: "(string \<times> http_method \<times> handler) list" where
  "public_routes =
     [(''/'', GET, H_page), (''/health'', GET, H_health), (''/status'', GET, H_status),
      (''/message-trends'', GET, H_message_trends), (''/auth/status'', GET, H_auth_status),
      (''/auth/login'', POST, H_login), (''/auth/logout'', POST, H_logout)]"

definition management_routes :: "(string \<times> http_method \<times> handler) list" where
  "management_routes =
     [(''/status/details'', GET, H_status_details), (''/topics'', GET, H_list_topics), (''/topics'', POST, H_configure_topics),
      (''/messages'', GET, H_topic_message), (''/publish'', POST, H_publish_message), (''/consume/poll'', POST, H_consume_poll),
      (''/consume/ack'', POST, H_consume_ack), (''/consume/renew'', POST, H_consume_renew),
      (''/messages'', DELETE, H_clear_topic_messages), (''/cache'', GET, H_cache_get), (''/cache'', PUT, H_cache_set),
      (''/cache'', POST, H_cache_set), (''/cache'', DELETE, H_cache_delete), (''/cache/keys'', GET, H_cache_keys),
      (''/cache/incr'', POST, H_cache_incr), (''/lock'', GET, H_lock_get), (''/lock'', DELETE, H_lock_release),
      (''/lock/list'', GET, H_lock_list), (''/lock/acquire'', POST, H_lock_acquire), (''/lock/renew'', POST, H_lock_renew),
      (''/election'', GET, H_election_get), (''/election/campaign'', POST, H_election_campaign),
      (''/election/renew'', POST, H_election_renew), (''/election/resign'', POST, H_election_resign)]"

definition layered :: "guard_layer \<Rightarrow> (string \<times> http_method \<times> handler) list \<Rightarrow> route list" where
  "layered g rs = map (\<lambda>(path, method, h). \<lparr>rt_path = path, rt_method = method, rt_guard = g, rt_handler = h\<rparr>) rs"

definition nested :: "(string \<Rightarrow> string \<Rightarrow> string) \<Rightarrow> string \<Rightarrow> route list \<Rightarrow> route list" where
  "nested nest base rs = map (\<lambda>r. r\<lparr>rt_path := nest base (rt_path r)\<rparr>) rs"

definition status_routes :: "(string \<Rightarrow> string \<Rightarrow> string) \<Rightarrow> route list" where
  "status_routes nest =
     layered Open public_routes @ layered Service_token management_routes @
     nested nest ''/ui'' (layered Admin_session management_routes)"

definition ws_mqtt_routes :: "(string \<times> http_method \<times> handler) list" where
  "ws_mqtt_routes = [(''/mqtt'', GET, H_mqtt), (''/mqtt/'', GET, H_mqtt)]"

text \<open>The dedicated WebSocket port, and the routes attached to the status server.\<close>

definition ws_router :: "route list" where
  "ws_router = layered Open (ws_mqtt_routes @ [(''/'', GET, H_mqtt)])"

definition ws_status_router :: "route list" where
  "ws_status_router = layered Open ws_mqtt_routes"

definition overlap_free :: "route list \<Rightarrow> bool" where
  "overlap_free rs \<longleftrightarrow> distinct (map (\<lambda>r. (rt_path r, rt_method r)) rs)"

definition root_app :: "(string \<Rightarrow> string \<Rightarrow> string) \<Rightarrow> bool \<Rightarrow> route list" where
  "root_app nest mqtt = status_routes nest @ (if mqtt then ws_status_router else [])"

definition status_app :: "(string \<Rightarrow> string \<Rightarrow> string) \<Rightarrow> string option \<Rightarrow> bool \<Rightarrow> route list outcome" where
  "status_app nest web_base mqtt =
     (let app = root_app nest mqtt;
          rs = (case web_base of None \<Rightarrow> app | Some base \<Rightarrow> app @ nested nest base app)
      in if overlap_free rs then Returned rs else Panic)"

subsection \<open>Requests\<close>

record http_request =
  hr_method :: http_method
  hr_path :: string
  hr_query :: "string option"
  hr_headers :: headers

datatype route_answer = Not_found | Method_not_allowed | Unauthorized | Run handler

text \<open>A route for \<open>GET\<close> also answers \<open>HEAD\<close>.\<close>

definition answers :: "http_method \<Rightarrow> http_method \<Rightarrow> bool" where
  "answers served asked \<longleftrightarrow> served = asked \<or> served = GET \<and> asked = HEAD"

text \<open>
  The middleware runs before the handler; the check of a dashboard session also renews it.
\<close>

definition check_guard ::
  "string option \<Rightarrow> faults \<Rightarrow> nat \<Rightarrow> nat \<Rightarrow> http_request \<Rightarrow> guard_layer \<Rightarrow> web_auth \<Rightarrow> web_auth \<times> bool" where
  "check_guard auth_token flt now later req g wa =
     (case g of
        Open \<Rightarrow> (wa, True)
      | Service_token \<Rightarrow> (wa, require_service_token auth_token (hr_headers req) (hr_query req))
      | Admin_session \<Rightarrow> require_admin flt now later (hr_headers req) wa)"

definition answer_request ::
  "route list \<Rightarrow> string option \<Rightarrow> faults \<Rightarrow> nat \<Rightarrow> nat \<Rightarrow> http_request \<Rightarrow> web_auth \<Rightarrow> web_auth \<times> route_answer" where
  "answer_request rs auth_token flt now later req wa =
     (let found = filter (\<lambda>r. rt_path r = hr_path req) rs in
      if found = [] then (wa, Not_found)
      else case find (\<lambda>r. answers (rt_method r) (hr_method req)) found of
             None \<Rightarrow> (wa, Method_not_allowed)
           | Some r \<Rightarrow>
               (case check_guard auth_token flt now later req (rt_guard r) wa of
                  (wa, ok) \<Rightarrow> (wa, if ok then Run (rt_handler r) else Unauthorized)))"

definition auth_status :: "faults \<Rightarrow> nat \<Rightarrow> nat \<Rightarrow> headers \<Rightarrow> web_auth \<Rightarrow> web_auth \<times> bool" where
  "auth_status flt now later hs wa =
     (case cookie_token hs of
        None \<Rightarrow> (wa, False)
      | Some token \<Rightarrow>
          (case valid_session flt now later token wa of (wa, Inr ok) \<Rightarrow> (wa, ok) | (wa, Inl _) \<Rightarrow> (wa, False)))"

text \<open>The page is a constant text with one tag put behind the first \<open>head\<close>.\<close>

fun replace_first :: "string \<Rightarrow> string \<Rightarrow> string \<Rightarrow> string" where
  "replace_first old new [] = []"
| "replace_first old new (c # s) =
     (if starts_with old (c # s) then new @ drop (length old) (c # s) else c # replace_first old new s)"

definition dashboard_html :: "string \<Rightarrow> string option \<Rightarrow> string" where
  "dashboard_html html web_base =
     (case web_base of
        None \<Rightarrow> html
      | Some base \<Rightarrow>
          replace_first ''<head>''
            (''<head>'' @ [CHR 0x0A] @ ''  <base href='' @ [CHR 0x22] @ trim_end_matches (CHR ''/'') base @ ''/'' @ [CHR 0x22] @ ''>'') html)"

subsection \<open>Properties\<close>

definition is_public :: "handler \<Rightarrow> bool" where
  "is_public h \<longleftrightarrow> h \<in> {H_page, H_health, H_status, H_message_trends, H_auth_status, H_login, H_logout, H_mqtt}"

lemma guarded_routes:
  assumes "status_app nest web_base mqtt = Returned rs" "r \<in> set rs" "rt_guard r = Open"
  shows "is_public (rt_handler r)"
proof -
  have layer: "rt_guard x = g \<and> (\<exists>p m. (p, m, rt_handler x) \<in> set l)" if "x \<in> set (layered g l)" for x g l
    using that by (force simp: layered_def)
  have base: "is_public (rt_handler x)"
    if "x \<in> set (root_app nest mqtt)" "rt_guard x = Open" for x
  proof -
    have "x \<in> set (layered Open public_routes) \<or> x \<in> set (layered Open ws_mqtt_routes)"
      using that by (auto simp: root_app_def status_routes_def ws_status_router_def nested_def dest!: layer split: if_splits)
    then obtain p m where "(p, m, rt_handler x) \<in> set (public_routes @ ws_mqtt_routes)" using layer by fastforce
    then show ?thesis by (auto simp: public_routes_def ws_mqtt_routes_def is_public_def)
  qed
  then show ?thesis
    using assms by (auto simp: status_app_def Let_def nested_def split: if_splits option.splits)
qed

text \<open>A request for a route gets to it: no other one is taken.\<close>

lemma find_in: "find P xs = Some x \<Longrightarrow> x \<in> set xs \<and> P x"
  by (induction xs) (auto split: if_splits)

lemma overlap_free_unique:
  "overlap_free rs \<Longrightarrow> r \<in> set rs \<Longrightarrow> r' \<in> set rs \<Longrightarrow> rt_path r' = rt_path r \<Longrightarrow> rt_method r' = rt_method r \<Longrightarrow> r' = r"
  unfolding overlap_free_def distinct_map by (auto dest: inj_onD)

lemma route_taken:
  assumes "overlap_free rs" "r \<in> set rs" "rt_method r \<noteq> HEAD" "hr_path req = rt_path r" "hr_method req = rt_method r"
  shows "find (\<lambda>r. answers (rt_method r) (hr_method req)) (filter (\<lambda>r. rt_path r = hr_path req) rs) = Some r"
proof -
  let ?found = "filter (\<lambda>r. rt_path r = hr_path req) rs"
  have r: "r \<in> set ?found" "answers (rt_method r) (hr_method req)" using assms by (simp_all add: answers_def)
  have "find (\<lambda>r. answers (rt_method r) (hr_method req)) ?found \<noteq> None" using r by (auto simp: find_None_iff)
  then obtain x where x: "find (\<lambda>r. answers (rt_method r) (hr_method req)) ?found = Some x" by blast
  then have "x \<in> set ?found" "rt_method x = rt_method r" using assms(3,5) by (auto simp: answers_def dest!: find_in)
  then have "x = r" using overlap_free_unique [OF assms(1,2)] assms(4) by simp
  with x show ?thesis by simp
qed

lemma admin_session:
  assumes "require_admin flt now later hs wa = (wa', True)"
  shows "\<exists>token seen. cookie_token hs = Some token \<and> (token, seen) \<in> set (wa_sessions wa) \<and> now \<le> nat (max seen 0) + SESSION_SECONDS"
proof -
  obtain token where token: "cookie_token hs = Some token" "valid_session flt now later token wa = (wa', Inr True)"
    using assms by (auto simp: require_admin_def split: option.splits prod.splits sum.splits)
  then obtain t seen where find: "find (\<lambda>r. fst r = token) (wa_sessions wa) = Some (t, seen)" "\<not> SESSION_SECONDS < now - nat (max seen 0)"
    by (auto simp: valid_session_def split: if_splits option.splits prod.splits)
  then have "t = token" "(t, seen) \<in> set (wa_sessions wa)" by (auto dest!: find_in)
  with token(1) find(2) show ?thesis by (intro exI [of _ token] exI [of _ seen]) auto
qed

lemma no_head: "status_app nest web_base mqtt = Returned rs \<Longrightarrow> r \<in> set rs \<Longrightarrow> rt_method r \<noteq> HEAD"
proof -
  have layer: "rt_method x \<noteq> HEAD" if "x \<in> set (layered g l)" "\<forall>(_, m, _) \<in> set l. m \<noteq> HEAD" for x g l
    using that by (auto simp: layered_def)
  have "rt_method x \<noteq> HEAD" if "x \<in> set (root_app nest mqtt)" for x
    using that layer [of x Open public_routes] layer [of x Open ws_mqtt_routes] layer [of x Service_token management_routes]
      layer [of _ Admin_session management_routes]
    by (auto simp: root_app_def status_routes_def ws_status_router_def nested_def public_routes_def management_routes_def ws_mqtt_routes_def
        split: if_splits)
  then show "status_app nest web_base mqtt = Returned rs \<Longrightarrow> r \<in> set rs \<Longrightarrow> rt_method r \<noteq> HEAD"
    by (auto simp: status_app_def Let_def nested_def split: if_splits option.splits)
qed

subsection \<open>Overlapping routes\<close>

text \<open>How the framework joins a prefix that does not end in a slash and a path.\<close>

definition nest_law :: "(string \<Rightarrow> string \<Rightarrow> string) \<Rightarrow> bool" where
  "nest_law nest \<longleftrightarrow> (\<forall>base path. base \<noteq> [] \<and> last base \<noteq> CHR ''/'' \<longrightarrow> nest base path = (if path = ''/'' then base else base @ path))"

abbreviation key :: "route \<Rightarrow> string \<times> http_method" where
  "key r \<equiv> (rt_path r, rt_method r)"

lemma keys_layered: "map key (layered g l) = map (\<lambda>(p, m, _). (p, m)) l"
  by (simp add: layered_def split_beta)

lemma keys_nested: "map key (nested nest base rs) = map (\<lambda>(p, m). (nest base p, m)) (map key rs)"
  by (simp add: nested_def)

lemma nested_distinct:
  assumes "nest_law nest" "base \<noteq> []" "last base \<noteq> CHR ''/''" "distinct (map key rs)" "\<forall>r \<in> set rs. rt_path r \<noteq> []"
  shows "distinct (map key (nested nest base rs))"
proof -
  have "nest base p = nest base q \<longleftrightarrow> p = q" if "p \<noteq> []" "q \<noteq> []" for p q
    using that assms(1-3) by (auto simp: nest_law_def)
  then have "inj_on (\<lambda>(p, m). (nest base p, m)) (set (map key rs))" using assms(5) by (auto simp: inj_on_def)
  with assms(4) show ?thesis unfolding keys_nested distinct_map [of "\<lambda>(p, m). (nest base p, m)"] by blast
qed

lemma nested_prefix:
  "nest_law nest \<Longrightarrow> base \<noteq> [] \<Longrightarrow> last base \<noteq> CHR ''/'' \<Longrightarrow> r \<in> set (nested nest base rs) \<Longrightarrow> starts_with base (rt_path r)"
  by (auto simp: nested_def nest_law_def starts_with_def)

lemma overlap_free_join:
  assumes "nest_law nest" "base \<noteq> []" "last base \<noteq> CHR ''/''" "overlap_free rs" "overlap_free qs" "\<forall>r \<in> set rs. rt_path r \<noteq> []"
    and "\<forall>r \<in> set qs. \<not> starts_with base (rt_path r)"
  shows "overlap_free (qs @ nested nest base rs)"
proof -
  have "distinct (map key (nested nest base rs))" using nested_distinct [OF assms(1-3)] assms(4,6) by (simp add: overlap_free_def)
  moreover have "rt_path q \<noteq> rt_path r" if "q \<in> set qs" "r \<in> set (nested nest base rs)" for q r
    using nested_prefix [OF assms(1-3) that(2)] assms(7) that(1) by metis
  ultimately show ?thesis using assms(5) unfolding overlap_free_def map_append distinct_append by auto
qed

lemma rooted: "(p, m, h) \<in> set (public_routes @ management_routes @ ws_mqtt_routes) \<Longrightarrow>
  p \<noteq> [] \<and> \<not> starts_with ''/ui'' p"
  unfolding public_routes_def management_routes_def ws_mqtt_routes_def by (auto simp: starts_with_def)

lemma flat_routes: "distinct (map (\<lambda>(p, m, _). (p, m)) (public_routes @ management_routes @ ws_mqtt_routes))"
  unfolding public_routes_def management_routes_def ws_mqtt_routes_def by simp

lemma layered_route: "r \<in> set (layered g l) \<Longrightarrow> (rt_path r, rt_method r, rt_handler r) \<in> set l"
  by (auto simp: layered_def)

lemma layered_rooted:
  "r \<in> set (layered g l) \<Longrightarrow> l \<in> {public_routes, management_routes, ws_mqtt_routes} \<Longrightarrow> rt_path r \<noteq> [] \<and> \<not> starts_with ''/ui'' (rt_path r)"
  using rooted [of "rt_path r" "rt_method r" "rt_handler r"] layered_route [of r g l] by auto

text \<open>The routes without a prefix do not overlap.\<close>

lemma root_overlap_free:
  assumes "nest_law nest"
  shows "overlap_free (root_app nest mqtt)"
proof -
  let ?qs = "layered Open public_routes @ layered Service_token management_routes @ (if mqtt then ws_status_router else [])"
  let ?ui = "layered Admin_session management_routes"
  have flat: "distinct (map key (layered Open public_routes @ layered Service_token management_routes @ ws_status_router))"
    using flat_routes unfolding ws_status_router_def map_append keys_layered by simp
  then have qs: "overlap_free ?qs" unfolding overlap_free_def by (cases mqtt) (auto simp del: set_map)
  have ui: "overlap_free ?ui"
    using flat_routes unfolding overlap_free_def keys_layered map_append distinct_append by blast
  have paths: "\<forall>r \<in> set ?ui. rt_path r \<noteq> []" by (auto dest: layered_rooted)
  have "\<not> starts_with ''/ui'' (rt_path r)" if "r \<in> set ?qs" for r
    using that layered_rooted [of r Open public_routes] layered_rooted [of r Service_token management_routes]
      layered_rooted [of r Open ws_mqtt_routes] unfolding ws_status_router_def by (cases mqtt) auto
  then have "overlap_free (?qs @ nested nest ''/ui'' ?ui)" by (intro overlap_free_join [OF assms _ _ ui qs paths]) simp_all
  then show ?thesis unfolding overlap_free_def root_app_def status_routes_def map_append distinct_append by (simp only: set_append) blast
qed

lemma root_paths: "nest_law nest \<Longrightarrow> r \<in> set (root_app nest mqtt) \<Longrightarrow> rt_path r \<noteq> []"
  using layered_rooted [of r Open public_routes] layered_rooted [of r Service_token management_routes]
    layered_rooted [of r Open ws_mqtt_routes]
  unfolding root_app_def status_routes_def ws_status_router_def by (cases mqtt) (auto simp: nested_def nest_law_def split: if_splits)

lemma overlap_panics:
  assumes "r \<in> set (root_app nest mqtt)" "r' \<in> set (root_app nest mqtt)" "rt_path r = nest base (rt_path r')" "rt_method r = rt_method r'"
  shows "status_app nest (Some base) mqtt = Panic"
proof -
  have "r'\<lparr>rt_path := nest base (rt_path r')\<rparr> \<in> set (nested nest base (root_app nest mqtt))" using assms(2) by (simp add: nested_def)
  then have "key r \<in> key ` set (nested nest base (root_app nest mqtt))" using assms(3,4) by (intro image_eqI) simp_all
  then have "\<not> overlap_free (root_app nest mqtt @ nested nest base (root_app nest mqtt))"
    using assms(1) unfolding overlap_free_def map_append distinct_append by auto
  then show ?thesis by (simp add: status_app_def Let_def)
qed

lemma layeredI: "(p, m, h) \<in> set l \<Longrightarrow> \<lparr>rt_path = p, rt_method = m, rt_guard = g, rt_handler = h\<rparr> \<in> set (layered g l)"
  unfolding layered_def set_map by (rule image_eqI [where x = "(p, m, h)"]) simp_all

lemma root_route:
  assumes "(p, m, h) \<in> set public_routes"
  shows "\<exists>r \<in> set (root_app nest mqtt). rt_path r = p \<and> rt_method r = m"
  using layeredI [OF assms, of Open]
  by (intro bexI [of _ "\<lparr>rt_path = p, rt_method = m, rt_guard = Open, rt_handler = h\<rparr>"]) (simp_all add: root_app_def status_routes_def)

lemma ui_route:
  assumes "nest_law nest" "(p, m, h) \<in> set management_routes" "p \<noteq> ''/''"
  shows "(\<exists>r \<in> set (root_app nest mqtt). rt_path r = p \<and> rt_method r = m) \<and>
    (\<exists>r \<in> set (root_app nest mqtt). rt_path r = ''/ui'' @ p \<and> rt_method r = m)"
proof
  show "\<exists>r \<in> set (root_app nest mqtt). rt_path r = p \<and> rt_method r = m"
    using layeredI [OF assms(2), of Service_token]
    by (intro bexI [of _ "\<lparr>rt_path = p, rt_method = m, rt_guard = Service_token, rt_handler = h\<rparr>"]) (simp_all add: root_app_def status_routes_def)
  let ?r = "\<lparr>rt_path = p, rt_method = m, rt_guard = Admin_session, rt_handler = h\<rparr>"
  have "?r\<lparr>rt_path := nest ''/ui'' (rt_path ?r)\<rparr> \<in> set (nested nest ''/ui'' (layered Admin_session management_routes))"
    unfolding nested_def set_map using layeredI [OF assms(2), of Admin_session] by (rule imageI)
  moreover have "nest ''/ui'' p = ''/ui'' @ p" using assms(1,3) unfolding nest_law_def by simp
  ultimately show "\<exists>r \<in> set (root_app nest mqtt). rt_path r = ''/ui'' @ p \<and> rt_method r = m"
    by (intro bexI [of _ "?r\<lparr>rt_path := nest ''/ui'' (rt_path ?r)\<rparr>"]) (simp_all add: root_app_def status_routes_def)
qed

subsection \<open>Properties of the routes\<close>


definition plain_nest :: "string \<Rightarrow> string \<Rightarrow> string" where
  "plain_nest base path = (if path = ''/'' then base else base @ path)"

lemma plain_nest_law: "nest_law plain_nest"
  by (simp add: nest_law_def plain_nest_def)


text \<open>C19. Nothing is managed without credentials: whatever prefix is set, a request that reaches a handler which is not one
  of the public ones carried the service token, if one is set, or the cookie of a stored dashboard session that has been used
  within the last two hours; and every route of the server is served: a request for its path and method is
  checked by its guard and reaches its handler or none.\<close>

theorem management_protected:
  assumes "status_app nest web_base mqtt = Returned rs"
  shows "(snd (answer_request rs auth_token flt now later req wa) = Run h \<longrightarrow> is_public h \<or>
      auth_token = None \<or> http_token (hr_headers req ''authorization'') (hr_query req) = auth_token \<or>
      (\<exists>token seen. cookie_token (hr_headers req) = Some token \<and> (token, seen) \<in> set (wa_sessions wa) \<and>
         now \<le> nat (max seen 0) + SESSION_SECONDS)) \<and>
    (\<forall>r \<in> set rs. hr_path req = rt_path r \<longrightarrow> hr_method req = rt_method r \<longrightarrow>
      snd (answer_request rs auth_token flt now later req wa) =
        (if snd (check_guard auth_token flt now later req (rt_guard r) wa) then Run (rt_handler r) else Unauthorized))"
proof (intro conjI impI ballI)
  assume run: "snd (answer_request rs auth_token flt now later req wa) = Run h"
  show "is_public h \<or> auth_token = None \<or> http_token (hr_headers req ''authorization'') (hr_query req) = auth_token \<or>
      (\<exists>token seen. cookie_token (hr_headers req) = Some token \<and> (token, seen) \<in> set (wa_sessions wa) \<and>
         now \<le> nat (max seen 0) + SESSION_SECONDS)"
  proof (cases "is_public h")
    case False
    obtain r where r: "r \<in> set rs" "rt_handler r = h" "snd (check_guard auth_token flt now later req (rt_guard r) wa)"
      using run by (auto simp: answer_request_def Let_def split_beta split: if_splits option.splits dest!: find_in)
    with guarded_routes [OF assms r(1)] False have "rt_guard r \<noteq> Open" by blast
    with r(3) show ?thesis
      using admin_session [of flt now later "hr_headers req" wa] tokens_match_iff
      by (cases "rt_guard r") (auto simp: check_guard_def require_service_token_def request_has_service_token_def
          prod_eq_iff split: option.splits)
  qed simp
next
  fix r assume r: "r \<in> set rs" "hr_path req = rt_path r" "hr_method req = rt_method r"
  show "snd (answer_request rs auth_token flt now later req wa) =
        (if snd (check_guard auth_token flt now later req (rt_guard r) wa) then Run (rt_handler r) else Unauthorized)"
  proof -
    have "overlap_free rs" using assms by (auto simp: status_app_def Let_def split: if_splits)
    note taken = route_taken [OF this r(1) no_head [OF assms r(1)] r(2,3)]
    then have "filter (\<lambda>r. rt_path r = hr_path req) rs \<noteq> []" by auto
    with taken show ?thesis by (simp add: answer_request_def Let_def split_beta)
  qed
qed

definition bare_request :: http_request where
  "bare_request = \<lparr>hr_method = DELETE, hr_path = ''/messages'', hr_query = None, hr_headers = (\<lambda>_. None)\<rparr>"

lemma bare_status_app: "status_app plain_nest None True = Returned (root_app plain_nest True)"
  using root_overlap_free [OF plain_nest_law, of True] by (simp add: status_app_def Let_def)

theorem management_protected_witness:
  "status_app plain_nest None True = Returned (root_app plain_nest True) \<and>
   snd (answer_request (root_app plain_nest True) (Some ''secret'') no_faults 0 0 bare_request \<lparr>wa_hash = None, wa_sessions = []\<rparr>) = Unauthorized"
proof -
  let ?r = "\<lparr>rt_path = ''/messages'', rt_method = DELETE, rt_guard = Service_token, rt_handler = H_clear_topic_messages\<rparr>"
  have "?r \<in> set (root_app plain_nest True)" by (simp add: root_app_def status_routes_def layered_def management_routes_def)
  moreover have "\<not> snd (check_guard (Some ''secret'') no_faults 0 0 bare_request (rt_guard ?r) \<lparr>wa_hash = None, wa_sessions = []\<rparr>)"
    by (simp add: check_guard_def require_service_token_def request_has_service_token_def tokens_match_iff bare_request_def http_token_def query_token_def)
  ultimately show ?thesis
    using management_protected [OF bare_status_app, THEN conjunct2, rule_format, of ?r bare_request] bare_status_app
    by (simp add: bare_request_def)
qed

end
