(* ===== verification/Publish.thy ===== *)
theory Publish
  imports Http
begin

text \<open>
  The way of a published message through the broker: \<open>accept_messages\<close> of \<open>src/src/main.rs\<close> admits it into the
  channel of its shard, and the writer of the shard commits it. The lemmas show that nothing the
  writer does afterwards loses what it has stored.
\<close>

subsection \<open>What the writer has stored stays stored\<close>

definition about :: "enqueue_input \<Rightarrow> msg_content \<Rightarrow> bool" where
  "about x c \<longleftrightarrow> fst c = ei_id x \<or> ei_key x \<noteq> None \<and> fst (snd c) = ei_key x"

text \<open>Other tasks keep the message and the one that already has its key.\<close>

definition keeps :: "enqueue_input \<Rightarrow> nat \<Rightarrow> (database \<Rightarrow> database) \<Rightarrow> bool" where
  "keeps x i f \<longleftrightarrow> (\<forall>db. {c \<in> contents i db. about x c} \<subseteq> contents i (f db))"

lemma stored_as_keeps:
  assumes "stored_as tj x res (shard_rows db i)" "{c \<in> contents i db. about x c} \<subseteq> contents i db'"
  shows "stored_as tj x res (shard_rows db' i)"
proof -
  obtain r where r: "r \<in> set (shard_rows db i)" "m_id r = fst res"
    "if snd res then ei_key x \<noteq> None \<and> m_key r = ei_key x
     else m_id r = ei_id x \<and> m_key r = ei_key x \<and> m_topic r = ei_topic x \<and>
          m_payload r = ei_payload x \<and> tj (ei_attributes x) = Some (m_attributes r)"
    using assms(1) by (auto simp: stored_as_def)
  then have "about x (content r)" by (auto simp: about_def content_def split: if_splits)
  with r(1) assms(2) have "content r \<in> contents i db'" by (auto simp: contents_def)
  then obtain r' where "r' \<in> set (shard_rows db' i)" "content r' = content r" by (auto simp: contents_def)
  with r(2,3) show ?thesis by (auto simp: stored_as_def content_def)
qed

lemma enqueue_batch_content: "contents i db \<subseteq> contents i (fst (enqueue_batch ch tj flt clock ts items db))"
proof
  fix c assume "c \<in> contents i db"
  then have "has (\<lambda>r. content r = c) db i" by (auto simp: contents_def row_in_iff)
  then show "c \<in> contents i (fst (enqueue_batch ch tj flt clock ts items db))"
    using has_enqueue_batch by (fastforce simp: contents_def row_in_iff)
qed

text \<open>The message and its results so far are in the database.\<close>

definition all_stored :: "((string \<times> string) list \<Rightarrow> string option) \<Rightarrow> enqueue_input \<Rightarrow> nat \<Rightarrow> 'r worker_state \<Rightarrow> bool" where
  "all_stored tj x i s \<longleftrightarrow> (\<forall>res. (x, res) \<in> set (ws_stored s) \<longrightarrow> stored_as tj x res (shard_rows (ws_db s) i))"

lemma keepsD: "keeps x i f \<Longrightarrow> {c \<in> contents i db. about x c} \<subseteq> {c \<in> contents i (f db). about x c}"
  by (auto simp: keeps_def)

lemma persist_keeps:
  assumes "persist env inputs n wait pauses db = Some r"
  shows "(\<forall>n. keeps x i (we_others env n) \<and> adds_no_ids i (we_others env n)) \<Longrightarrow>
    \<forall>y \<in> set inputs. topic_shard (ei_topic y) = i \<Longrightarrow> inputs \<noteq> [] \<Longrightarrow> i < length (db_shards db) \<Longrightarrow>
    length (db_shards (fst r)) = length (db_shards db) \<and>
    {c \<in> contents i db. about x c} \<subseteq> contents i (fst r) \<and> length (fst (snd r)) = length inputs \<and>
    (\<forall>j < length inputs. stored_as (we_json env) (inputs ! j) (fst (snd r) ! j) (shard_rows (fst r) i))"
  using assms
proof (induct env inputs n wait pauses db r rule: persist.raw_induct [rotated, consumes 1, case_names step])
  case (step go env inputs n wait pauses db r)
  let ?db = "we_others env n db"
  obtain db' res where e: "enqueue_batch (we_chrono env) (we_json env) (we_faults env n) (we_clock env n) (we_now env n) inputs ?db = (db', res)"
    by (meson surj_pair)
  have len: "length (db_shards ?db) = length (db_shards db)" using step(3) by (simp add: adds_no_ids_def)
  have sub: "contents i ?db \<subseteq> contents i db'" using enqueue_batch_content [of i ?db] e by (metis fst_conv)
  have here: "{c \<in> contents i db. about x c} \<subseteq> {c \<in> contents i db'. about x c}"
    using keepsD [of x i "we_others env n" db] step(3) sub by blast
  note one = enqueue_batch_one [OF step(4,5) e]
  show ?case
  proof (cases res)
    case (Inl y)
    then have "db' = ?db" using one by simp
    moreover have "go env inputs (n + 1) (min (wait * 2) 1000) (pauses @ [wait]) db' = Some r" using step(2) e Inl by simp
    ultimately show ?thesis using step(1) [of env inputs "n + 1" "min (wait * 2) 1000" "pauses @ [wait]" db' r] step(3-6) len here by auto
  next
    case (Inr results)
    then obtain rows st where "db' = (set_shard i rows ?db)\<lparr>db_stats := st\<rparr>" "length results = length inputs"
      "\<forall>j < length inputs. stored_as (we_json env) (inputs ! j) (results ! j) rows" using one by auto
    moreover have "r = (db', results, n + 1, pauses)" using step(2) e Inr by simp
    ultimately show ?thesis using here len step(6) by (auto simp: set_shard_def)
  qed
qed

lemma write_enqueues_stored:
  assumes "\<forall>n. keeps x i (we_others env n) \<and> adds_no_ids i (we_others env n)"
    "\<forall>y \<in> set inputs. topic_shard (ei_topic y) = i" "i < length (db_shards (ws_db s))"
    "all_stored (we_json env) x i s" "write_enqueues env inputs s = Some s'"
  shows "all_stored (we_json env) x i s' \<and> length (db_shards (ws_db s')) = length (db_shards (ws_db s))"
proof (cases "inputs = []")
  case False
  then obtain db' results n' pauses where p: "persist env inputs (ws_calls s) 10 [] (ws_db s) = Some (db', results, n', pauses)"
    and s': "ws_db s' = db'" "ws_stored s' = ws_stored s @ zip inputs results"
    using assms(5) by (auto simp: write_enqueues_def bind_eq_Some_conv)
  from persist_keeps [OF p assms(1,2) False assms(3)] have
    new: "length (db_shards db') = length (db_shards (ws_db s))" "{c \<in> contents i (ws_db s). about x c} \<subseteq> contents i db'"
    "length results = length inputs" "\<forall>j < length inputs. stored_as (we_json env) (inputs ! j) (results ! j) (shard_rows db' i)"
    by simp_all
  have "stored_as (we_json env) x res (shard_rows db' i)" if "(x, res) \<in> set (zip inputs results)" for res
    using that new(3,4) by (auto simp: in_set_zip)
  then show ?thesis using new(1) stored_as_keeps [OF _ new(2)] assms(4) s' by (auto simp: all_stored_def)
qed (use assms in \<open>simp add: write_enqueues_def\<close>)

lemma write_delivers_stored:
  assumes "\<forall>n. keeps x i (we_others env n) \<and> adds_no_ids i (we_others env n)" "all_stored (we_json env) x i s"
  shows "all_stored (we_json env) x i (write_delivers env ds s) \<and>
    length (db_shards (ws_db (write_delivers env ds s))) = length (db_shards (ws_db s))"
proof -
  let ?n = "ws_calls s"
  let ?db = "we_others env ?n (ws_db s)"
  let ?call = "delivered_batch (we_chrono env) (we_faults env ?n) (we_clock env ?n 0) (we_now env ?n)
    (map (\<lambda>(mid, lease, _). (mid, lease)) ds) ?db"
  have "{c \<in> contents i (ws_db s). about x c} \<subseteq> contents i (fst ?call)"
    using keepsD [of x i "we_others env ?n" "ws_db s"] assms(1) delivered_batch_content [of i _ _ _ _ _ ?db] by blast
  moreover have "ws_db (write_delivers env ds s) = ws_db s \<or> ws_db (write_delivers env ds s) = fst ?call"
    by (auto simp: write_delivers_def Let_def split: prod.splits sum.splits)
  moreover have "ws_stored (write_delivers env ds s) = ws_stored s" using write_delivers_effect by blast
  moreover have "length (db_shards (fst ?call)) = length (db_shards (ws_db s))"
    using delivered_batch_content [of i _ _ _ _ _ ?db] adds_no_idsD(1) [of i "we_others env" ?n "ws_db s"] assms(1) by metis
  ultimately show ?thesis using assms(2) stored_as_keeps by (fastforce simp: all_stored_def)
qed

lemma run_writer_keeps:
  assumes "run_writer env b cs s = Some r"
  shows "(\<forall>n. keeps x i (we_others env n) \<and> adds_no_ids i (we_others env n)) \<Longrightarrow> list_all (on_shard i) cs \<Longrightarrow>
    i < length (db_shards (ws_db s)) \<Longrightarrow> all_stored (we_json env) x i s \<Longrightarrow> all_stored (we_json env) x i (fst r)"
  using assms
proof (induct env b cs s r rule: run_writer.raw_induct [rotated, consumes 1, case_names step])
  case (step go env b cs s r)
  show ?case
  proof (cases "\<exists>c cs'. cs = c # cs' \<and> \<not> is_shutdown c")
    case False
    then have "ws_stored (fst r) = ws_stored s" "ws_db (fst r) = ws_db s"
      using step(2) by (auto split: list.splits write_command.splits)
    then show ?thesis using step(6) by (simp add: all_stored_def)
  next
    case True
    then obtain c cs' where c: "cs = c # cs'" "\<not> is_shutdown c" by blast
    obtain batch stop rest where col: "collect_batch (max (we_batch_size env) 1 - 1) (we_window env b) cs' = (batch, stop, rest)"
      by (metis prod_cases3)
    from collect_batch_split [OF col] step(4) c have on: "list_all (on_shard i) (c # batch)" "list_all (on_shard i) rest" by auto
    obtain s1 where s1: "write_enqueues env (enqueues (c # batch)) s = Some s1"
      using step(2) c col by (cases c) (auto simp: bind_eq_Some_conv)
    define s2 where "s2 = write_delivers env (delivers (c # batch)) s1"
    have s2: "all_stored (we_json env) x i s2" "i < length (db_shards (ws_db s2))"
      using write_enqueues_stored [OF step(3) enqueues_on_shard [OF on(1)] step(5,6) s1]
        write_delivers_stored [OF step(3), of s1 "delivers (c # batch)"] step(5) by (simp_all add: s2_def)
    have "(case stop of Some r' \<Rightarrow> Some (s2\<lparr>ws_replies := ws_replies s2 @ [Stopped r']\<rparr>, rest) | None \<Rightarrow> go env (b + 1) rest s2) = Some r"
      using step(2) c col s1 by (cases c; cases stop; simp add: s2_def)
    then show ?thesis using s2 step(1) [of env "b + 1" rest s2 r] step(3) on(2) by (cases stop) (auto simp: all_stored_def)
  qed
qed

subsection \<open>From the request to the database\<close>

definition accepted_input :: "accept_request \<Rightarrow> string \<Rightarrow> enqueue_input" where
  "accepted_input m uuid =
     \<lparr>ei_id = new_message_id (trim (aq_topic m)) uuid, ei_key = (if aq_idempotency_key m = [] then None else Some (aq_idempotency_key m)),
      ei_topic = trim (aq_topic m), ei_payload = aq_payload m, ei_attributes = aq_attributes m\<rparr>"

text \<open>Admission returns and appends the message, unless its key is a recent one.\<close>

lemma writer_enqueue_admits:
  assumes "writer_ok w" "ch_open (qw_tx w ! topic_shard topic)"
  shows "\<exists>w1 mid dup. writer_enqueue uuid idem topic payload attributes w = Some (w1, Inr (mid, dup)) \<and> writer_ok w1 \<and>
    (if dup then w1 = w
     else mid = new_message_id topic uuid \<and>
       ch_waiting (qw_tx w1 ! topic_shard topic) = ch_waiting (qw_tx w ! topic_shard topic) @
         [Enqueue \<lparr>ei_id = mid, ei_key = (if idem = Some [] then None else idem), ei_topic = topic, ei_payload = payload,
           ei_attributes = attributes\<rparr>])"
proof -
  define i where "i = topic_shard topic"
  define key where "key = (if idem = Some [] then None else idem)"
  define mid where "mid = new_message_id topic uuid"
  define c where "c = (Enqueue \<lparr>ei_id = mid, ei_key = key, ei_topic = topic, ei_payload = payload, ei_attributes = attributes\<rparr> :: 'a write_command)"
  define known where "known = Option.bind key (\<lambda>k. recent_get k (qw_recent w ! i))"
  have enq: "writer_enqueue uuid idem topic payload attributes w =
      (case known of
         Some mid \<Rightarrow> Some (w, Inr (mid, True))
       | None \<Rightarrow> Option.bind (case key of None \<Rightarrow> Some (qw_recent w ! i) | Some k \<Rightarrow> recent_insert k mid (qw_recent w ! i)) (\<lambda>recent.
           case send_command c (qw_tx w ! i) of
             None \<Rightarrow> Some (w\<lparr>qw_recent := (qw_recent w)[i := (case key of None \<Rightarrow> recent | Some k \<Rightarrow> recent_remove k recent)]\<rparr>, Inl WriterStopped)
           | Some ch \<Rightarrow> Some (w\<lparr>qw_recent := (qw_recent w)[i := recent], qw_tx := (qw_tx w)[i := ch]\<rparr>, Inr (mid, False))))"
    unfolding writer_enqueue_def Let_def known_def c_def mid_def key_def i_def by (rule refl)
  show ?thesis
  proof (cases known)
    case None
    have i: "i < 16" "i < length (qw_tx w)" using assms(1) topic_shard_16 by (simp_all add: i_def writer_ok_def)
    then have ok: "ri_ok (qw_recent w ! i)" using assms(1) by (simp add: writer_ok_def)
    have "\<exists>r. (case key of None \<Rightarrow> Some (qw_recent w ! i) | Some k \<Rightarrow> recent_insert k mid (qw_recent w ! i)) = Some r \<and> ri_ok r"
    proof (cases key)
      case (Some k)
      from recent_insert_ok [OF ok, of k mid] show ?thesis unfolding Some by auto
    qed (simp add: ok)
    then obtain r where r: "(case key of None \<Rightarrow> Some (qw_recent w ! i) | Some k \<Rightarrow> recent_insert k mid (qw_recent w ! i)) = Some r" "ri_ok r"
      by blast
    let ?ch = "(qw_tx w ! i)\<lparr>ch_waiting := ch_waiting (qw_tx w ! i) @ [c]\<rparr>"
    have send: "send_command c (qw_tx w ! i) = Some ?ch" using assms(2) by (simp add: send_command_def i_def)
    have "writer_ok (w\<lparr>qw_recent := (qw_recent w)[i := r], qw_tx := (qw_tx w)[i := ?ch]\<rparr>)"
      by (rule writer_ok_step [OF assms(1) r(2) send _ i(1)]) (simp add: c_def i_def)
    moreover have "writer_enqueue uuid idem topic payload attributes w =
        Some (w\<lparr>qw_recent := (qw_recent w)[i := r], qw_tx := (qw_tx w)[i := ?ch]\<rparr>, Inr (mid, False))"
      unfolding enq None r(1) send by simp
    ultimately show ?thesis using i(2)
      by (intro exI [of _ "w\<lparr>qw_recent := (qw_recent w)[i := r], qw_tx := (qw_tx w)[i := ?ch]\<rparr>"] exI [of _ mid] exI [of _ False])
        (simp add: c_def key_def mid_def i_def)
  next
    case (Some x)
    then show ?thesis using assms(1) unfolding enq by (intro exI [of _ w] exI [of _ x] exI [of _ True]) simp
  qed
qed


definition hello :: accept_request where
  "hello = \<lparr>aq_topic = ''jobs'', aq_payload = [7], aq_attributes = [], aq_idempotency_key = ''k''\<rparr>"


end
