(* ===== verification/Lifecycle.thy ===== *)
theory Lifecycle
  imports Startup Publish
begin

text \<open>
  The first and the last thing that happens to the data of a running broker: \<open>migrate_consumers\<close> of
  \<open>src/src/db.rs\<close>, which rebuilds the consumer table of an old release statement by statement, and the shutdown at
  the end of \<open>main\<close>: the writers drain their channels, then \<open>Database::close\<close> writes the counters.
\<close>

subsection \<open>The consumer table\<close>

record legacy_consumer =
  oc_id :: string
  oc_topic :: string
  oc_downstream_url :: string
  oc_last_seen :: string
  oc_created :: string

text \<open>A table with the column \<open>downstream_url\<close> is one of an old release.\<close>

datatype consumers_table = Current "consumer_row list" | Legacy "legacy_consumer list"

record control_tables =
  kt_consumers :: "consumers_table option"
  kt_consumers_new :: "consumer_row list option"

definition create_consumers :: "control_tables \<Rightarrow> control_tables" where
  "create_consumers t = (if kt_consumers t = None then t\<lparr>kt_consumers := Some (Current [])\<rparr> else t)"

definition upgrade :: "legacy_consumer \<Rightarrow> consumer_row" where
  "upgrade r = \<lparr>c_id = oc_id r, c_topic = oc_topic r, c_name = [], c_attributes = ''{}'', c_last_seen = oc_last_seen r,
     c_created = oc_created r\<rparr>"

text \<open>
  Every statement commits on its own. \<open>CREATE TABLE consumers_new\<close> fails when the table is there.
\<close>

definition migrate_consumers :: "faults \<Rightarrow> nat \<Rightarrow> control_tables \<Rightarrow> control_tables \<times> (db_error + unit)" where
  "migrate_consumers flt k t =
     (if flt k then (t, Inl DbSql)
      else case kt_consumers t of
             Some (Legacy rows) \<Rightarrow>
               if flt (k + 1) \<or> kt_consumers_new t \<noteq> None then (t, Inl DbSql)
               else let t = t\<lparr>kt_consumers_new := Some []\<rparr> in
               if flt (k + 2) then (t, Inl DbSql)
               else let t = t\<lparr>kt_consumers_new := Some (map upgrade rows)\<rparr> in
               if flt (k + 3) then (t, Inl DbSql)
               else let t = t\<lparr>kt_consumers := None\<rparr> in
               if flt (k + 4) then (t, Inl DbSql)
               else let t = t\<lparr>kt_consumers := map_option Current (kt_consumers_new t), kt_consumers_new := None\<rparr> in
               if flt (k + 5) then (t, Inl DbSql) else (t, Inr ())
           | _ \<Rightarrow> (t, Inr ()))"

text \<open>The part of \<open>connect\<close> on this table.\<close>

definition connect_consumers :: "faults \<Rightarrow> control_tables \<Rightarrow> control_tables \<times> (db_error + unit)" where
  "connect_consumers flt t = (if flt 0 then (t, Inl DbSql) else migrate_consumers flt 1 (create_consumers t))"

abbreviation starts :: "faults list \<Rightarrow> control_tables \<Rightarrow> control_tables" where
  "starts flts t \<equiv> fold (\<lambda>flt t. fst (connect_consumers flt t)) flts t"

lemma connect_current: "kt_consumers t = Some (Current rows) \<Longrightarrow> fst (connect_consumers flt t) = t"
  by (simp add: connect_consumers_def create_consumers_def migrate_consumers_def)

lemma starts_current: "kt_consumers t = Some (Current rows) \<Longrightarrow> starts flts t = t"
  by (induction flts) (simp_all add: connect_current)

lemma connect_stuck:
  "kt_consumers t = Some (Legacy rows) \<Longrightarrow> kt_consumers_new t \<noteq> None \<Longrightarrow> connect_consumers flt t = (t, Inl DbSql)"
  by (auto simp: connect_consumers_def create_consumers_def migrate_consumers_def)

lemma starts_stuck:
  "kt_consumers t = Some (Legacy rows) \<Longrightarrow> kt_consumers_new t \<noteq> None \<Longrightarrow> starts flts t = t"
  by (induction flts) (simp_all add: connect_stuck)

text \<open>C38. The migration of the consumer table and what an interruption does to it: when every statement succeeds, the table has the
  same consumers with an empty name and no attributes, and later starts do not change it. When filling the new table or
  dropping the old one fails, every later start fails, whatever happens. When renaming fails, the
  next start succeeds with an empty table: the consumers are gone.\<close>

theorem consumer_migration:
  assumes "kt_consumers t = Some (Legacy rows)" "kt_consumers_new t = None"
  shows "connect_consumers no_faults t = (\<lparr>kt_consumers = Some (Current (map upgrade rows)), kt_consumers_new = None\<rparr>, Inr ()) \<and>
    starts flts (fst (connect_consumers no_faults t)) = fst (connect_consumers no_faults t) \<and>
    (flt 3 \<or> flt 4 \<longrightarrow> \<not> flt 0 \<and> \<not> flt 1 \<and> \<not> flt 2 \<longrightarrow>
       snd (connect_consumers flt' (starts flts (fst (connect_consumers flt t)))) = Inl DbSql) \<and>
    (flt 5 \<longrightarrow> (\<forall>k < 5. \<not> flt k) \<longrightarrow>
       connect_consumers no_faults (fst (connect_consumers flt t)) =
         (\<lparr>kt_consumers = Some (Current []), kt_consumers_new = Some (map upgrade rows)\<rparr>, Inr ()))"
proof (intro conjI impI)
  show ok: "connect_consumers no_faults t = (\<lparr>kt_consumers = Some (Current (map upgrade rows)), kt_consumers_new = None\<rparr>, Inr ())"
    using assms by (simp add: connect_consumers_def create_consumers_def migrate_consumers_def)
  show "starts flts (fst (connect_consumers no_faults t)) = fst (connect_consumers no_faults t)"
    unfolding ok by (rule starts_current) simp
next
  assume "flt 3 \<or> flt 4" "\<not> flt 0 \<and> \<not> flt 1 \<and> \<not> flt 2"
  then have "kt_consumers (fst (connect_consumers flt t)) = Some (Legacy rows)" "kt_consumers_new (fst (connect_consumers flt t)) \<noteq> None"
    using assms by (auto simp: connect_consumers_def create_consumers_def migrate_consumers_def numeral_eq_Suc Let_def)
  then show "snd (connect_consumers flt' (starts flts (fst (connect_consumers flt t)))) = Inl DbSql"
    using starts_stuck connect_stuck by fastforce
next
  assume "flt 5" "\<forall>k < 5. \<not> flt k"
  then have "fst (connect_consumers flt t) = \<lparr>kt_consumers = None, kt_consumers_new = Some (map upgrade rows)\<rparr>"
    using assms by (simp add: connect_consumers_def create_consumers_def migrate_consumers_def Let_def)
  then show "connect_consumers no_faults (fst (connect_consumers flt t)) =
      (\<lparr>kt_consumers = Some (Current []), kt_consumers_new = Some (map upgrade rows)\<rparr>, Inr ())"
    by (simp add: connect_consumers_def create_consumers_def migrate_consumers_def)
qed

definition old_tables :: control_tables where
  "old_tables = \<lparr>kt_consumers = Some (Legacy [\<lparr>oc_id = ''c'', oc_topic = ''jobs'', oc_downstream_url = ''http://x'',
     oc_last_seen = ''t'', oc_created = ''t''\<rparr>]), kt_consumers_new = None\<rparr>"

theorem consumer_migration_witness:
  "kt_consumers_new old_tables = None \<and>
   snd (connect_consumers no_faults (starts [no_faults] (fst (connect_consumers (\<lambda>k. k = 4) old_tables)))) = Inl DbSql \<and>
   kt_consumers (fst (connect_consumers no_faults (fst (connect_consumers (\<lambda>k. k = 5) old_tables)))) = Some (Current [])"
  using consumer_migration [of old_tables _ "[no_faults]" "\<lambda>k. k = 4" no_faults]
    consumer_migration [of old_tables _ "[no_faults]" "\<lambda>k. k = 5" no_faults]
  by (simp add: old_tables_def)

subsection \<open>Shutdown\<close>

text \<open>\<open>close\<close>: the two flushes; the checkpoints move no row.\<close>

definition db_close ::
  "chrono \<Rightarrow> faults \<Rightarrow> int \<Rightarrow> (string \<times> topic_delta) list \<Rightarrow> faults \<Rightarrow> int \<Rightarrow> (string \<times> trend_delta) list \<Rightarrow> stats \<Rightarrow> stats" where
  "db_close ch flt now meanwhile flt' now' meanwhile' st =
     fst (flush_message_trends ch flt' now' meanwhile' (fst (flush_topic_stats ch flt 0 now meanwhile st)))"

text \<open>Closing does what the statistics task does when it stops, so a second flush finds nothing.\<close>

lemma close_is_last_tick: "db_close ch flt now meanwhile flt' now' meanwhile' = stats_worker ch [] flt now meanwhile flt' now' meanwhile'"
  by (simp add: fun_eq_iff db_close_def stats_worker_def)

lemma close_writes_all:
  "st_deltas (db_close ch no_faults now [] no_faults now' [] st) = [] \<and> st_trend_deltas (db_close ch no_faults now [] no_faults now' [] st) = []"
  by (simp add: db_close_def flush_message_trends_def flush_topic_stats_def any_fault_def Let_def)

lemma send_shutdowns_nth:
  "i < length chs \<Longrightarrow> fst (send_shutdowns replies k chs) ! i =
     (if ch_open (chs ! i) then (chs ! i)\<lparr>ch_waiting := ch_waiting (chs ! i) @ [Shutdown (replies (k + i))]\<rparr> else chs ! i)"
proof (induction chs arbitrary: k i)
  case (Cons c chs)
  then show ?case by (cases i) (auto simp: send_command_def split_beta Let_def)
qed simp

text \<open>Whatever was admitted before the shutdown is stored before its writer answers.\<close>

lemma shutdown_stores_waiting:
  assumes "writer_ok w" "i < 16" "ch_open (qw_tx w ! i)" "\<forall>c \<in> set (ch_waiting (qw_tx w ! i)). \<not> is_shutdown c"
    and "\<forall>a. we_json env a \<noteq> None" "\<forall>n. adds_no_ids i (we_others env n)" "\<forall>n. \<exists>m \<ge> n. we_faults env m = no_faults"
    and "admissible i (enqueues (ch_waiting (qw_tx w ! i))) (ws_db s)"
  shows "\<exists>s'. run_writer env b (ch_waiting (qw_tx (fst (writer_shutdown replies w)) ! i)) s = Some (s', []) \<and>
    map fst (ws_stored s') = map fst (ws_stored s) @ enqueues (ch_waiting (qw_tx w ! i)) \<and>
    last (map reply_to (ws_replies s')) = replies i"
proof -
  let ?ws = "ch_waiting (qw_tx w ! i)"
  have cs: "ch_waiting (qw_tx (fst (writer_shutdown replies w)) ! i) = ?ws @ [Shutdown (replies i)]"
    using assms(1-3) by (simp add: writer_shutdown_def split_beta send_shutdowns_nth writer_ok_def)
  have stop: "before_stop (?ws @ [Shutdown (replies i)]) = ?ws" "stop_reply (?ws @ [Shutdown (replies i)]) = [replies i]"
    using assms(4) by (simp_all add: stop_reply_append)
  have "list_all (on_shard i) (?ws @ [Shutdown (replies i)])" using assms(1,2) by (simp add: writer_ok_def)
  from run_writer_drains [OF assms(5-7) this, of s b] assms(8) show ?thesis unfolding cs stop by auto
qed

end
