(* ===== verification/Handle.thy ===== *)
theory Handle
  imports Election
begin

text \<open>
  The election handle of the Java client, \<open>src/java/.../ElectionHandle.java\<close> with the requests of
  \<open>SatwayClient.java\<close>: a worker campaigns and renews, \<open>isLeader\<close> compares the monotonic clock with a local deadline.
  Handles and the broker run together as a step relation in which requests and answers may be late or lost. Readings of
  \<open>System.nanoTime\<close> are integers: the clock does not run over during the life of a process.
\<close>

subsection \<open>The handle\<close>

text \<open>\<open>String.trim\<close> removes control characters and spaces, \<open>isBlank\<close> looks at Java's white space.\<close>

definition java_trim :: "string \<Rightarrow> string" where
  "java_trim s =
     (let blank = (\<lambda>c. of_char c \<le> (0x20 :: nat)) in rev (dropWhile blank (rev (dropWhile blank s))))"

definition java_white_space :: "string list" where
  "java_white_space =
     [[CHR 0x09], [CHR 0x0A], [CHR 0x0B], [CHR 0x0C], [CHR 0x0D], [CHR 0x1C], [CHR 0x1D], [CHR 0x1E],
      [CHR 0x1F], [CHR 0x20], [CHR 0xE1, CHR 0x9A, CHR 0x80],
      [CHR 0xE2, CHR 0x80, CHR 0x80], [CHR 0xE2, CHR 0x80, CHR 0x81], [CHR 0xE2, CHR 0x80, CHR 0x82],
      [CHR 0xE2, CHR 0x80, CHR 0x83], [CHR 0xE2, CHR 0x80, CHR 0x84], [CHR 0xE2, CHR 0x80, CHR 0x85],
      [CHR 0xE2, CHR 0x80, CHR 0x86], [CHR 0xE2, CHR 0x80, CHR 0x88], [CHR 0xE2, CHR 0x80, CHR 0x89],
      [CHR 0xE2, CHR 0x80, CHR 0x8A], [CHR 0xE2, CHR 0x80, CHR 0xA8], [CHR 0xE2, CHR 0x80, CHR 0xA9],
      [CHR 0xE2, CHR 0x81, CHR 0x9F], [CHR 0xE3, CHR 0x80, CHR 0x80]]"

definition is_blank :: "string \<Rightarrow> bool" where
  "is_blank s \<longleftrightarrow> trim_with java_white_space s = []"

datatype role_change = On_leader election_leader | On_follower "election_leader option"

text \<open>\<open>eh_changes\<close> are the calls of the listener.\<close>

record election_handle =
  eh_election :: string
  eh_candidate :: string
  eh_ttl :: int
  eh_running :: bool
  eh_observed :: "election_leader option"
  eh_leading :: bool
  eh_valid_until :: int
  eh_changes :: "role_change list"

datatype java_error = IllegalArgument string

definition require_election_name :: "string \<Rightarrow> java_error + unit" where
  "require_election_name election = (if is_blank election then Inl (IllegalArgument ''election is required'') else Inr ())"

definition java_validate_ttl :: "int \<Rightarrow> java_error + unit" where
  "java_validate_ttl ttl =
     (if ttl < 1 \<or> 3600 < ttl then Inl (IllegalArgument ''ttlSeconds must be between 1 and 3600'') else Inr ())"

definition validate_election :: "string \<Rightarrow> string \<Rightarrow> int \<Rightarrow> java_error + unit" where
  "validate_election election candidate ttl =
     bindE (require_election_name election) (\<lambda>_.
       if is_blank candidate then Inl (IllegalArgument ''candidateId is required'') else java_validate_ttl ttl)"

definition start_election :: "string \<Rightarrow> string \<Rightarrow> int \<Rightarrow> java_error + election_handle" where
  "start_election election candidate ttl =
     bindE (validate_election election candidate ttl) (\<lambda>_.
       if ttl < 3 then Inl (IllegalArgument ''automatic election ttlSeconds must be >= 3'')
       else Inr \<lparr>eh_election = java_trim election, eh_candidate = java_trim candidate, eh_ttl = ttl, eh_running = True,
                 eh_observed = None, eh_leading = False, eh_valid_until = 0, eh_changes = []\<rparr>)"

definition is_leader :: "int \<Rightarrow> election_handle \<Rightarrow> bool" where
  "is_leader nano h \<longleftrightarrow> eh_leading h \<and> nano < eh_valid_until h"

definition handle_term :: "int \<Rightarrow> election_handle \<Rightarrow> nat" where
  "handle_term nano h = (case eh_observed h of Some l \<Rightarrow> if is_leader nano h then el_term l else 0 | None \<Rightarrow> 0)"

definition become_follower :: "election_leader option \<Rightarrow> election_handle \<Rightarrow> election_handle" where
  "become_follower leader h =
     h\<lparr>eh_observed := leader, eh_leading := False, eh_valid_until := 0,
       eh_changes := eh_changes h @ (if eh_leading h then [On_follower leader] else [])\<rparr>"

text \<open>\<open>n1\<close> and \<open>n2\<close> are the two readings of the clock; \<open>toNanos\<close> saturates and the sum wraps.\<close>

definition become_leader :: "int \<Rightarrow> int \<Rightarrow> election_leader \<Rightarrow> election_handle \<Rightarrow> election_handle" where
  "become_leader n1 n2 leader h =
     (let safety_millis = min 1000 (eh_ttl h * 1000 div 3);
          valid_for_millis = el_remaining_ttl_ms leader - safety_millis
      in if valid_for_millis \<le> 0 then become_follower (Some leader) h
         else h\<lparr>eh_observed := Some leader, eh_valid_until := wrap_i64 (n2 + sat_i64 (valid_for_millis * 1000000)),
                eh_leading := True, eh_changes := eh_changes h @ (if is_leader n1 h then [] else [On_leader leader])\<rparr>)"

subsection \<open>The worker\<close>

datatype election_request = Ask_campaign | Ask_renew nat string | Ask_resign nat string

datatype election_answer = Campaigned bool election_leader | Renewed bool "election_leader option"

definition next_request :: "int \<Rightarrow> election_handle \<Rightarrow> election_request" where
  "next_request nano h =
     (case eh_observed h of
        Some l \<Rightarrow> if is_leader nano h then Ask_renew (el_term l) (el_lease_id l) else Ask_campaign
      | None \<Rightarrow> Ask_campaign)"

text \<open>
  What follows on the answer to the request, \<open>None\<close> for an exception: the handle and the resignation it sends. A worker
  that finds its handle closed leaves the loop, and the handle becomes a follower.
\<close>

definition on_answer ::
  "int \<Rightarrow> int \<Rightarrow> election_answer option \<Rightarrow> election_handle \<Rightarrow> election_handle \<times> election_request option" where
  "on_answer n1 n2 answer h =
     (if \<not> eh_running h
      then (become_follower (eh_observed h) h,
            case answer of Some (Campaigned True l) \<Rightarrow> Some (Ask_resign (el_term l) (el_lease_id l)) | _ \<Rightarrow> None)
      else (case answer of
              None \<Rightarrow> if is_leader n1 h then h else become_follower (eh_observed h) h
            | Some (Renewed True (Some l)) \<Rightarrow> become_leader n1 n2 l h
            | Some (Renewed _ l) \<Rightarrow> become_follower l h
            | Some (Campaigned True l) \<Rightarrow> become_leader n1 n2 l h
            | Some (Campaigned False l) \<Rightarrow> become_follower (Some l) h, None))"

text \<open>\<open>close\<close>: first the resignation is sent, and only when it returned the handle becomes a follower.\<close>

definition close_handle :: "int \<Rightarrow> election_handle \<Rightarrow> election_handle \<times> election_request option" where
  "close_handle nano h =
     (h\<lparr>eh_running := False\<rparr>,
      case eh_observed h of
        Some l \<Rightarrow> if is_leader nano h then Some (Ask_resign (el_term l) (el_lease_id l)) else None
      | None \<Rightarrow> None)"

text \<open>A request at the broker. The answer to a resignation is not looked at; an error status is an exception.\<close>

definition election_call ::
  "(int \<Rightarrow> string) \<Rightarrow> faults \<Rightarrow> int \<Rightarrow> int \<Rightarrow> int \<Rightarrow> string \<Rightarrow> election_handle \<Rightarrow> election_request \<Rightarrow> election_table
   \<Rightarrow> election_table \<times> election_answer option" where
  "election_call ts flt now t_active t_proto lease h request rows =
     (case request of
        Ask_campaign \<Rightarrow>
          (case service_campaign ts flt now t_active t_proto lease (eh_election h) (eh_candidate h) (eh_ttl h) rows of
             (rows, Inl _) \<Rightarrow> (rows, None)
           | (rows, Inr (won, l)) \<Rightarrow> (rows, Some (Campaigned won l)))
      | Ask_renew term lease_id \<Rightarrow>
          (case service_renew ts flt now t_proto (eh_election h) (eh_candidate h) term lease_id (eh_ttl h) rows of
             (rows, Inl _) \<Rightarrow> (rows, None)
           | (rows, Inr (renewed, l)) \<Rightarrow> (rows, Some (Renewed renewed l)))
      | Ask_resign term lease_id \<Rightarrow>
          (fst (service_resign ts flt now (eh_election h) (eh_candidate h) term lease_id rows), None))"

subsection \<open>Handles and broker together\<close>

text \<open>
  Time is counted in nanoseconds. The clock of handle \<open>i\<close> is ahead by \<open>org i\<close>, the wall clock of the broker by \<open>off\<close>, and
  all run at the same speed. An answer carries the time at which the broker read its clock for it.
\<close>

datatype call_phase = Idle | Asking election_request | Answered election_answer int | Broken

record cluster =
  cl_now :: int
  cl_rows :: election_table
  cl_handle :: "nat \<Rightarrow> election_handle"
  cl_call :: "nat \<Rightarrow> call_phase"
  cl_wire :: "(nat \<times> election_request) list"

definition server_ms :: "int \<Rightarrow> int \<Rightarrow> int" where
  "server_ms off t = (t + off) div 1000000"

abbreviation sent :: "nat \<Rightarrow> election_request option \<Rightarrow> (nat \<times> election_request) list" where
  "sent i request \<equiv> (case request of None \<Rightarrow> [] | Some r \<Rightarrow> [(i, r)])"

text \<open>
  A request on the wire may be served at any time, also after its caller gave up, or never. An answer is looked at
  within \<open>delay\<close> of its time, or the call fails. The table may change for other elections.
\<close>

inductive cluster_step :: "(int \<Rightarrow> string) \<Rightarrow> int \<Rightarrow> (nat \<Rightarrow> int) \<Rightarrow> int \<Rightarrow> cluster \<Rightarrow> cluster \<Rightarrow> bool"
  for ts off org delay where
  Tick: "0 \<le> d \<Longrightarrow> cluster_step ts off org delay s (s\<lparr>cl_now := cl_now s + d\<rparr>)"
| Ask: "eh_running (cl_handle s i) \<Longrightarrow> cl_call s i = Idle \<Longrightarrow> request = next_request (cl_now s + org i) (cl_handle s i) \<Longrightarrow>
    cluster_step ts off org delay s (s\<lparr>cl_call := (cl_call s)(i := Asking request), cl_wire := (i, request) # cl_wire s\<rparr>)"
| Serve: "(i, request) \<in> set (cl_wire s) \<Longrightarrow> cl_now s \<le> t_active \<Longrightarrow> t_active \<le> t_proto \<Longrightarrow>
    election_call ts flt (server_ms off (cl_now s)) (server_ms off t_active) (server_ms off t_proto) lease
      (cl_handle s i) request (cl_rows s) = (rows, answer) \<Longrightarrow>
    cluster_step ts off org delay s (s\<lparr>cl_rows := rows, cl_wire := remove1 (i, request) (cl_wire s),
      cl_call := (cl_call s)(i := (if cl_call s i = Asking request
        then case answer of None \<Rightarrow> Broken | Some a \<Rightarrow> Answered a t_proto else cl_call s i))\<rparr>)"
| Fail: "cl_call s i \<noteq> Idle \<Longrightarrow> cluster_step ts off org delay s (s\<lparr>cl_call := (cl_call s)(i := Broken)\<rparr>)"
| Answer: "cl_call s i = Answered a t \<Longrightarrow> t \<le> cl_now s \<Longrightarrow> cl_now s \<le> t + delay \<Longrightarrow> n1 \<le> cl_now s + org i \<Longrightarrow>
    on_answer n1 (cl_now s + org i) (Some a) (cl_handle s i) = (h, resignation) \<Longrightarrow>
    cluster_step ts off org delay s (s\<lparr>cl_handle := (cl_handle s)(i := h), cl_call := (cl_call s)(i := Idle),
      cl_wire := sent i resignation @ cl_wire s\<rparr>)"
| Exception: "cl_call s i = Broken \<Longrightarrow> on_answer (cl_now s + org i) (cl_now s + org i) None (cl_handle s i) = (h, resignation) \<Longrightarrow>
    cluster_step ts off org delay s (s\<lparr>cl_handle := (cl_handle s)(i := h), cl_call := (cl_call s)(i := Idle),
      cl_wire := sent i resignation @ cl_wire s\<rparr>)"
| Close: "eh_running (cl_handle s i) \<Longrightarrow> close_handle (cl_now s + org i) (cl_handle s i) = (h, resignation) \<Longrightarrow>
    cluster_step ts off org delay s (s\<lparr>cl_handle := (cl_handle s)(i := h), cl_wire := sent i resignation @ cl_wire s\<rparr>)"
| Closed: "\<not> eh_running (cl_handle s i) \<Longrightarrow>
    cluster_step ts off org delay s
      (s\<lparr>cl_handle := (cl_handle s)(i := become_follower (eh_observed (cl_handle s i)) (cl_handle s i))\<rparr>)"
| Others: "unique_key er_key rows \<Longrightarrow> \<forall>i. row_of er_key (trim (eh_election (cl_handle s i))) rows = row_of er_key (trim (eh_election (cl_handle s i))) (cl_rows s) \<Longrightarrow>
    cluster_step ts off org delay s (s\<lparr>cl_rows := rows\<rparr>)"

subsection \<open>What the broker answers\<close>

text \<open>A lease of \<open>c\<close> covers the time up to \<open>deadline\<close>, unless that is over.\<close>

definition lasting :: "int \<Rightarrow> string \<Rightarrow> string \<Rightarrow> int \<Rightarrow> election_table \<Rightarrow> int \<Rightarrow> bool" where
  "lasting off e c now rows deadline \<longleftrightarrow>
     deadline \<le> now \<or>
     (\<exists>r. row_of er_key e rows = Some r \<and> er_leader_id r = c \<and> deadline \<le> er_expire_at_ms r * 1000000 - off)"

text \<open>A lease of \<open>c\<close> ends at most one period from now.\<close>

definition within :: "int \<Rightarrow> string \<Rightarrow> string \<Rightarrow> int \<Rightarrow> int \<Rightarrow> election_table \<Rightarrow> bool" where
  "within off e c ttl now rows \<longleftrightarrow>
     (\<forall>r. row_of er_key e rows = Some r \<and> er_leader_id r = c \<longrightarrow> er_expire_at_ms r \<le> expires_at (server_ms off now) ttl)"

definition granted :: "election_answer \<Rightarrow> election_leader option" where
  "granted a = (case a of Campaigned True l \<Rightarrow> Some l | Renewed True l \<Rightarrow> l | _ \<Rightarrow> None)"

lemma lasting_later: "lasting off e c now rows d \<Longrightarrow> now \<le> now' \<Longrightarrow> lasting off e c now' rows d"
  by (auto simp: lasting_def)

lemma expires_at_mono: "t \<le> u \<Longrightarrow> expires_at t ttl \<le> expires_at u ttl"
  unfolding expires_at_def sat_i64_def by linarith

lemma server_ms_mono: "t \<le> u \<Longrightarrow> server_ms off t \<le> server_ms off u"
  by (simp add: server_ms_def zdiv_mono1)

lemma server_ms_gap: "t + off < server_ms off t * 1000000 + 1000000"
proof -
  have "t + off = server_ms off t * 1000000 + (t + off) mod 1000000" unfolding server_ms_def by (rule div_mult_mod_eq [symmetric])
  moreover have "(t + off) mod 1000000 < 1000000" by simp
  ultimately show ?thesis by linarith
qed

lemma within_later: "within off e c ttl now rows \<Longrightarrow> now \<le> now' \<Longrightarrow> within off e c ttl now' rows"
  unfolding within_def using expires_at_mono [OF server_ms_mono [of now now' off], of ttl] by fastforce

text \<open>The broker runs the operation on the trimmed names, or nothing at all.\<close>

lemma call_campaign:
  assumes "election_call ts flt now ta tp lease h Ask_campaign rows = (rows', answer)"
  shows "rows' = rows \<and> answer = None \<or>
    (\<exists>res. campaign ts flt now ta lease (trim (eh_election h)) (trim (eh_candidate h)) (eh_ttl h) rows = (rows', res) \<and>
       answer = (case res of Inl _ \<Rightarrow> None | Inr (won, x) \<Rightarrow> Some (Campaigned won (to_proto ts tp x))))"
  using assms
  by (auto simp: election_call_def service_campaign_def required_def bindE_def Let_def split: sum.splits prod.splits if_splits)

lemma call_renew:
  assumes "election_call ts flt now ta tp lease h (Ask_renew t i) rows = (rows', answer)"
  shows "rows' = rows \<and> answer = None \<or>
    (\<exists>res. renew ts flt now (trim (eh_election h)) (trim (eh_candidate h)) t (trim i) (eh_ttl h) rows = (rows', res) \<and>
       answer = (case res of Inl _ \<Rightarrow> None | Inr x \<Rightarrow> Some (Renewed (x \<noteq> None) (map_option (to_proto ts tp) x))))"
  using assms
  by (auto simp: election_call_def service_renew_def required_def bindE_def Let_def split: sum.splits prod.splits if_splits)

lemma call_resign:
  assumes "election_call ts flt now ta tp lease h (Ask_resign t i) rows = (rows', answer)"
  shows "answer = None \<and>
    (rows' = rows \<or> (\<exists>res. resign ts flt now (trim (eh_election h)) (trim (eh_candidate h)) t (trim i) rows = (rows', res)))"
  using assms
  by (auto simp: election_call_def service_resign_def required_def bindE_def Let_def split: sum.splits prod.splits if_splits)

text \<open>How a call changes the row of its election.\<close>

lemma call_row:
  assumes "election_call ts flt now ta tp lease h request rows = (rows', answer)" "row_of er_key e rows' \<noteq> row_of er_key e rows"
  shows "case request of
       Ask_campaign \<Rightarrow> \<exists>r'. row_of er_key e rows' = Some r' \<and> er_leader_id r' = trim (eh_candidate h) \<and>
         er_expire_at_ms r' = expires_at now (eh_ttl h) \<and> (\<forall>r. row_of er_key e rows = Some r \<longrightarrow> er_expire_at_ms r \<le> now)
     | Ask_renew _ _ \<Rightarrow> \<exists>r u. row_of er_key e rows = Some r \<and> er_leader_id r = trim (eh_candidate h) \<and>
         row_of er_key e rows' = Some (set_lease (expires_at now (eh_ttl h)) u r)
     | Ask_resign _ _ \<Rightarrow> \<exists>r u. row_of er_key e rows = Some r \<and> er_leader_id r = trim (eh_candidate h) \<and> now < er_expire_at_ms r \<and>
         row_of er_key e rows' = Some (set_lease now u r)"
proof (cases request)
  case Ask_campaign
  then have c: "rows' = fst (campaign ts flt now ta lease (trim (eh_election h)) (trim (eh_candidate h)) (eh_ttl h) rows)"
    using call_campaign assms by (metis fst_conv)
  then have "\<not> flt 0" using assms(2) fst_campaign_fault by metis
  note row = row_of_campaign [of flt e ts now ta lease "trim (eh_election h)" "trim (eh_candidate h)" "eh_ttl h" rows, OF this, folded c]
  then show ?thesis
    using Ask_campaign assms(2)
    by (cases "row_of er_key e rows") (auto simp: Let_def campaign_row_def take_over_def split: if_splits)
next
  case (Ask_renew t i)
  then have c: "rows' = fst (renew ts flt now (trim (eh_election h)) (trim (eh_candidate h)) t (trim i) (eh_ttl h) rows)"
    using call_renew assms by (metis fst_conv)
  show ?thesis
    using Ask_renew assms(2) unfolding c row_of_renew
    by (cases "row_of er_key e rows") (auto simp: lease_matches_def split: if_splits)
next
  case (Ask_resign t i)
  then have c: "rows' = fst (resign ts flt now (trim (eh_election h)) (trim (eh_candidate h)) t (trim i) rows)"
    using call_resign assms by (metis fst_conv)
  show ?thesis
    using Ask_resign assms(2) unfolding c row_of_resign
    by (cases "row_of er_key e rows") (auto simp: lease_matches_def split: if_splits)
qed

lemma call_lasting:
  assumes "election_call ts flt (server_ms off now) ta tp lease h request rows = (rows', answer)"
    and "lasting off e c now rows d" "within off e c (eh_ttl h) now rows \<or> c \<noteq> trim (eh_candidate h)"
    and "\<And>t i. request = Ask_resign t i \<Longrightarrow> c \<noteq> trim (eh_candidate h)"
  shows "lasting off e c now rows' d"
proof (cases "d \<le> now \<or> row_of er_key e rows' = row_of er_key e rows")
  case False
  then obtain r where r: "row_of er_key e rows = Some r" "er_leader_id r = c" "d \<le> er_expire_at_ms r * 1000000 - off"
    using assms(2) by (auto simp: lasting_def)
  have live: "\<not> er_expire_at_ms r \<le> server_ms off now"
    using False r(3) by (simp add: server_ms_def) linarith
  show ?thesis
  proof (cases request)
    case Ask_campaign
    then show ?thesis using call_row [OF assms(1), of e] False r(1) live by auto
  next
    case (Ask_renew t i)
    then obtain u where u: "c = trim (eh_candidate h)" "row_of er_key e rows' = Some (set_lease (expires_at (server_ms off now) (eh_ttl h)) u r)"
      using call_row [OF assms(1), of e] False r by auto
    then have "er_expire_at_ms r \<le> expires_at (server_ms off now) (eh_ttl h)" using assms(3) r by (auto simp: within_def)
    then have "d \<le> expires_at (server_ms off now) (eh_ttl h) * 1000000 - off" using r(3) by linarith
    then show ?thesis unfolding lasting_def u(2) using r(2) by (simp add: set_lease_def)
  next
    case (Ask_resign t i)
    then show ?thesis using call_row [OF assms(1), of e] False r assms(4) by auto
  qed
qed (use assms(2) in \<open>auto simp: lasting_def\<close>)

lemma call_within:
  assumes "election_call ts flt (server_ms off now) ta tp lease h request rows = (rows', answer)"
    and "within off e c ttl now rows" "c = trim (eh_candidate h) \<Longrightarrow> ttl = eh_ttl h"
  shows "within off e c ttl now rows'"
  using call_row [OF assms(1), of e] assms(2,3)
proof (cases "row_of er_key e rows' = row_of er_key e rows")
  case False
  note row = call_row [OF assms(1) False]
  show ?thesis
  proof (cases request)
    case Ask_campaign
    then show ?thesis using row assms(3) by (auto simp: within_def)
  next
    case (Ask_renew t i)
    then show ?thesis using row assms(3) by (auto simp: within_def set_lease_def)
  next
    case (Ask_resign t i)
    then obtain r u where r: "row_of er_key e rows = Some r" "server_ms off now < er_expire_at_ms r"
      "row_of er_key e rows' = Some (set_lease (server_ms off now) u r)" using row by auto
    then have "er_leader_id r = c \<longrightarrow> er_expire_at_ms r \<le> expires_at (server_ms off now) ttl"
      using assms(2) by (simp add: within_def)
    with r show ?thesis by (auto simp: within_def set_lease_def)
  qed
qed (use assms(2) in \<open>simp add: within_def\<close>)

text \<open>A granted lease is in the table, and lasts as long as the answer says.\<close>

lemma remaining_ttl: "0 < el_remaining_ttl_ms (to_proto ts t l) \<Longrightarrow> t + el_remaining_ttl_ms (to_proto ts t l) \<le> ll_expire_at_ms l"
  unfolding to_proto_def sat_i64_def i64_min_def i64_max_def by (simp split: if_splits)

lemma call_unique:
  assumes "election_call ts flt now ta tp lease h request rows = (rows', answer)" "unique_key er_key rows"
  shows "unique_key er_key rows'"
proof -
  let ?e = "trim (eh_election h)" and ?c = "trim (eh_candidate h)"
  have "\<exists>op. rows' = election_apply ts op rows" if "rows' \<noteq> rows"
  proof (cases request)
    case Ask_campaign
    then have "rows' = election_apply ts (Campaign flt now ta lease ?e ?c (eh_ttl h)) rows"
      using call_campaign assms(1) that by fastforce
    then show ?thesis by blast
  next
    case (Ask_renew t i)
    then have "rows' = election_apply ts (Renew flt now ?e ?c t (trim i) (eh_ttl h)) rows"
      using call_renew assms(1) that by fastforce
    then show ?thesis by blast
  next
    case (Ask_resign t i)
    then have "rows' = election_apply ts (Resign flt now ?e ?c t (trim i)) rows"
      using call_resign assms(1) that by fastforce
    then show ?thesis by blast
  qed
  then show ?thesis using unique_election_apply [OF assms(2)] assms(2) by (cases "rows' = rows") auto
qed

lemma call_granted:
  assumes "election_call ts flt now ta tp lease h request rows = (rows', Some a)" "granted a = Some l" "0 < el_remaining_ttl_ms l"
    and "unique_key er_key rows"
  shows "\<exists>r. row_of er_key (trim (eh_election h)) rows' = Some r \<and> er_leader_id r = trim (eh_candidate h) \<and>
    tp + el_remaining_ttl_ms l \<le> er_expire_at_ms r"
proof (cases request)
  case Ask_campaign
  obtain res where res: "campaign ts flt now ta lease (trim (eh_election h)) (trim (eh_candidate h)) (eh_ttl h) rows = (rows', res)"
    "Some a = (case res of Inl _ \<Rightarrow> None | Inr (won, x) \<Rightarrow> Some (Campaigned won (to_proto ts tp x)))"
    using call_campaign [OF assms(1) [unfolded Ask_campaign]] by blast
  then obtain x where x: "res = Inr (True, x)" "l = to_proto ts tp x"
    using assms(2) by (cases res) (auto simp: granted_def split: bool.splits)
  with res(1) obtain r where "row_of er_key (trim (eh_election h)) rows' = Some r" "x = hydrate r" "ll_leader_id x = trim (eh_candidate h)"
    by (auto simp: campaign_def Let_def split: if_splits option.splits)
  with x(2) remaining_ttl [of ts tp x] assms(3) show ?thesis by (auto simp: hydrate_def)
next
  case (Ask_renew t i)
  let ?P = "lease_matches (trim (eh_election h)) (trim (eh_candidate h)) (int t) (trim i) now"
  let ?f = "set_lease (expires_at now (eh_ttl h)) (ts now)"
  obtain res where res: "renew ts flt now (trim (eh_election h)) (trim (eh_candidate h)) t (trim i) (eh_ttl h) rows = (rows', res)"
    "Some a = (case res of Inl _ \<Rightarrow> None | Inr x \<Rightarrow> Some (Renewed (x \<noteq> None) (map_option (to_proto ts tp) x)))"
    using call_renew [OF assms(1) [unfolded Ask_renew]] by blast
  then obtain x where x: "res = Inr (Some x)" "l = to_proto ts tp x"
    using assms(2) by (cases res) (auto simp: granted_def split: bool.splits)
  with res(1) obtain r where r: "find ?P rows = Some r" "x = hydrate (?f r)" "rows' = snd (sql_update ?P ?f rows)"
    by (auto simp: renew_def term_of_u64_def Let_def split: if_splits option.splits)
  from r(1) obtain k where "k < length rows" "?P (rows ! k)" "r = rows ! k" unfolding find_Some_iff by blast
  then have m: "?P r" "row_of er_key (trim (eh_election h)) rows = Some r"
    using assms(4) by (simp_all add: row_of_Some_iff lease_matches_def)
  then have "row_of er_key (trim (eh_election h)) rows' = Some (?f r)" by (simp add: r(3) set_lease_upd.row_of_update)
  with x(2) r(2) m(1) remaining_ttl [of ts tp x] assms(3) show ?thesis by (auto simp: hydrate_def set_lease_def lease_matches_def)
qed (use assms(1) in \<open>simp add: election_call_def\<close>)

subsection \<open>The invariant\<close>

text \<open>What a handle that became leader has to do with the answer it got.\<close>

lemma wrap_i64_le: "- (2 ^ 63) \<le> x \<Longrightarrow> wrap_i64 x \<le> x"
  unfolding wrap_i64_def using zmod_le_nonneg_dividend [of "x + 2 ^ 63" "2 ^ 64"] by simp

lemma leader_deadline:
  assumes "eh_leading (become_leader n1 n2 l h)" "- (2 ^ 63) \<le> n2" "3 \<le> eh_ttl h"
  shows "1000 < el_remaining_ttl_ms l \<and> eh_valid_until (become_leader n1 n2 l h) \<le> n2 + (el_remaining_ttl_ms l - 1000) * 1000000"
proof -
  have s: "min 1000 (eh_ttl h * 1000 div 3) = 1000" using assms(3) by simp
  have pos: "1000 < el_remaining_ttl_ms l" using assms(1) s by (simp add: become_leader_def become_follower_def Let_def split: if_splits)
  have "sat_i64 ((el_remaining_ttl_ms l - 1000) * 1000000) \<le> (el_remaining_ttl_ms l - 1000) * 1000000"
    "0 \<le> sat_i64 ((el_remaining_ttl_ms l - 1000) * 1000000)"
    using pos by (simp_all add: sat_i64_def i64_min_def i64_max_def)
  then show ?thesis
    using pos s assms(2) wrap_i64_le [of "n2 + sat_i64 ((el_remaining_ttl_ms l - 1000) * 1000000)"] by (simp add: become_leader_def Let_def)
qed

lemma follower_fields [simp]:
  "eh_election (become_follower l h) = eh_election h" "eh_candidate (become_follower l h) = eh_candidate h"
  "eh_ttl (become_follower l h) = eh_ttl h" "eh_running (become_follower l h) = eh_running h" "\<not> eh_leading (become_follower l h)"
  by (simp_all add: become_follower_def)

lemma leader_fields [simp]:
  "eh_election (become_leader n1 n2 l h) = eh_election h" "eh_candidate (become_leader n1 n2 l h) = eh_candidate h"
  "eh_ttl (become_leader n1 n2 l h) = eh_ttl h" "eh_running (become_leader n1 n2 l h) = eh_running h"
  by (simp_all add: become_leader_def Let_def)

lemma on_answer_fields:
  assumes "on_answer n1 n2 answer h = (h', resignation)"
  shows "eh_election h' = eh_election h" "eh_candidate h' = eh_candidate h" "eh_ttl h' = eh_ttl h" "eh_running h' = eh_running h"
    "eh_running h \<Longrightarrow> resignation = None"
  using assms
  by (auto simp: on_answer_def split: if_splits option.splits election_answer.splits bool.splits)

lemma on_answer_leading:
  assumes "on_answer n1 n2 answer h = (h', resignation)" "eh_leading h'"
  shows "(answer = None \<and> h' = h) \<or> (\<exists>a l. answer = Some a \<and> granted a = Some l \<and> h' = become_leader n1 n2 l h)"
  using assms
  by (auto simp: on_answer_def granted_def split: if_splits option.splits election_answer.splits bool.splits)

text \<open>
  What holds for each handle with its outstanding call: until its deadline, and until the end of a lease in an answer that is
  still under way, the table has a lease of its candidate.
\<close>

definition party_ok :: "int \<Rightarrow> int \<Rightarrow> int \<Rightarrow> election_table \<Rightarrow> election_handle \<Rightarrow> call_phase \<Rightarrow> bool" where
  "party_ok off origin now rows h call \<longleftrightarrow>
     (let e = trim (eh_election h); c = trim (eh_candidate h) in
      3 \<le> eh_ttl h \<and> within off e c (eh_ttl h) now rows \<and>
      (eh_running h \<longrightarrow>
         (eh_leading h \<longrightarrow> lasting off e c now rows (eh_valid_until h - origin)) \<and>
         (\<forall>a t l. call = Answered a t \<longrightarrow> granted a = Some l \<longrightarrow> 0 < el_remaining_ttl_ms l \<longrightarrow>
            lasting off e c now rows ((server_ms off t + el_remaining_ttl_ms l) * 1000000 - off))))"

lemma party_later: "party_ok off origin now rows h call \<Longrightarrow> now \<le> now' \<Longrightarrow> party_ok off origin now' rows h call"
  using within_later [of off "trim (eh_election h)" "trim (eh_candidate h)" "eh_ttl h" now rows now']
    lasting_later [of off "trim (eh_election h)" "trim (eh_candidate h)" now rows _ now']
  unfolding party_ok_def Let_def by simp

lemma party_phase:
  "party_ok off origin now rows h call \<Longrightarrow> (\<And>a t. call' \<noteq> Answered a t) \<Longrightarrow> party_ok off origin now rows h call'"
  by (auto simp: party_ok_def Let_def)

lemma party_rows:
  "party_ok off origin now rows h call \<Longrightarrow> row_of er_key (trim (eh_election h)) rows' = row_of er_key (trim (eh_election h)) rows \<Longrightarrow>
   party_ok off origin now rows' h call"
  by (simp add: party_ok_def Let_def within_def lasting_def)

lemma party_served:
  assumes "election_call ts flt (server_ms off now) ta tp lease h' request rows = (rows', answer)" "party_ok off origin now rows h call"
    and "trim (eh_candidate h) = trim (eh_candidate h') \<Longrightarrow> h' = h" "\<And>t j. request = Ask_resign t j \<Longrightarrow> \<not> eh_running h'"
  shows "party_ok off origin now rows' h call"
proof -
  let ?e = "trim (eh_election h)" and ?c = "trim (eh_candidate h)"
  have w: "within off ?e ?c (eh_ttl h) now rows" using assms(2) by (simp add: party_ok_def Let_def)
  have ttl: "?c = trim (eh_candidate h') \<Longrightarrow> eh_ttl h = eh_ttl h'" using assms(3) by simp
  have last: "lasting off ?e ?c now rows' d" if "lasting off ?e ?c now rows d" "eh_running h" for d
    using that assms(3,4) w ttl by (intro call_lasting [OF assms(1)]) auto
  from call_within [OF assms(1) w ttl] last assms(2) show ?thesis by (simp add: party_ok_def Let_def)
qed

lemma party_answered:
  assumes "election_call ts flt (server_ms off now) ta (server_ms off tp) lease h request rows = (rows', Some a)"
    and "party_ok off origin now rows' h call" "unique_key er_key rows"
  shows "party_ok off origin now rows' h (Answered a tp)"
proof -
  have "lasting off (trim (eh_election h)) (trim (eh_candidate h)) now rows' ((server_ms off tp + el_remaining_ttl_ms l) * 1000000 - off)"
    if "granted a = Some l" "0 < el_remaining_ttl_ms l" for l
    using call_granted [OF assms(1) that assms(3)] by (auto simp: lasting_def)
  with assms(2) show ?thesis by (simp add: party_ok_def Let_def)
qed

text \<open>The safety margin of one second pays for the way of the answer and for the milliseconds of the broker.\<close>

lemma party_receives:
  assumes "party_ok off origin now rows h (Answered a t)" "now \<le> t + delay" "delay \<le> 999 * 1000000" "- (2 ^ 63) \<le> now + origin"
    and "on_answer n1 (now + origin) (Some a) h = (h', resignation)"
  shows "party_ok off origin now rows h' Idle"
proof -
  have "lasting off (trim (eh_election h)) (trim (eh_candidate h)) now rows (eh_valid_until h' - origin)" if run: "eh_running h" and lead: "eh_leading h'"
  proof -
    obtain l where l: "granted a = Some l" "h' = become_leader n1 (now + origin) l h" using on_answer_leading [OF assms(5) lead] by auto
    have ttl: "3 \<le> eh_ttl h" using assms(1) by (simp add: party_ok_def Let_def)
    have d: "1000 < el_remaining_ttl_ms l" "eh_valid_until h' \<le> now + origin + (el_remaining_ttl_ms l - 1000) * 1000000"
      using leader_deadline [of n1 "now + origin" l h] lead l(2) assms(4) ttl by simp_all
    have "eh_valid_until h' - origin \<le> (server_ms off t + el_remaining_ttl_ms l) * 1000000 - off"
      using server_ms_gap [of t off] d(2) assms(2,3) by (simp add: distrib_right left_diff_distrib)
    moreover have "lasting off (trim (eh_election h)) (trim (eh_candidate h)) now rows ((server_ms off t + el_remaining_ttl_ms l) * 1000000 - off)"
      using assms(1) run l(1) d(1) by (simp add: party_ok_def Let_def)
    ultimately show ?thesis by (auto simp: lasting_def)
  qed
  with assms(1) show ?thesis by (simp add: party_ok_def Let_def on_answer_fields [OF assms(5)])
qed

lemma party_exception:
  assumes "party_ok off origin now rows h call" "on_answer n1 n2 None h = (h', resignation)"
  shows "party_ok off origin now rows h' Idle"
proof (cases "eh_leading h'")
  case True
  then have "h' = h" using on_answer_leading [OF assms(2)] by simp
  then show ?thesis using party_phase [OF assms(1)] by simp
next
  case False
  then show ?thesis using assms(1) by (simp add: party_ok_def Let_def on_answer_fields [OF assms(2)])
qed

definition cluster_ok :: "int \<Rightarrow> (nat \<Rightarrow> int) \<Rightarrow> cluster \<Rightarrow> bool" where
  "cluster_ok off org s \<longleftrightarrow>
     unique_key er_key (cl_rows s) \<and> 0 \<le> cl_now s \<and> inj (\<lambda>i. trim (eh_candidate (cl_handle s i))) \<and>
     (\<forall>i. party_ok off (org i) (cl_now s) (cl_rows s) (cl_handle s i) (cl_call s i)) \<and>
     (\<forall>i t j. (i, Ask_resign t j) \<in> set (cl_wire s) \<longrightarrow> \<not> eh_running (cl_handle s i))"

lemma cluster_okD:
  assumes "cluster_ok off org s"
  shows "unique_key er_key (cl_rows s)" "0 \<le> cl_now s" "inj (\<lambda>i. trim (eh_candidate (cl_handle s i)))"
    "party_ok off (org i) (cl_now s) (cl_rows s) (cl_handle s i) (cl_call s i)"
    "(i, Ask_resign t j) \<in> set (cl_wire s) \<Longrightarrow> \<not> eh_running (cl_handle s i)"
  using assms unfolding cluster_ok_def by blast+

text \<open>A step of one handle.\<close>

lemma cluster_update:
  assumes "cluster_ok off org s" "party_ok off (org i) (cl_now s) (cl_rows s) h call"
    and "eh_candidate h = eh_candidate (cl_handle s i)" "eh_running h \<longrightarrow> eh_running (cl_handle s i) \<and> resignation = None"
  shows "cluster_ok off org (s\<lparr>cl_handle := (cl_handle s)(i := h), cl_call := (cl_call s)(i := call), cl_wire := sent i resignation @ cl_wire s\<rparr>)"
proof -
  note ok = cluster_okD [OF assms(1)]
  have "(\<lambda>k. trim (eh_candidate (((cl_handle s)(i := h)) k))) = (\<lambda>k. trim (eh_candidate (cl_handle s k)))" using assms(3) by auto
  then have "inj (\<lambda>k. trim (eh_candidate (((cl_handle s)(i := h)) k)))" using ok(3) by simp
  moreover have "\<not> eh_running (((cl_handle s)(i := h)) k)" if "(k, Ask_resign t j) \<in> set (sent i resignation @ cl_wire s)" for k t j
    using that ok(5) [of k t j] assms(4) by (auto split: option.splits)
  ultimately show ?thesis unfolding cluster_ok_def using ok(1,2,4) assms(2) by simp
qed

lemma cluster_serve:
  assumes "cluster_ok off org s" "(i, request) \<in> set (cl_wire s)"
    and "election_call ts flt (server_ms off (cl_now s)) ta (server_ms off tp) lease (cl_handle s i) request (cl_rows s) = (rows, answer)"
  shows "cluster_ok off org (s\<lparr>cl_rows := rows, cl_wire := remove1 (i, request) (cl_wire s),
      cl_call := (cl_call s)(i := (if cl_call s i = Asking request
        then case answer of None \<Rightarrow> Broken | Some a \<Rightarrow> Answered a tp else cl_call s i))\<rparr>)"
proof -
  note ok = cluster_okD [OF assms(1)]
  have resign: "\<not> eh_running (cl_handle s i)" if "request = Ask_resign t j" for t j using ok(5) assms(2) that by blast
  have party: "party_ok off (org k) (cl_now s) rows (cl_handle s k) (cl_call s k)" for k
  proof (rule party_served [OF assms(3) ok(4)])
    assume "trim (eh_candidate (cl_handle s k)) = trim (eh_candidate (cl_handle s i))"
    then show "cl_handle s i = cl_handle s k" using ok(3) injD by fastforce
  qed (use resign in blast)
  have "party_ok off (org i) (cl_now s) rows (cl_handle s i) (case answer of None \<Rightarrow> Broken | Some a \<Rightarrow> Answered a tp)"
  proof (cases answer)
    case None
    then show ?thesis using party_phase [OF party] by simp
  next
    case (Some a)
    then show ?thesis using party_answered [OF assms(3) [unfolded Some] party ok(1)] by simp
  qed
  with party have "party_ok off (org k) (cl_now s) rows (cl_handle s k) (((cl_call s)(i := (if cl_call s i = Asking request
      then case answer of None \<Rightarrow> Broken | Some a \<Rightarrow> Answered a tp else cl_call s i))) k)" for k by simp
  moreover have "\<not> eh_running (cl_handle s k)" if "(k, Ask_resign t j) \<in> set (remove1 (i, request) (cl_wire s))" for k t j
    using that ok(5) set_remove1_subset by fastforce
  ultimately show ?thesis unfolding cluster_ok_def using ok(2,3) call_unique [OF assms(3) ok(1)] by simp
qed

lemma cluster_step_ok:
  assumes "cluster_step ts off org delay s s'" "cluster_ok off org s" "delay \<le> 999 * 1000000" "\<forall>i. - (2 ^ 63) \<le> org i"
  shows "cluster_ok off org s'"
  using assms(1)
proof cases
  case (Tick d)
  then show ?thesis using assms(2) party_later [OF cluster_okD(4) [OF assms(2)], of "cl_now s + d"] unfolding cluster_ok_def by simp
next
  case (Ask i request)
  have "party_ok off (org k) (cl_now s) (cl_rows s) (cl_handle s k) (((cl_call s)(i := Asking request)) k)" for k
    using cluster_okD(4) [OF assms(2), of k] party_phase by (cases "k = i") auto
  moreover have "request \<noteq> Ask_resign t j" for t j using Ask by (auto simp: next_request_def split: option.splits)
  ultimately show ?thesis using cluster_okD [OF assms(2)] unfolding cluster_ok_def Ask(1) by simp blast
next
  case (Serve i request t_active t_proto flt lease rows answer)
  show ?thesis unfolding Serve(1) by (rule cluster_serve [OF assms(2) Serve(2,5)])
next
  case (Fail i)
  have "party_ok off (org k) (cl_now s) (cl_rows s) (cl_handle s k) (((cl_call s)(i := Broken)) k)" for k
    using cluster_okD(4) [OF assms(2), of k] party_phase by (cases "k = i") auto
  then show ?thesis using assms(2) unfolding cluster_ok_def Fail(1) by simp
next
  case (Answer i a t n1 h resignation)
  have "- (2 ^ 63) \<le> cl_now s + org i" using cluster_okD(2) [OF assms(2)] assms(4) by (simp add: add_increasing)
  from party_receives [OF _ Answer(4) assms(3) this Answer(6)] cluster_okD(4) [OF assms(2), of i] on_answer_fields [OF Answer(6)]
  show ?thesis unfolding Answer(1) by (intro cluster_update [OF assms(2)]) (simp_all add: Answer(2))
next
  case (Exception i h resignation)
  from party_exception [OF cluster_okD(4) [OF assms(2)] Exception(3)] on_answer_fields [OF Exception(3)]
  show ?thesis unfolding Exception(1) by (intro cluster_update [OF assms(2)]) simp_all
next
  case (Close i h resignation)
  have "cluster_ok off org (s\<lparr>cl_handle := (cl_handle s)(i := h), cl_call := (cl_call s)(i := cl_call s i), cl_wire := sent i resignation @ cl_wire s\<rparr>)"
    using cluster_okD(4) [OF assms(2), of i] Close(3)
    by (intro cluster_update [OF assms(2)]) (auto simp: close_handle_def party_ok_def Let_def)
  then show ?thesis unfolding Close(1) by simp
next
  case (Closed i)
  let ?h = "become_follower (eh_observed (cl_handle s i)) (cl_handle s i)"
  have "cluster_ok off org (s\<lparr>cl_handle := (cl_handle s)(i := ?h), cl_call := (cl_call s)(i := cl_call s i), cl_wire := sent i None @ cl_wire s\<rparr>)"
    using cluster_okD(4) [OF assms(2), of i] Closed(2)
    by (intro cluster_update [OF assms(2)]) (auto simp: party_ok_def Let_def)
  then show ?thesis unfolding Closed(1) by simp
next
  case (Others rows)
  then show ?thesis using assms(2) party_rows [where rows' = rows, OF cluster_okD(4) [OF assms(2)]] unfolding cluster_ok_def by simp
qed

lemma cluster_run_ok:
  assumes "rtranclp (cluster_step ts off org delay) s s'" "cluster_ok off org s" "delay \<le> 999 * 1000000" "\<forall>i. - (2 ^ 63) \<le> org i"
  shows "cluster_ok off org s'"
  using assms by (induction rule: rtranclp_induct) (auto intro: cluster_step_ok)

lemma step_parties:
  assumes "cluster_step ts off org delay s s'"
  shows "eh_election (cl_handle s' k) = eh_election (cl_handle s k)" "eh_candidate (cl_handle s' k) = eh_candidate (cl_handle s k)"
  using assms by (cases rule: cluster_step.cases; force simp: close_handle_def on_answer_fields)+

lemma run_parties:
  assumes "rtranclp (cluster_step ts off org delay) s s'"
  shows "eh_election (cl_handle s' k) = eh_election (cl_handle s k) \<and> eh_candidate (cl_handle s' k) = eh_candidate (cl_handle s k)"
  using assms by (induction rule: rtranclp_induct) (simp_all add: step_parties)

lemma leader_holds:
  assumes "cluster_ok off org s" "eh_running (cl_handle s i)" "is_leader (cl_now s + org i) (cl_handle s i)"
  shows "election_holder (cl_rows s) (trim (eh_election (cl_handle s i))) (server_ms off (cl_now s)) = Some (trim (eh_candidate (cl_handle s i)))"
proof -
  have "lasting off (trim (eh_election (cl_handle s i))) (trim (eh_candidate (cl_handle s i))) (cl_now s) (cl_rows s)
      (eh_valid_until (cl_handle s i) - org i)"
    using cluster_okD(4) [OF assms(1), of i] assms(2,3) by (simp add: party_ok_def Let_def is_leader_def)
  then obtain r where r: "row_of er_key (trim (eh_election (cl_handle s i))) (cl_rows s) = Some r"
    "er_leader_id r = trim (eh_candidate (cl_handle s i))" "eh_valid_until (cl_handle s i) - org i \<le> er_expire_at_ms r * 1000000 - off"
    using assms(3) by (auto simp: lasting_def is_leader_def)
  have "server_ms off (cl_now s) * 1000000 \<le> cl_now s + off" unfolding server_ms_def by simp
  then have "server_ms off (cl_now s) < er_expire_at_ms r" using r(3) assms(3) by (simp add: is_leader_def)
  with r show ?thesis by (simp add: election_holder_def)
qed

lemma started:
  assumes "start_election election candidate ttl = Inr h"
  shows "eh_election h = java_trim election" "eh_candidate h = java_trim candidate" "3 \<le> eh_ttl h" "\<not> eh_leading h"
  using assms by (auto simp: start_election_def bindE_def split: sum.splits if_splits)

subsection \<open>Properties\<close>

text \<open>C30. One leader at a time, as seen by the clients: any number of handles run for one election, requests and answers are
  delayed, lost or served after their caller gave up, the database fails, handles are closed at any time. If every answer that is used
  arrives within 999 milliseconds, a running handle that says it is leader holds the lease at the broker at that
  moment, and no other running handle says so.\<close>

theorem handles_one_leader:
  assumes "\<forall>i. start_election election (cand i) (ttl i) = Inr (cl_handle s i)" "inj (\<lambda>i. trim (java_trim (cand i)))"
    and "unique_key er_key (cl_rows s)"
    and "\<forall>r i. row_of er_key (trim (java_trim election)) (cl_rows s) = Some r \<longrightarrow> er_leader_id r \<noteq> trim (java_trim (cand i))"
    and "\<forall>i. cl_call s i = Idle" "cl_wire s = []" "0 \<le> cl_now s" "\<forall>i. - (2 ^ 63) \<le> org i" "delay \<le> 999 * 1000000"
    and "rtranclp (cluster_step ts off org delay) s s'"
    and "eh_running (cl_handle s' i)" "is_leader (cl_now s' + org i) (cl_handle s' i)"
  shows "election_holder (cl_rows s') (trim (java_trim election)) (server_ms off (cl_now s')) = Some (trim (java_trim (cand i))) \<and>
    (\<forall>j. j \<noteq> i \<and> eh_running (cl_handle s' j) \<longrightarrow> \<not> is_leader (cl_now s' + org j) (cl_handle s' j))"
proof -
  have start: "eh_election (cl_handle s k) = java_trim election" "eh_candidate (cl_handle s k) = java_trim (cand k)"
    "3 \<le> eh_ttl (cl_handle s k)" "\<not> eh_leading (cl_handle s k)" for k
    using started assms(1) by blast+
  have "within off (trim (java_trim election)) (trim (java_trim (cand k))) n (cl_now s) (cl_rows s)" for k n
    using assms(4) unfolding within_def by blast
  then have "party_ok off (org k) (cl_now s) (cl_rows s) (cl_handle s k) (cl_call s k)" for k
    using assms(5) by (simp add: party_ok_def Let_def start)
  then have "cluster_ok off org s" using assms(2,3,6,7) by (simp add: cluster_ok_def start)
  then have ok: "cluster_ok off org s'" using cluster_run_ok [OF assms(10)] assms(8,9) by blast
  have holds: "election_holder (cl_rows s') (trim (java_trim election)) (server_ms off (cl_now s')) = Some (trim (java_trim (cand k)))"
    if "eh_running (cl_handle s' k)" "is_leader (cl_now s' + org k) (cl_handle s' k)" for k
    using leader_holds [OF ok that] run_parties [OF assms(10), of k] by (simp add: start)
  have "j = i" if "eh_running (cl_handle s' j)" "is_leader (cl_now s' + org j) (cl_handle s' j)" for j
    using holds [OF that] holds [OF assms(11,12)] assms(2) by (simp add: inj_def)
  with holds [OF assms(11,12)] show ?thesis by blast
qed

text \<open>A concrete cluster: the candidates are called \<open>a\<close>, \<open>aa\<close> and so on, and their leases last three seconds.\<close>

definition trial_handle :: "nat \<Rightarrow> election_handle" where
  "trial_handle i = \<lparr>eh_election = ''e'', eh_candidate = replicate (Suc i) (CHR ''a''), eh_ttl = 3, eh_running = True,
     eh_observed = None, eh_leading = False, eh_valid_until = 0, eh_changes = []\<rparr>"

definition trial :: cluster where
  "trial = \<lparr>cl_now = 0, cl_rows = [], cl_handle = trial_handle, cl_call = (\<lambda>_. Idle), cl_wire = []\<rparr>"

lemma trial_names [simp]: "trim (replicate n (CHR ''a'')) = replicate n (CHR ''a'')" "trim ''e'' = ''e''"
  "trim ''a'' = ''a''" "trim ''aa'' = ''aa''" "trim ''l'' = ''l''"
  by (simp_all add: trim_solid solid_def list_all_iff)

lemma trial_not_blank: "\<not> is_blank (CHR ''a'' # w)" "\<not> is_blank ''e''"
proof -
  have "strip_any java_white_space (CHR ''a'' # w) = None" "strip_any java_white_space ''e'' = None"
    by (simp_all add: java_white_space_def starts_with_def)
  then show "\<not> is_blank (CHR ''a'' # w)" "\<not> is_blank ''e''"
    by (simp_all add: is_blank_def trim_with_id)
qed

lemma trial_trim [simp]: "java_trim (replicate n (CHR ''a'')) = replicate n (CHR ''a'')" "java_trim ''e'' = ''e''"
  by (simp_all add: java_trim_def Let_def)

lemma trial_started: "start_election ''e'' (replicate (Suc i) (CHR ''a'')) 3 = Inr (trial_handle i)"
  unfolding start_election_def validate_election_def require_election_name_def java_validate_ttl_def trial_handle_def trial_trim
  by (simp add: trial_not_blank bindE_def)

lemma trial_call:
  assumes "rows = [] \<or> (\<exists>r. rows = [r] \<and> er_key r = ''e'' \<and> er_expire_at_ms r \<le> now)" "0 \<le> now" "now \<le> 10 ^ 6"
    and "eh_election h = ''e''" "eh_candidate h = c" "trim c = c" "c \<noteq> []" "eh_ttl h = 3"
  shows "\<exists>r l. election_call (\<lambda>_. []) no_faults now now now ''l'' h Ask_campaign rows = ([r], Some (Campaigned True l)) \<and>
    er_key r = ''e'' \<and> er_expire_at_ms r = now + 3000 \<and> el_remaining_ttl_ms l = 3000"
proof -
  let ?new = "campaign_row (\<lambda>_. []) now ''l'' ''e'' c 3"
  have e: "expires_at now 3 = now + 3000" using assms(2,3) by (simp add: expires_at_def sat_i64_def i64_min_def i64_max_def)
  have p: "sat_i64 3000 = 3000" by (simp add: sat_i64_def i64_min_def i64_max_def)
  obtain r where r: "campaign (\<lambda>_. []) no_faults now now ''l'' ''e'' c 3 rows = ([r], Inr (True, hydrate r))"
    "er_key r = ''e''" "er_expire_at_ms r = now + 3000"
    using assms(1)
  proof
    assume "rows = []"
    then have "campaign (\<lambda>_. []) no_faults now now ''l'' ''e'' c 3 rows = ([?new], Inr (True, hydrate ?new))"
      by (simp add: campaign_def Let_def sql_upsert_def row_of_def campaign_row_def e hydrate_def lease_active_def)
    then show ?thesis using that e by (simp add: campaign_row_def)
  next
    assume "\<exists>r. rows = [r] \<and> er_key r = ''e'' \<and> er_expire_at_ms r \<le> now"
    then obtain r where r: "rows = [r]" "er_key r = ''e''" "er_expire_at_ms r \<le> now" by blast
    then have "campaign (\<lambda>_. []) no_faults now now ''l'' ''e'' c 3 rows = ([take_over ?new r], Inr (True, hydrate (take_over ?new r)))"
      by (simp add: campaign_def Let_def sql_upsert_def row_of_def campaign_row_def take_over_def e hydrate_def lease_active_def)
    then show ?thesis using that e r(2) by (simp add: campaign_row_def take_over_def)
  qed
  have "election_call (\<lambda>_. []) no_faults now now now ''l'' h Ask_campaign rows = ([r], Some (Campaigned True (to_proto (\<lambda>_. []) now (hydrate r))))"
    by (simp add: election_call_def service_campaign_def required_def validate_ttl_def bindE_def assms(4-8) r(1))
  moreover have "el_remaining_ttl_ms (to_proto (\<lambda>_. []) now (hydrate r)) = 3000" by (simp add: to_proto_def hydrate_def r(3) p)
  ultimately show ?thesis using r(2,3) by blast
qed

text \<open>A handle that is not leader campaigns and gets the answer \<open>wait\<close> nanoseconds later.\<close>

lemma trial_campaign:
  assumes "cl_rows s = [] \<or> (\<exists>r. cl_rows s = [r] \<and> er_key r = ''e'' \<and> er_expire_at_ms r * 1000000 \<le> cl_now s)"
    and "0 \<le> cl_now s" "cl_now s \<le> 10 ^ 12" "cl_handle s i = trial_handle i" "cl_call s i = Idle" "0 \<le> wait" "wait \<le> delay" "delay \<le> 10 ^ 12"
  shows "\<exists>s'. rtranclp (cluster_step (\<lambda>_. []) 0 (\<lambda>_. 0) delay) s s' \<and> cl_now s' = cl_now s + wait \<and>
    (\<exists>r. cl_rows s' = [r] \<and> er_key r = ''e'' \<and> er_expire_at_ms r = server_ms 0 (cl_now s) + 3000) \<and>
    eh_running (cl_handle s' i) \<and> eh_leading (cl_handle s' i) \<and> eh_valid_until (cl_handle s' i) = cl_now s + wait + 2000000000 \<and>
    cl_call s' i = Idle \<and> (\<forall>j. j \<noteq> i \<longrightarrow> cl_handle s' j = cl_handle s j \<and> cl_call s' j = cl_call s j)"
proof -
  let ?step = "cluster_step (\<lambda>_. []) 0 (\<lambda>_. 0) delay" and ?now = "server_ms 0 (cl_now s)" and ?h = "trial_handle i"
  have h: "eh_election ?h = ''e''" "eh_candidate ?h = replicate (Suc i) (CHR ''a'')" "eh_ttl ?h = 3" "eh_running ?h" "eh_observed ?h = None"
    by (simp_all add: trial_handle_def)
  have rows: "cl_rows s = [] \<or> (\<exists>r. cl_rows s = [r] \<and> er_key r = ''e'' \<and> er_expire_at_ms r \<le> ?now)"
    using assms(1) by (auto simp: server_ms_def)
  have now: "0 \<le> ?now" "?now \<le> 10 ^ 6" using assms(2,3) by (simp_all add: server_ms_def)
  obtain r l where call: "election_call (\<lambda>_. []) no_faults ?now ?now ?now ''l'' ?h Ask_campaign (cl_rows s) = ([r], Some (Campaigned True l))"
    and r: "er_key r = ''e''" "er_expire_at_ms r = ?now + 3000" and l: "el_remaining_ttl_ms l = 3000"
    using trial_call [OF rows now h(1,2) trial_names(1) _ h(3)] by auto
  let ?h' = "become_leader (cl_now s + wait) (cl_now s + wait) l ?h"
  define s1 where "s1 = s\<lparr>cl_call := (cl_call s)(i := Asking Ask_campaign), cl_wire := (i, Ask_campaign) # cl_wire s\<rparr>"
  define s2 where "s2 = s1\<lparr>cl_rows := [r], cl_wire := remove1 (i, Ask_campaign) (cl_wire s1),
      cl_call := (cl_call s1)(i := (if cl_call s1 i = Asking Ask_campaign
        then case Some (Campaigned True l) of None \<Rightarrow> Broken | Some a \<Rightarrow> Answered a (cl_now s1) else cl_call s1 i))\<rparr>"
  define s3 where "s3 = s2\<lparr>cl_now := cl_now s2 + wait\<rparr>"
  define s4 where "s4 = s3\<lparr>cl_handle := (cl_handle s3)(i := ?h'), cl_call := (cl_call s3)(i := Idle), cl_wire := sent i None @ cl_wire s3\<rparr>"
  have "?step s s1" unfolding s1_def by (rule Ask) (simp_all add: assms(4,5) h next_request_def)
  moreover have "?step s1 s2" unfolding s2_def
    by (rule Serve [where t_active = "cl_now s1" and flt = no_faults and lease = "''l''"]) (simp_all add: s1_def assms(4) call)
  moreover have "?step s2 s3" unfolding s3_def by (rule Tick [OF assms(6)])
  moreover have "?step s3 s4" unfolding s4_def
    by (rule Answer [where a = "Campaigned True l" and t = "cl_now s" and ?n1.0 = "cl_now s + wait"])
      (simp_all add: s3_def s2_def s1_def assms(4,6,7) on_answer_def h)
  ultimately have "rtranclp ?step s s4" by (meson r_into_rtranclp rtranclp_trans)
  moreover have "eh_leading ?h' \<and> eh_valid_until ?h' = cl_now s + wait + 2000000000"
    using assms(2,3,6,7,8) by (simp add: become_leader_def Let_def h l sat_i64_def i64_min_def i64_max_def wrap_i64_id in_i64_def)
  ultimately show ?thesis
    using r by (intro exI [of _ s4]) (simp add: s4_def s3_def s2_def s1_def h)
qed

theorem handles_one_leader_witness:
  "\<exists>s'. rtranclp (cluster_step (\<lambda>_. []) 0 (\<lambda>_. 0) 0) trial s' \<and> is_leader (cl_now s') (cl_handle s' 0) \<and>
     election_holder (cl_rows s') ''e'' (server_ms 0 (cl_now s')) = Some ''a'' \<and>
     \<not> (eh_running (cl_handle s' 1) \<and> is_leader (cl_now s') (cl_handle s' 1))"
proof -
  have s: "\<forall>i. start_election ''e'' (replicate (Suc i) (CHR ''a'')) 3 = Inr (cl_handle trial i)"
    "unique_key er_key (cl_rows trial)" "\<forall>i. cl_call trial i = Idle" "cl_wire trial = []" "0 \<le> cl_now trial" "cl_handle trial 0 = trial_handle 0"
    "cl_rows trial = []" "cl_now trial = 0"
    by (simp_all add: trial_def trial_started del: replicate_Suc)
  obtain s' where s': "rtranclp (cluster_step (\<lambda>_. []) 0 (\<lambda>_. 0) 0) trial s'" "cl_now s' = 0" "eh_running (cl_handle s' 0)"
    "eh_leading (cl_handle s' 0)" "eh_valid_until (cl_handle s' 0) = 2000000000"
    using trial_campaign [of trial 0 0 0] s by auto
  have lead: "is_leader (cl_now s' + 0) (cl_handle s' 0)" using s' by (simp add: is_leader_def)
  have inj: "inj (\<lambda>i. trim (java_trim (replicate (Suc i) (CHR ''a''))))"
    unfolding trial_trim trial_names by (auto simp: inj_def replicate_eq_replicate simp del: replicate_Suc)
  have "\<forall>r i. row_of er_key (trim (java_trim ''e'')) (cl_rows trial) = Some r \<longrightarrow> er_leader_id r \<noteq> trim (java_trim (replicate (Suc i) (CHR ''a'')))"
    by (simp add: s(7) row_of_def)
  from handles_one_leader [where org = "\<lambda>_. 0" and i = 0, OF s(1) inj s(2) this s(3-5) _ _ s'(1,3) lead]
  have "election_holder (cl_rows s') ''e'' (server_ms 0 (cl_now s')) = Some (trim (java_trim (replicate (Suc 0) (CHR ''a'')))) \<and>
    (\<forall>j. j \<noteq> 0 \<and> eh_running (cl_handle s' j) \<longrightarrow> \<not> is_leader (cl_now s' + 0) (cl_handle s' j))" by simp
  moreover have "trim (java_trim (replicate (Suc 0) (CHR ''a''))) = ''a''" unfolding trial_trim trial_names by simp
  ultimately show ?thesis using s'(1) lead by auto
qed

text \<open>C31. The margin is needed: the deadline of a handle is counted from the arrival of the answer and not from the sending of the
  request, so an answer that takes two and a half seconds, far less than the fifteen a call may take, lets two running
  handles say at the same moment that they are leader.\<close>

theorem late_answer_two_leaders:
  "\<exists>s. rtranclp (cluster_step (\<lambda>_. []) 0 (\<lambda>_. 0) 2500000000) trial s \<and>
     eh_running (cl_handle s 0) \<and> is_leader (cl_now s) (cl_handle s 0) \<and>
     eh_running (cl_handle s 1) \<and> is_leader (cl_now s) (cl_handle s 1)"
proof -
  let ?step = "cluster_step (\<lambda>_. []) 0 (\<lambda>_. 0) 2500000000"
  obtain s r where s: "rtranclp ?step trial s" "cl_now s = 2500000000" "cl_rows s = [r]" "er_key r = ''e''" "er_expire_at_ms r = 3000"
    "eh_running (cl_handle s 0)" "eh_leading (cl_handle s 0)" "eh_valid_until (cl_handle s 0) = 4500000000"
    "cl_handle s 1 = trial_handle 1" "cl_call s 1 = Idle"
    using trial_campaign [of trial 0 2500000000 2500000000] by (auto simp: trial_def server_ms_def)
  define s2 where "s2 = s\<lparr>cl_now := cl_now s + 500000000\<rparr>"
  have tick: "?step s s2" unfolding s2_def by (rule Tick) simp
  obtain s3 where s3: "rtranclp ?step s2 s3" "cl_now s3 = 3000000000" "eh_running (cl_handle s3 1)" "eh_leading (cl_handle s3 1)"
    "eh_valid_until (cl_handle s3 1) = 5000000000" "cl_handle s3 0 = cl_handle s 0"
    using trial_campaign [of s2 1 0 2500000000] s(2-5,9,10) by (auto simp: s2_def)
  have "rtranclp ?step trial s3" using s(1) tick s3(1) by (meson r_into_rtranclp rtranclp_trans)
  then show ?thesis using s(6-8) s3 by (intro exI [of _ s3]) (simp add: is_leader_def)
qed

end
